(* ===== verification/Prelude.thy ===== *)
theory Prelude
  imports Main "HOL-Library.Word" "HOL-Library.Monad_Syntax" "HOL-Library.Sublist"
begin

text \<open>
  Shared ground of the development: the Go vocabulary the components use (indexing that can
  panic, \<open>slices.Index\<close>, \<open>strings.CutSuffix\<close>, \<open>strconv.Atoi\<close> and \<open>%d\<close>), the collections
  that carry the component proofs, and the generic lemmas on lists, folds and maps.

  Go's \<open>int\<close> is \<open>int\<close> here: slots, node numbers, validator ids and nanosecond durations stay
  far from the 64-bit limits in this program.  The conversions to \<open>uint32\<close> that the wire
  messages perform are written out on 32-bit words where they happen.
\<close>

named_theorems go_defs \<open>definitions of the Go vocabulary\<close>
named_theorems inv_intros \<open>operations that keep an invariant\<close>

type_synonym dur = int
type_synonym instant = int
type_synonym bytes = "8 word list"

text \<open>
  Go's \<open>/\<close> and \<open>%\<close> on integers truncate towards zero; a zero divisor panics and is guarded by
  the definitions that divide.
\<close>

definition go_div :: "int \<Rightarrow> int \<Rightarrow> int" where
  "go_div a b = sgn a * sgn b * (\<bar>a\<bar> div \<bar>b\<bar>)"

definition go_mod :: "int \<Rightarrow> int \<Rightarrow> int" where
  "go_mod a b = a - go_div a b * b"

lemma go_div_nonneg [simp]: "0 \<le> a \<Longrightarrow> 0 < b \<Longrightarrow> go_div a b = a div b"
  by (cases "a = 0") (simp_all add: go_div_def)

lemma go_mod_nonneg [simp]: "0 \<le> a \<Longrightarrow> 0 < b \<Longrightarrow> go_mod a b = a mod b"
  by (simp add: go_mod_def minus_div_mult_eq_mod)

section \<open>Slices\<close>

text \<open>\<open>xs[i]\<close>: \<open>None\<close> stands for the run-time panic of an index out of range.\<close>

definition go_index :: "'a list \<Rightarrow> int \<Rightarrow> 'a option" where
  "go_index xs i = (if 0 \<le> i \<and> i < int (length xs) then Some (xs ! nat i) else None)"

text \<open>\<open>slices.Index\<close>: the first index holding \<open>x\<close>, \<open>-1\<close> when there is none.\<close>

definition slices_Index :: "'a list \<Rightarrow> 'a \<Rightarrow> int" where
  "slices_Index xs x =
     (if x \<in> set xs then int (length (takeWhile (\<lambda>y. y \<noteq> x) xs)) else -1)"

lemma go_index_Some_iff [simp]:
  "go_index xs i = Some x \<longleftrightarrow> 0 \<le> i \<and> i < int (length xs) \<and> xs ! nat i = x"
  by (auto simp: go_index_def)

lemma go_index_None_iff [simp]:
  "go_index xs i = None \<longleftrightarrow> \<not> (0 \<le> i \<and> i < int (length xs))"
  by (auto simp: go_index_def)

lemma go_index_inside [simp]: "0 \<le> i \<Longrightarrow> i < int (length xs) \<Longrightarrow> go_index xs i = Some (xs ! nat i)"
  by simp

lemma go_index_in_set: "go_index xs i = Some x \<Longrightarrow> x \<in> set xs"
  by (auto intro!: nth_mem)

lemma slices_Index_nth:
  assumes "slices_Index xs x = i" and "0 \<le> i"
  shows "i < int (length xs)" and "xs ! nat i = x"
proof -
  have mem: "x \<in> set xs" using assms by (auto simp: slices_Index_def split: if_splits)
  then have i: "nat i = length (takeWhile (\<lambda>y. y \<noteq> x) xs)"
    using assms(1) by (simp add: slices_Index_def)
  have lt: "length (takeWhile (\<lambda>y. y \<noteq> x) xs) < length xs"
    using mem by (induction xs) auto
  then show "i < int (length xs)" using i assms(2) by linarith
  have "xs ! length (takeWhile (\<lambda>y. y \<noteq> x) xs) = x"
    using nth_length_takeWhile [OF lt] by simp
  then show "xs ! nat i = x" using i by simp
qed

section \<open>Strings\<close>

text \<open>\<open>strings.TrimPrefix\<close> and \<open>strings.CutSuffix\<close>.\<close>

definition strings_TrimPrefix :: "string \<Rightarrow> string \<Rightarrow> string" where
  "strings_TrimPrefix s p = (if prefix p s then drop (length p) s else s)"

definition strings_CutSuffix :: "string \<Rightarrow> string \<Rightarrow> string option" where
  "strings_CutSuffix s x = (if suffix x s then Some (take (length s - length x) s) else None)"

text \<open>\<open>%d\<close> on a non-negative number, then on any Go integer.\<close>

fun dec :: "nat \<Rightarrow> string" where
  "dec n = (if n < 10 then [char_of (48 + n)] else dec (n div 10) @ [char_of (48 + n mod 10)])"

definition fmt_d :: "int \<Rightarrow> string" where
  "fmt_d i = (if i < 0 then CHR ''-'' # dec (nat (- i)) else dec (nat i))"

definition is_digit :: "char \<Rightarrow> bool" where
  "is_digit c \<longleftrightarrow> 48 \<le> (of_char c :: nat) \<and> (of_char c :: nat) \<le> 57"

definition digits_val :: "string \<Rightarrow> nat" where
  "digits_val s = foldl (\<lambda>a c. 10 * a + (of_char c - 48)) 0 s"

text \<open>
  \<open>strconv.Atoi\<close> on a 64-bit platform: an optional sign, at least one decimal digit and
  nothing else, and a value that fits \<open>int64\<close>; \<open>None\<close> is its error.
\<close>

definition atoi :: "string \<Rightarrow> int option" where
  "atoi s =
     (let neg = (s \<noteq> [] \<and> hd s = CHR ''-'');
          ds = (if s \<noteq> [] \<and> (hd s = CHR ''-'' \<or> hd s = CHR ''+'') then tl s else s);
          v = (if neg then - int (digits_val ds) else int (digits_val ds))
      in if ds = [] \<or> \<not> list_all is_digit ds then None
         else if - (2 ^ 63) \<le> v \<and> v < 2 ^ 63 then Some v else None)"

declare dec.simps [simp del]

lemma of_char_digit: "d < 10 \<Longrightarrow> (of_char (char_of (48 + d)) :: nat) = 48 + d"
  by (simp add: of_char_of)

lemma dec_digits: "list_all is_digit (dec n)"
proof (induction n rule: dec.induct)
  case (1 n)
  have "is_digit (char_of (48 + d))" if "d < 10" for d :: nat
    using that by (simp add: is_digit_def of_char_digit)
  with 1 show ?case by (subst dec.simps) simp
qed

lemma dec_nonempty [simp]: "dec n \<noteq> []"
  by (subst dec.simps) simp

lemma digits_val_snoc: "digits_val (s @ [c]) = 10 * digits_val s + (of_char c - 48)"
  by (simp add: digits_val_def)

lemma digits_val_dec [simp]: "digits_val (dec n) = n"
proof (induction n rule: dec.induct)
  case (1 n)
  show ?case
  proof (cases "n < 10")
    case True
    then show ?thesis by (subst dec.simps) (simp add: digits_val_def of_char_digit)
  next
    case False
    with 1 show ?thesis
      by (subst dec.simps) (simp add: digits_val_snoc of_char_digit)
  qed
qed

lemma hd_dec_digit: "is_digit (hd (dec n))"
  using dec_digits [of n] by (cases "dec n") auto

lemma not_digit_signs [simp]: "\<not> is_digit CHR ''-''" "\<not> is_digit CHR ''+''"
  by (simp_all add: is_digit_def)

lemma hd_dec_no_sign [simp]: "hd (dec n) \<noteq> CHR ''-''" "hd (dec n) \<noteq> CHR ''+''"
  using hd_dec_digit [of n] not_digit_signs by metis+

lemma hd_fmt_d: "is_digit (hd (fmt_d i)) \<or> hd (fmt_d i) = CHR ''-''"
  by (simp add: fmt_d_def hd_dec_digit)

lemma fmt_d_nonempty [simp]: "fmt_d i \<noteq> []"
  by (simp add: fmt_d_def)

lemma dec_inject [simp]: "dec m = dec n \<longleftrightarrow> m = n"
  by (metis digits_val_dec)

lemma dec_neq_sign_Cons [simp]: "dec n \<noteq> CHR ''-'' # s" "CHR ''-'' # s \<noteq> dec n"
  by (metis hd_dec_no_sign(1) list.sel(1))+

lemma fmt_d_inject [simp]: "fmt_d i = fmt_d j \<longleftrightarrow> i = j"
  by (auto simp: fmt_d_def split: if_splits)

lemma atoi_fmt_d:
  assumes "- (2 ^ 63) \<le> i" and "i < 2 ^ 63"
  shows "atoi (fmt_d i) = Some i"
proof (cases "i < 0")
  case True
  then show ?thesis using assms by (simp add: atoi_def fmt_d_def dec_digits Let_def)
next
  case False
  then show ?thesis using assms by (simp add: atoi_def fmt_d_def dec_digits Let_def)
qed

lemma atoi_fmt_d_overflow:
  assumes "i < - (2 ^ 63) \<or> 2 ^ 63 \<le> i"
  shows "atoi (fmt_d i) = None"
proof (cases "i < 0")
  case True
  then show ?thesis using assms by (auto simp: atoi_def fmt_d_def dec_digits Let_def)
next
  case False
  then show ?thesis using assms by (auto simp: atoi_def fmt_d_def dec_digits Let_def)
qed

lemma strings_CutSuffix_append [simp]: "strings_CutSuffix (s @ x) x = Some s"
  by (simp add: strings_CutSuffix_def suffix_def)

lemma strings_TrimPrefix_append [simp]: "strings_TrimPrefix (p @ s) p = s"
  by (simp add: strings_TrimPrefix_def)

lemma strings_CutSuffix_Some: "strings_CutSuffix s x = Some r \<longleftrightarrow> s = r @ x"
  by (auto simp: strings_CutSuffix_def suffix_def)

section \<open>Big-endian words\<close>

text \<open>\<open>binary.BigEndian.AppendUint32(nil, w)\<close> and \<open>binary.BigEndian.Uint32\<close> on four bytes.\<close>

definition be32 :: "32 word \<Rightarrow> bytes" where
  "be32 w = [ucast (drop_bit 24 w), ucast (drop_bit 16 w), ucast (drop_bit 8 w), ucast w]"

definition of_be32 :: "bytes \<Rightarrow> 32 word" where
  "of_be32 bs = foldl (\<lambda>a b. or (push_bit 8 a) (ucast b)) 0 bs"

lemma length_be32 [simp]: "length (be32 w) = 4"
  by (simp add: be32_def)

lemma of_be32_be32 [simp]: "of_be32 (be32 w) = w"
proof (rule bit_word_eqI)
  fix n assume "n < LENGTH(32)"
  then consider "n < 8" | "8 \<le> n" "n < 16" | "16 \<le> n" "n < 24" | "24 \<le> n" "n < 32"
    by fastforce
  then show "bit (of_be32 (be32 w)) n = bit w n"
    by cases (auto simp: be32_def of_be32_def bit_simps)
qed

section \<open>Loops that can panic\<close>

text \<open>A \<open>for\<close> loop whose body may panic, and a loop that maps its body over a slice.\<close>

fun foldO :: "('s \<Rightarrow> 'a \<Rightarrow> 's option) \<Rightarrow> 'a list \<Rightarrow> 's \<Rightarrow> 's option" where
  "foldO f [] s = Some s"
| "foldO f (x # xs) s = (case f s x of None \<Rightarrow> None | Some s' \<Rightarrow> foldO f xs s')"

fun mapO :: "('a \<Rightarrow> 'b option) \<Rightarrow> 'a list \<Rightarrow> 'b list option" where
  "mapO f [] = Some []"
| "mapO f (x # xs) =
     (case f x of None \<Rightarrow> None
      | Some y \<Rightarrow> (case mapO f xs of None \<Rightarrow> None | Some ys \<Rightarrow> Some (y # ys)))"

lemma foldO_append: "foldO f (xs @ ys) s = Option.bind (foldO f xs s) (foldO f ys)"
  by (induction xs arbitrary: s) (auto split: option.split)

lemma mapO_Some_iff: "mapO f xs = Some ys \<longleftrightarrow> list_all2 (\<lambda>x y. f x = Some y) xs ys"
  by (induction xs arbitrary: ys)
    (auto simp: list_all2_Cons1 split: option.splits, metis option.inject)

lemma mapO_total: "(\<And>x. x \<in> set xs \<Longrightarrow> f x \<noteq> None) \<Longrightarrow> mapO f xs \<noteq> None"
  by (induction xs) (auto split: option.split)

lemma mapO_cong_Some: "(\<And>x. x \<in> set xs \<Longrightarrow> f x = Some (g x)) \<Longrightarrow> mapO f xs = Some (map g xs)"
  by (induction xs) auto

section \<open>Lists, folds and maps\<close>

text \<open>A loop over a slice keeps what its body keeps.\<close>

lemma foldl_invariant:
  assumes "I s" and "\<And>s x. I s \<Longrightarrow> x \<in> set xs \<Longrightarrow> I (f s x)"
  shows "I (foldl f s xs)"
  using assms by (induction xs arbitrary: s) auto

lemma fold_invariant_set:
  assumes "I s" and "\<And>s x. I s \<Longrightarrow> x \<in> set xs \<Longrightarrow> I (f x s)"
  shows "I (fold f xs s)"
  using assms by (induction xs arbitrary: s) auto

lemma set_enumerate_iff: "(i, x) \<in> set (List.enumerate 0 xs) \<longleftrightarrow> i < length xs \<and> xs ! i = x"
  by (auto simp: in_set_enumerate_eq)

text \<open>A \<open>for i, x := range xs\<close> loop that collects the indices whose element passes a test.\<close>

definition select_indices :: "('a \<Rightarrow> bool) \<Rightarrow> 'a list \<Rightarrow> int list" where
  "select_indices P xs = map (\<lambda>(i, x). int i) (filter (\<lambda>(i, x). P x) (List.enumerate 0 xs))"

lemma select_indices_eq: "select_indices P xs = map int (filter (\<lambda>i. P (xs ! i)) [0..<length xs])"
proof -
  have "List.enumerate 0 xs = map (\<lambda>i. (i, xs ! i)) [0..<length xs]"
    by (auto intro!: nth_equalityI simp: nth_enumerate_eq)
  then show ?thesis by (simp add: select_indices_def filter_map comp_def)
qed

lemma set_select_indices:
  "x \<in> set (select_indices P xs) \<longleftrightarrow> 0 \<le> x \<and> x < int (length xs) \<and> P (xs ! nat x)"
proof
  assume h: "0 \<le> x \<and> x < int (length xs) \<and> P (xs ! nat x)"
  then obtain i where "x = int i" by (metis nonneg_int_cases)
  with h show "x \<in> set (select_indices P xs)" by (auto simp: select_indices_eq)
qed (auto simp: select_indices_eq)

lemma sorted_select_indices: "sorted_wrt (<) (select_indices P xs)"
  by (simp add: select_indices_eq sorted_wrt_map sorted_wrt_filter)

lemma sorted_filter_upt [simp]: "sorted (filter P [a..<b])"
  by (rule sorted_wrt_filter) simp

lemma distinct_filter_upt [simp]: "distinct (filter P [a..<b])"
  by simp

lemma nth_filter_length_less:
  "i < length xs \<Longrightarrow> P (xs ! i) \<Longrightarrow> length (filter P (take i xs)) < length (filter P xs)"
proof -
  assume i: "i < length xs" and P: "P (xs ! i)"
  have "filter P xs = filter P (take i xs) @ filter P (drop i xs)"
    by (metis append_take_drop_id filter_append)
  moreover have "drop i xs = xs ! i # drop (Suc i) xs" using i by (simp add: Cons_nth_drop_Suc)
  ultimately show ?thesis using P by simp
qed

lemma filter_nth_length_take:
  assumes "i < length xs" and "P (xs ! i)"
  shows "filter P xs ! length (filter P (take i xs)) = xs ! i"
proof -
  have "filter P xs = filter P (take i xs) @ filter P (drop i xs)"
    by (metis append_take_drop_id filter_append)
  moreover have "drop i xs = xs ! i # drop (Suc i) xs"
    using assms(1) by (simp add: Cons_nth_drop_Suc)
  ultimately show ?thesis using assms(2) by simp
qed

end
