(* ===== verification/Topics.thy ===== *)
theory Topics
  imports Prelude
begin

text \<open>
  The gossipsub topic names of the package validator (src/validator/*.go): the global topics,
  the per-subnet prefixes and the builders that complete a prefix with the subnet number and
  the \<open>/ssz_snappy\<close> suffix.
\<close>

definition ssz_suffix :: string where
  "ssz_suffix = ''/ssz_snappy''"

definition BlockTopic :: string where
  "BlockTopic = ''/eth2/00000000/beacon_block/ssz_snappy''"

definition AttestationTopicPrefix :: string where
  "AttestationTopicPrefix = ''/eth2/00000000/beacon_attestation_''"

definition AttestationTopic :: "int \<Rightarrow> string" where
  "AttestationTopic subnet = AttestationTopicPrefix @ fmt_d subnet @ ssz_suffix"

definition AggregateTopic :: string where
  "AggregateTopic = ''/eth2/00000000/beacon_aggregate_and_proof/ssz_snappy''"

definition ColumnTopicPrefix :: string where
  "ColumnTopicPrefix = ''/eth2/00000000/data_column_sidecar_''"

definition ColumnTopic :: "int \<Rightarrow> string" where
  "ColumnTopic i = ColumnTopicPrefix @ fmt_d i @ ssz_suffix"

definition SyncMessageTopicPrefix :: string where
  "SyncMessageTopicPrefix = ''/eth2/00000000/sync_committee_''"

definition SyncMessageTopic :: "int \<Rightarrow> string" where
  "SyncMessageTopic i = SyncMessageTopicPrefix @ fmt_d i @ ssz_suffix"

definition SyncContributionTopic :: string where
  "SyncContributionTopic = ''/eth2/00000000/sync_committee_contribution_and_proof/ssz_snappy''"

definition AvailabilityVoteTopic :: string where
  "AvailabilityVoteTopic = ''/eth2/00000000/availability_vote/ssz_snappy''"

definition FinalityVoteTopicPrefix :: string where
  "FinalityVoteTopicPrefix = ''/eth2/00000000/finality_vote_''"

definition FinalityVoteTopic :: "int \<Rightarrow> string" where
  "FinalityVoteTopic i = FinalityVoteTopicPrefix @ fmt_d i @ ssz_suffix"

definition FinalityAggregateTopic :: string where
  "FinalityAggregateTopic = ''/eth2/00000000/finality_aggregate_and_proof/ssz_snappy''"

definition ConsensusBlockTopic :: string where
  "ConsensusBlockTopic = ''/eth2/00000000/consensus_block/ssz_snappy''"

definition ExecutionPayloadTopic :: string where
  "ExecutionPayloadTopic = ''/eth2/00000000/execution_payload/ssz_snappy''"

definition PTCVoteTopic :: string where
  "PTCVoteTopic = ''/eth2/00000000/payload_attestation_message/ssz_snappy''"

lemmas topic_prefix_defs =
  AttestationTopicPrefix_def ColumnTopicPrefix_def SyncMessageTopicPrefix_def
  FinalityVoteTopicPrefix_def

lemmas exact_topic_defs =
  BlockTopic_def AggregateTopic_def SyncContributionTopic_def AvailabilityVoteTopic_def
  FinalityAggregateTopic_def ConsensusBlockTopic_def ExecutionPayloadTopic_def PTCVoteTopic_def

text \<open>A per-subnet topic never equals a topic that leaves its prefix with a letter.\<close>

lemma subnet_topic_neq:
  assumes "prefix p t \<Longrightarrow> drop (length p) t \<noteq> [] \<and> \<not> is_digit (hd (drop (length p) t))
             \<and> hd (drop (length p) t) \<noteq> CHR ''-''"
  shows "p @ fmt_d i @ sfx \<noteq> t"
proof
  assume eq: "p @ fmt_d i @ sfx = t"
  then have "prefix p t" by auto
  with assms have d: "\<not> is_digit (hd (drop (length p) t))" "hd (drop (length p) t) \<noteq> CHR ''-''"
    by auto
  have "drop (length p) t = fmt_d i @ sfx" using eq by auto
  then have "hd (drop (length p) t) = hd (fmt_d i)" by simp
  with d hd_fmt_d [of i] show False by simp
qed

lemma subnet_topic_inj [simp]: "p @ fmt_d i @ sfx = p @ fmt_d j @ sfx \<longleftrightarrow> i = j"
  by simp

end
