(* ===== verification/Registry.thy ===== *)
theory Registry
  imports Topics
begin

text \<open>
  The per-kind message registry of src/node/registry.go: the message kinds, the verify classes,
  the table of descriptors, the lookup tables \<open>buildLookups\<close> builds (with the panics of a
  malformed table as error values) and the three resolvers \<open>descriptorFor\<close>,
  \<open>verifyClassFor\<close> and \<open>partialKindFor\<close>.  The \<open>decode\<close> column of the table is modelled in
  the theory Wire, which holds the messages.
\<close>

section \<open>Kinds, classes, descriptors\<close>

datatype Kind =
    KindBlock | KindAttestation | KindAggregate | KindColumn | KindSyncMessage
  | KindSyncContribution | KindACVote | KindFinalityVote | KindFinalityAggregate
  | KindConsensusBlock | KindExecutionPayload | KindPTCVote

text \<open>\<open>vcUnset\<close> is the zero value \<open>""\<close> of the string type, which no entry may carry.\<close>

datatype verifyClass =
    vcUnset | vcFixed | vcColumn | vcConsensus | vcAC | vcFCVote | vcFCAgg | vcPTC

record descriptor =
  d_kind :: Kind
  d_topic :: string
  d_prefix :: string
  d_class :: verifyClass
  d_partial :: bool

definition exactEntry :: "Kind \<Rightarrow> string \<Rightarrow> verifyClass \<Rightarrow> descriptor" where
  "exactEntry k t c = \<lparr>d_kind = k, d_topic = t, d_prefix = [], d_class = c, d_partial = False\<rparr>"

definition prefixEntry :: "Kind \<Rightarrow> string \<Rightarrow> verifyClass \<Rightarrow> bool \<Rightarrow> descriptor" where
  "prefixEntry k p c q = \<lparr>d_kind = k, d_topic = [], d_prefix = p, d_class = c, d_partial = q\<rparr>"

definition registry :: "descriptor list" where
  "registry =
    [exactEntry KindBlock BlockTopic vcFixed,
     prefixEntry KindAttestation AttestationTopicPrefix vcConsensus True,
     exactEntry KindAggregate AggregateTopic vcConsensus,
     prefixEntry KindColumn ColumnTopicPrefix vcColumn False,
     prefixEntry KindSyncMessage SyncMessageTopicPrefix vcConsensus False,
     exactEntry KindSyncContribution SyncContributionTopic vcConsensus,
     exactEntry KindACVote AvailabilityVoteTopic vcAC,
     prefixEntry KindFinalityVote FinalityVoteTopicPrefix vcFCVote True,
     exactEntry KindFinalityAggregate FinalityAggregateTopic vcFCAgg,
     exactEntry KindConsensusBlock ConsensusBlockTopic vcFixed,
     exactEntry KindExecutionPayload ExecutionPayloadTopic vcFixed,
     exactEntry KindPTCVote PTCVoteTopic vcPTC]"

section \<open>buildLookups\<close>

datatype registry_error =
    DuplicateKind Kind
  | NoVerifyClass Kind
  | TopicXorPrefix Kind
  | DuplicateTopic string
  | AmbiguousPrefixes string string

type_synonym lookups = "(string \<rightharpoonup> descriptor) \<times> descriptor list"

text \<open>
  One pass over the table with the three accumulators of the Go loop: the kinds seen, the exact
  map and the prefix list.  Each panic is a value of \<open>registry_error\<close>, in the order of the
  code's checks.
\<close>

fun buildLookups_loop ::
  "descriptor list \<Rightarrow> Kind list \<Rightarrow> (string \<rightharpoonup> descriptor) \<Rightarrow> descriptor list
     \<Rightarrow> registry_error + lookups" where
  "buildLookups_loop [] kinds ex pfx = Inr (ex, pfx)"
| "buildLookups_loop (d # ds) kinds ex pfx =
     (if d_kind d \<in> set kinds then Inl (DuplicateKind (d_kind d))
      else if d_class d = vcUnset then Inl (NoVerifyClass (d_kind d))
      else if (d_topic d = []) = (d_prefix d = []) then Inl (TopicXorPrefix (d_kind d))
      else if d_topic d \<noteq> [] then
        (if ex (d_topic d) \<noteq> None then Inl (DuplicateTopic (d_topic d))
         else buildLookups_loop ds (d_kind d # kinds) (ex(d_topic d \<mapsto> d)) pfx)
      else
        (case find (\<lambda>p. prefix (d_prefix p) (d_prefix d) \<or> prefix (d_prefix d) (d_prefix p)) pfx of
           Some p \<Rightarrow> Inl (AmbiguousPrefixes (d_prefix d) (d_prefix p))
         | None \<Rightarrow> buildLookups_loop ds (d_kind d # kinds) ex (pfx @ [d])))"

definition buildLookups :: "descriptor list \<Rightarrow> registry_error + lookups" where
  "buildLookups regs = buildLookups_loop regs [] Map.empty []"

text \<open>The package variables: a failing init would have panicked before any lookup.\<close>

definition exactTopics :: "string \<rightharpoonup> descriptor" where
  "exactTopics = (case buildLookups registry of Inr (ex, _) \<Rightarrow> ex | Inl _ \<Rightarrow> Map.empty)"

definition prefixTopics :: "descriptor list" where
  "prefixTopics = (case buildLookups registry of Inr (_, pfx) \<Rightarrow> pfx | Inl _ \<Rightarrow> [])"

section \<open>Lookups\<close>

definition descriptorFor_in :: "lookups \<Rightarrow> string \<Rightarrow> descriptor option" where
  "descriptorFor_in tabs topic =
     (case fst tabs topic of
        Some d \<Rightarrow> Some d
      | None \<Rightarrow> find (\<lambda>d. prefix (d_prefix d) topic) (snd tabs))"

definition descriptorFor :: "string \<Rightarrow> descriptor option" where
  "descriptorFor topic = descriptorFor_in (exactTopics, prefixTopics) topic"

definition verifyClassFor :: "string \<Rightarrow> verifyClass" where
  "verifyClassFor topic =
     (case descriptorFor topic of Some d \<Rightarrow> d_class d | None \<Rightarrow> vcFixed)"

definition partialKindFor :: "string \<Rightarrow> (Kind \<times> int) option" where
  "partialKindFor topic =
     (case descriptorFor topic of
        None \<Rightarrow> None
      | Some d \<Rightarrow>
          if \<not> d_partial d then None
          else (case strings_CutSuffix (strings_TrimPrefix topic (d_prefix d)) ssz_suffix of
                  None \<Rightarrow> None
                | Some s \<Rightarrow>
                    (case atoi s of
                       None \<Rightarrow> None
                     | Some subnet \<Rightarrow> if subnet < 0 then None else Some (d_kind d, subnet))))"

section \<open>What a table that passes buildLookups guarantees\<close>

definition lookups_ok :: "lookups \<Rightarrow> bool" where
  "lookups_ok tabs \<longleftrightarrow>
     (\<forall>t d. fst tabs t = Some d \<longrightarrow> d_topic d = t \<and> t \<noteq> [] \<and> d_prefix d = [] \<and> d_class d \<noteq> vcUnset) \<and>
     (\<forall>d \<in> set (snd tabs). d_topic d = [] \<and> d_prefix d \<noteq> [] \<and> d_class d \<noteq> vcUnset) \<and>
     pairwise (\<lambda>d e. \<not> prefix (d_prefix d) (d_prefix e)) (set (snd tabs))"

lemma lookups_ok_empty: "lookups_ok (Map.empty, [])"
  by (simp add: lookups_ok_def)

lemma lookups_ok_exact:
  assumes "lookups_ok (ex, pfx)" "d_class d \<noteq> vcUnset" "d_topic d \<noteq> []" "d_prefix d = []"
  shows "lookups_ok (ex(d_topic d \<mapsto> d), pfx)"
  using assms by (auto simp: lookups_ok_def)

lemma lookups_ok_prefix:
  assumes "lookups_ok (ex, pfx)" "d_class d \<noteq> vcUnset" "d_topic d = []" "d_prefix d \<noteq> []"
    and "find (\<lambda>p. prefix (d_prefix p) (d_prefix d) \<or> prefix (d_prefix d) (d_prefix p)) pfx = None"
  shows "lookups_ok (ex, pfx @ [d])"
  using assms by (auto simp: lookups_ok_def find_None_iff pairwise_insert)

text \<open>One iteration that did not panic went through the exact or the prefix branch.\<close>

lemma buildLookups_loop_ConsE:
  assumes "buildLookups_loop (d # ds) kinds ex pfx = Inr tabs"
  obtains
    (exact) "d_kind d \<notin> set kinds" "d_class d \<noteq> vcUnset" "d_topic d \<noteq> []" "d_prefix d = []"
      "ex (d_topic d) = None"
      "buildLookups_loop ds (d_kind d # kinds) (ex(d_topic d \<mapsto> d)) pfx = Inr tabs"
  | (prefix) "d_kind d \<notin> set kinds" "d_class d \<noteq> vcUnset" "d_topic d = []" "d_prefix d \<noteq> []"
      "find (\<lambda>p. prefix (d_prefix p) (d_prefix d) \<or> prefix (d_prefix d) (d_prefix p)) pfx = None"
      "buildLookups_loop ds (d_kind d # kinds) ex (pfx @ [d]) = Inr tabs"
  using assms by (simp del: fun_upd_apply split: if_splits option.splits)

lemma buildLookups_loop_ok:
  "buildLookups_loop ds kinds ex pfx = Inr tabs \<Longrightarrow> lookups_ok (ex, pfx) \<Longrightarrow> lookups_ok tabs"
proof (induction ds arbitrary: kinds ex pfx)
  case Nil
  then show ?case by simp
next
  case (Cons d ds)
  from Cons.prems(1) show ?case
  proof (cases rule: buildLookups_loop_ConsE)
    case exact
    then show ?thesis
      using Cons.IH [OF exact(6)] lookups_ok_exact [OF Cons.prems(2) exact(2-4)] by blast
  next
    case prefix
    then show ?thesis
      using Cons.IH [OF prefix(6)] lookups_ok_prefix [OF Cons.prems(2) prefix(2-5)] by blast
  qed
qed

lemma buildLookups_loop_kinds:
  "buildLookups_loop ds kinds ex pfx = Inr tabs \<Longrightarrow>
     distinct (map d_kind ds) \<and> set (map d_kind ds) \<inter> set kinds = {}"
proof (induction ds arbitrary: kinds ex pfx)
  case Nil
  then show ?case by simp
next
  case (Cons d ds)
  from Cons.prems show ?case
    by (cases rule: buildLookups_loop_ConsE) (use Cons.IH in \<open>fastforce simp del: fun_upd_apply\<close>)+
qed

lemma buildLookups_loop_covers:
  "buildLookups_loop ds kinds ex pfx = Inr tabs \<Longrightarrow>
     ex \<subseteq>\<^sub>m fst tabs \<and> set pfx \<subseteq> set (snd tabs) \<and>
     (\<forall>d \<in> set ds. if d_topic d \<noteq> [] then fst tabs (d_topic d) = Some d else d \<in> set (snd tabs))"
proof (induction ds arbitrary: kinds ex pfx)
  case Nil
  then show ?case by auto
next
  case (Cons d ds)
  from Cons.prems show ?case
  proof (cases rule: buildLookups_loop_ConsE)
    case exact
    from Cons.IH [OF exact(6)] exact(3,5) show ?thesis
      by (auto simp: map_le_def dom_def)
  next
    case prefix
    from Cons.IH [OF prefix(6)] prefix(3) show ?thesis by auto
  qed
qed

lemma buildLookups_loop_sound:
  "buildLookups_loop ds kinds ex pfx = Inr tabs \<Longrightarrow>
     ran (fst tabs) \<subseteq> ran ex \<union> set ds \<and> set (snd tabs) \<subseteq> set pfx \<union> set ds"
proof (induction ds arbitrary: kinds ex pfx)
  case Nil
  then show ?case by auto
next
  case (Cons d ds)
  from Cons.prems show ?case
  proof (cases rule: buildLookups_loop_ConsE)
    case exact
    from Cons.IH [OF exact(6)] exact(5) show ?thesis by (auto simp del: fun_upd_apply)
  next
    case prefix
    from Cons.IH [OF prefix(6)] show ?thesis by auto
  qed
qed

text \<open>At most one prefix entry of a table that passes the checks matches a topic.\<close>

lemma prefix_entry_unique:
  assumes "lookups_ok tabs" "d \<in> set (snd tabs)" "e \<in> set (snd tabs)"
    and "prefix (d_prefix d) t" "prefix (d_prefix e) t"
  shows "d = e"
proof (rule ccontr)
  assume "d \<noteq> e"
  with assms(1-3) have "\<not> prefix (d_prefix d) (d_prefix e)" "\<not> prefix (d_prefix e) (d_prefix d)"
    by (auto simp: lookups_ok_def pairwise_def)
  then show False using assms(4,5) prefix_same_cases by blast
qed

lemma find_prefix_unique:
  assumes "lookups_ok tabs" "d \<in> set (snd tabs)" "prefix (d_prefix d) t"
    and "set pfx = set (snd tabs)"
  shows "find (\<lambda>d. prefix (d_prefix d) t) pfx = Some d"
proof (cases "find (\<lambda>d. prefix (d_prefix d) t) pfx")
  case None
  then show ?thesis using assms by (auto simp: find_None_iff)
next
  case (Some e)
  then have "e \<in> set pfx" "prefix (d_prefix e) t"
    by (auto simp: find_Some_iff)
  then have "e = d" using prefix_entry_unique [OF assms(1)] assms by blast
  then show ?thesis using Some by simp
qed

text \<open>
  The checks accept exactly the well-formed tables: distinct kinds, a class everywhere, exactly
  one of topic and prefix, distinct exact topics and no prefix that extends another.
\<close>

definition overlap :: "descriptor \<Rightarrow> descriptor \<Rightarrow> bool" where
  "overlap d e \<longleftrightarrow> prefix (d_prefix d) (d_prefix e) \<or> prefix (d_prefix e) (d_prefix d)"

definition wf_entries :: "descriptor list \<Rightarrow> bool" where
  "wf_entries ds \<longleftrightarrow>
     distinct (map d_kind ds) \<and>
     (\<forall>d \<in> set ds. d_class d \<noteq> vcUnset \<and> (d_topic d = []) \<noteq> (d_prefix d = [])) \<and>
     distinct (map d_topic (filter (\<lambda>d. d_topic d \<noteq> []) ds)) \<and>
     sorted_wrt (\<lambda>d e. \<not> overlap d e) (filter (\<lambda>d. d_topic d = []) ds)"

definition fresh_entries :: "descriptor list \<Rightarrow> Kind list \<Rightarrow> lookups \<Rightarrow> bool" where
  "fresh_entries ds kinds tabs \<longleftrightarrow>
     set (map d_kind ds) \<inter> set kinds = {} \<and>
     (\<forall>d \<in> set ds. d_topic d \<noteq> [] \<longrightarrow> fst tabs (d_topic d) = None) \<and>
     (\<forall>d \<in> set ds. d_topic d = [] \<longrightarrow> (\<forall>p \<in> set (snd tabs). \<not> overlap p d))"

lemma fresh_exact:
  "d_topic d \<noteq> [] \<Longrightarrow>
   fresh_entries ds (d_kind d # kinds) (ex(d_topic d \<mapsto> d), pfx) \<longleftrightarrow>
     fresh_entries ds kinds (ex, pfx) \<and> d_kind d \<notin> set (map d_kind ds) \<and>
     d_topic d \<notin> set (map d_topic ds)"
  by (auto simp: fresh_entries_def) (metis imageI)

lemma fresh_prefix:
  "fresh_entries ds (d_kind d # kinds) (ex, pfx @ [d]) \<longleftrightarrow>
     fresh_entries ds kinds (ex, pfx) \<and> d_kind d \<notin> set (map d_kind ds) \<and>
     (\<forall>e \<in> set ds. d_topic e = [] \<longrightarrow> \<not> overlap d e)"
  by (auto simp: fresh_entries_def)

lemma buildLookups_loop_accepts:
  "\<not> isl (buildLookups_loop ds kinds ex pfx) \<longleftrightarrow> wf_entries ds \<and> fresh_entries ds kinds (ex, pfx)"
proof (induction ds arbitrary: kinds ex pfx)
  case Nil
  then show ?case by (simp add: wf_entries_def fresh_entries_def)
next
  case (Cons d ds)
  have ov: "find (\<lambda>p. prefix (d_prefix p) (d_prefix d) \<or> prefix (d_prefix d) (d_prefix p)) pfx = None
      \<longleftrightarrow> (\<forall>p \<in> set pfx. \<not> overlap p d)"
    by (auto simp: find_None_iff overlap_def)
  consider (bad) "d_kind d \<in> set kinds \<or> d_class d = vcUnset \<or> (d_topic d = []) = (d_prefix d = [])"
    | (exact) "d_kind d \<notin> set kinds" "d_class d \<noteq> vcUnset" "d_topic d \<noteq> []" "d_prefix d = []"
    | (prefix) "d_kind d \<notin> set kinds" "d_class d \<noteq> vcUnset" "d_topic d = []" "d_prefix d \<noteq> []"
    by blast
  then show ?case
  proof cases
    case bad
    then show ?thesis by (auto simp: wf_entries_def fresh_entries_def)
  next
    case exact
    have "\<not> isl (buildLookups_loop (d # ds) kinds ex pfx) \<longleftrightarrow>
        ex (d_topic d) = None \<and> wf_entries ds \<and>
        fresh_entries ds (d_kind d # kinds) (ex(d_topic d \<mapsto> d), pfx)"
      using exact Cons.IH by (simp del: fun_upd_apply)
    also have "\<dots> \<longleftrightarrow> wf_entries (d # ds) \<and> fresh_entries (d # ds) kinds (ex, pfx)"
      unfolding fresh_exact [OF exact(3)]
      using exact by (auto simp: wf_entries_def fresh_entries_def)
    finally show ?thesis .
  next
    case prefix
    have "\<not> isl (buildLookups_loop (d # ds) kinds ex pfx) \<longleftrightarrow>
        (\<forall>p \<in> set pfx. \<not> overlap p d) \<and> wf_entries ds \<and>
        fresh_entries ds (d_kind d # kinds) (ex, pfx @ [d])"
      using prefix Cons.IH ov by (auto split: option.split)
    also have "\<dots> \<longleftrightarrow> wf_entries (d # ds) \<and> fresh_entries (d # ds) kinds (ex, pfx)"
      unfolding fresh_prefix
      using prefix by (auto simp: wf_entries_def fresh_entries_def)
    finally show ?thesis .
  qed
qed

section \<open>The program's table\<close>

lemmas entry_defs = exactEntry_def prefixEntry_def

lemma buildLookups_registry_ok: "\<not> isl (buildLookups registry)"
  by code_simp

lemma tables_eq: "buildLookups registry = Inr (exactTopics, prefixTopics)"
  using buildLookups_registry_ok
  by (auto simp: exactTopics_def prefixTopics_def split: sum.splits)

lemma tables_ok: "lookups_ok (exactTopics, prefixTopics)"
  using tables_eq buildLookups_loop_ok lookups_ok_empty unfolding buildLookups_def by blast

lemma tables_cover:
  "d \<in> set registry \<Longrightarrow>
     (if d_topic d \<noteq> [] then exactTopics (d_topic d) = Some d else d \<in> set prefixTopics)"
  using buildLookups_loop_covers [OF tables_eq [unfolded buildLookups_def]] by auto

section \<open>Topics of the program resolve to their kinds\<close>

text \<open>The topic a kind is published on; the subnet matters for the per-subnet families only.\<close>

fun topicOf :: "Kind \<Rightarrow> int \<Rightarrow> string" where
  "topicOf KindBlock s = BlockTopic"
| "topicOf KindAttestation s = AttestationTopic s"
| "topicOf KindAggregate s = AggregateTopic"
| "topicOf KindColumn s = ColumnTopic s"
| "topicOf KindSyncMessage s = SyncMessageTopic s"
| "topicOf KindSyncContribution s = SyncContributionTopic"
| "topicOf KindACVote s = AvailabilityVoteTopic"
| "topicOf KindFinalityVote s = FinalityVoteTopic s"
| "topicOf KindFinalityAggregate s = FinalityAggregateTopic"
| "topicOf KindConsensusBlock s = ConsensusBlockTopic"
| "topicOf KindExecutionPayload s = ExecutionPayloadTopic"
| "topicOf KindPTCVote s = PTCVoteTopic"

text \<open>
  No exact topic of the table reads as one of its prefixes followed by a number.  This is where
  the contribution topic matters: it starts with the sync message prefix.
\<close>

definition reads_as_subnet :: "string \<Rightarrow> string \<Rightarrow> bool" where
  "reads_as_subnet p t \<longleftrightarrow>
     prefix p t \<and> (let r = drop (length p) t in r = [] \<or> is_digit (hd r) \<or> hd r = CHR ''-'')"

lemma no_exact_topic_reads_as_subnet:
  "\<forall>d \<in> set registry. \<forall>e \<in> set registry.
     d_prefix d \<noteq> [] \<longrightarrow> d_topic e \<noteq> [] \<longrightarrow> \<not> reads_as_subnet (d_prefix d) (d_topic e)"
  by code_simp

lemma exactTopics_registry: "exactTopics t = Some d \<Longrightarrow> d \<in> set registry \<and> d_topic d = t"
  using buildLookups_loop_sound [OF tables_eq [unfolded buildLookups_def]] tables_ok
  by (fastforce simp: lookups_ok_def ran_def)

lemma descriptorFor_exact:
  assumes "d \<in> set registry" and "d_topic d \<noteq> []"
  shows "descriptorFor (d_topic d) = Some d"
  using tables_cover [OF assms(1)] assms(2) by (simp add: descriptorFor_def descriptorFor_in_def)

lemma descriptorFor_subnet:
  assumes "d \<in> set registry" and "d_prefix d \<noteq> []"
  shows "descriptorFor (d_prefix d @ fmt_d i @ x) = Some d"
proof -
  let ?t = "d_prefix d @ fmt_d i @ x"
  have none: "exactTopics ?t = None"
  proof (rule ccontr)
    assume "exactTopics ?t \<noteq> None"
    then obtain e where e: "e \<in> set registry" "d_topic e = ?t"
      using exactTopics_registry by blast
    then have "reads_as_subnet (d_prefix d) (d_topic e)"
      using hd_fmt_d [of i] by (simp add: reads_as_subnet_def Let_def)
    moreover have "d_topic e \<noteq> []" using e assms(2) by simp
    ultimately show False using no_exact_topic_reads_as_subnet assms e(1) by blast
  qed
  have "d_topic d = []" using assms by (auto simp: registry_def entry_defs)
  then have "d \<in> set (snd (exactTopics, prefixTopics))" using tables_cover [OF assms(1)] by simp
  from find_prefix_unique [OF tables_ok this, of ?t prefixTopics]
  show ?thesis using none by (simp add: descriptorFor_def descriptorFor_in_def)
qed

lemma registry_entry_of_kind:
  "\<exists>d \<in> set registry. d_kind d = k \<and>
     (if d_prefix d = [] then topicOf k s = d_topic d
      else topicOf k s = d_prefix d @ fmt_d s @ ssz_suffix) \<and>
     (d_partial d \<longleftrightarrow> k \<in> {KindAttestation, KindFinalityVote}) \<and>
     (d_partial d \<longrightarrow> d_prefix d \<noteq> [])"
  by (cases k) (simp_all add: registry_def entry_defs AttestationTopic_def ColumnTopic_def
      SyncMessageTopic_def FinalityVoteTopic_def topic_prefix_defs)

lemma registry_exact_has_topic: "\<forall>d \<in> set registry. d_prefix d = [] \<longrightarrow> d_topic d \<noteq> []"
  by (simp add: registry_def entry_defs exact_topic_defs topic_prefix_defs)

lemma descriptorFor_registry: "descriptorFor t = Some d \<Longrightarrow> d \<in> set registry"
  using exactTopics_registry buildLookups_loop_sound [OF tables_eq [unfolded buildLookups_def]]
  by (fastforce simp: descriptorFor_def descriptorFor_in_def find_Some_iff split: option.splits)

lemma registry_partial_kinds:
  "\<forall>d \<in> set registry. d_partial d \<longrightarrow> d_kind d \<in> {KindAttestation, KindFinalityVote}"
  by (simp add: registry_def entry_defs)

lemma partialKindFor_SomeD:
  assumes "partialKindFor t = Some (k, s)"
  shows "k \<in> {KindAttestation, KindFinalityVote}" and "0 \<le> s"
  using assms registry_partial_kinds descriptorFor_registry [of t]
  by (auto simp: partialKindFor_def split: option.splits if_splits)

section \<open>Properties\<close>

text \<open>
  The table check of \<open>buildLookups\<close> is exact.  It accepts a registry precisely when kinds are
  distinct, every entry has a verify class and exactly one of topic and prefix, exact topics are
  distinct and no prefix extends another; every other table panics.
\<close>

theorem buildLookups_accepts_iff:
  "\<not> isl (buildLookups regs) \<longleftrightarrow> wf_entries regs"
  using buildLookups_loop_accepts [of regs "[]" Map.empty "[]"]
  by (simp add: buildLookups_def fresh_entries_def)

text \<open>
  The prefix scan is order independent.  For any table that passes \<open>buildLookups\<close>, scanning
  the prefix entries in any other order resolves every topic to the same entry.
\<close>

theorem descriptorFor_order_independent:
  assumes "buildLookups regs = Inr (ex, pfx)" and "set pfx' = set pfx"
  shows "descriptorFor_in (ex, pfx') t = descriptorFor_in (ex, pfx) t"
proof -
  have ok: "lookups_ok (ex, pfx)"
    using assms(1) buildLookups_loop_ok lookups_ok_empty unfolding buildLookups_def by blast
  have "find (\<lambda>d. prefix (d_prefix d) t) pfx' = find (\<lambda>d. prefix (d_prefix d) t) pfx"
  proof (cases "find (\<lambda>d. prefix (d_prefix d) t) pfx")
    case None
    then have "find (\<lambda>d. prefix (d_prefix d) t) pfx' = None"
      using assms(2) by (simp add: find_None_iff)
    with None show ?thesis by simp
  next
    case (Some d)
    then have "d \<in> set pfx" "prefix (d_prefix d) t" by (auto simp: find_Some_iff)
    with ok find_prefix_unique [OF ok, of d t pfx'] show ?thesis using assms(2) Some by simp
  qed
  then show ?thesis by (simp add: descriptorFor_in_def split: option.split)
qed

theorem descriptorFor_order_independent_witness:
  "descriptorFor_in (exactTopics, rev prefixTopics) BlockTopic =
   descriptorFor_in (exactTopics, prefixTopics) BlockTopic"
  by (rule descriptorFor_order_independent [OF tables_eq]) simp

lemma topicOf_resolves:
  "map_option d_kind (descriptorFor (topicOf k s)) = Some k"
proof -
  obtain d where d: "d \<in> set registry" "d_kind d = k"
    and t: "if d_prefix d = [] then topicOf k s = d_topic d
            else topicOf k s = d_prefix d @ fmt_d s @ ssz_suffix"
    using registry_entry_of_kind [of k s] by blast
  show ?thesis
  proof (cases "d_prefix d = []")
    case True
    with d t registry_exact_has_topic show ?thesis by (simp add: descriptorFor_exact)
  next
    case False
    with d t show ?thesis by (simp add: descriptorFor_subnet)
  qed
qed

text \<open>
  Every topic the program publishes on resolves to its own kind, whatever the subnet number:
  in particular the contribution topic, which starts with the sync message prefix, never resolves
  to a sync message, and no per-subnet topic resolves to another family.
\<close>

theorem descriptorFor_topicOf:
  "map_option d_kind (descriptorFor (topicOf k s)) = Some k"
  by (rule topicOf_resolves)

text \<open>
  The partial transport recognises exactly the two attestation-class families.  On a topic
  the program builds, \<open>partialKindFor\<close> returns the kind and subnet the topic was built from for
  attestations and finality votes with a non-negative subnet that fits an int, and nothing for
  every other topic.
\<close>

theorem partialKindFor_topicOf:
  "partialKindFor (topicOf k s) =
     (if k \<in> {KindAttestation, KindFinalityVote} \<and> 0 \<le> s \<and> s < 2 ^ 63 then Some (k, s) else None)"
proof -
  obtain d where d: "d \<in> set registry" "d_kind d = k"
    and t: "if d_prefix d = [] then topicOf k s = d_topic d
            else topicOf k s = d_prefix d @ fmt_d s @ ssz_suffix"
    and p: "d_partial d \<longleftrightarrow> k \<in> {KindAttestation, KindFinalityVote}" "d_partial d \<longrightarrow> d_prefix d \<noteq> []"
    using registry_entry_of_kind [of k s] by blast
  show ?thesis
  proof (cases "d_partial d")
    case False
    have "descriptorFor (topicOf k s) = Some d"
      using d t registry_exact_has_topic
      by (auto simp: descriptorFor_exact descriptorFor_subnet split: if_splits)
    with False p show ?thesis by (simp add: partialKindFor_def)
  next
    case True
    with p t have t': "topicOf k s = d_prefix d @ fmt_d s @ ssz_suffix" "d_prefix d \<noteq> []" by auto
    then have "descriptorFor (topicOf k s) = Some d" using d by (simp add: descriptorFor_subnet)
    with True t' p d show ?thesis
      by (cases "s < - (2 ^ 63) \<or> 2 ^ 63 \<le> s")
        (auto simp: partialKindFor_def atoi_fmt_d atoi_fmt_d_overflow)
  qed
qed


end
