(* ===== verification/Wire.thy ===== *)
theory Wire
  imports Registry
begin

text \<open>
  The wire messages of src/pb/*.proto, the builders of src/validator/*.go that fill them, the
  decode half of src/node/registry.go and src/node/node.go (\<open>decodeAs\<close>, \<open>Decode\<close>) and the
  publish-side identities of src/metrics/tracer.go.  The protobuf library is not part of the
  repository: \<open>codec\<close> carries its \<open>Marshal\<close>, \<open>Unmarshal\<close> and \<open>Size\<close>, and the facts used of
  them are the named hypotheses \<open>codec_roundtrip\<close> and \<open>codec_sizes\<close>.
\<close>

section \<open>Messages\<close>

type_synonym u32 = "32 word"

datatype wire_msg =
    PbBlock u32 u32 bytes
  | PbAttestation u32 u32 u32 u32 u32 bytes
  | PbAggregate u32 u32 u32 bytes
  | PbColumn u32 u32 u32 bytes
  | PbSyncMessage u32 u32 u32 u32 bytes
  | PbSyncContribution u32 u32 u32 bytes
  | PbACVote u32 u32 u32 u32 bytes
  | PbFinalityVote u32 u32 u32 u32 bytes
  | PbFinalityAggregate u32 u32 u32 bytes
  | PbConsensusBlock u32 u32 bytes
  | PbExecutionPayload u32 u32 bytes
  | PbPTCVote u32 u32 u32 bool bytes
  | PbPartialAttData u32 u32 u32 bytes

text \<open>The kind whose descriptor decodes a message; the shared attestation data has none.\<close>

fun wire_kind :: "wire_msg \<Rightarrow> Kind option" where
  "wire_kind (PbBlock _ _ _) = Some KindBlock"
| "wire_kind (PbAttestation _ _ _ _ _ _) = Some KindAttestation"
| "wire_kind (PbAggregate _ _ _ _) = Some KindAggregate"
| "wire_kind (PbColumn _ _ _ _) = Some KindColumn"
| "wire_kind (PbSyncMessage _ _ _ _ _) = Some KindSyncMessage"
| "wire_kind (PbSyncContribution _ _ _ _) = Some KindSyncContribution"
| "wire_kind (PbACVote _ _ _ _ _) = Some KindACVote"
| "wire_kind (PbFinalityVote _ _ _ _ _) = Some KindFinalityVote"
| "wire_kind (PbFinalityAggregate _ _ _ _) = Some KindFinalityAggregate"
| "wire_kind (PbConsensusBlock _ _ _) = Some KindConsensusBlock"
| "wire_kind (PbExecutionPayload _ _ _) = Some KindExecutionPayload"
| "wire_kind (PbPTCVote _ _ _ _ _) = Some KindPTCVote"
| "wire_kind (PbPartialAttData _ _ _ _) = None"

fun with_payload :: "bytes \<Rightarrow> wire_msg \<Rightarrow> wire_msg" where
  "with_payload p (PbBlock a b _) = PbBlock a b p"
| "with_payload p (PbAttestation a b c d e _) = PbAttestation a b c d e p"
| "with_payload p (PbAggregate a b c _) = PbAggregate a b c p"
| "with_payload p (PbColumn a b c _) = PbColumn a b c p"
| "with_payload p (PbSyncMessage a b c d _) = PbSyncMessage a b c d p"
| "with_payload p (PbSyncContribution a b c _) = PbSyncContribution a b c p"
| "with_payload p (PbACVote a b c d _) = PbACVote a b c d p"
| "with_payload p (PbFinalityVote a b c d _) = PbFinalityVote a b c d p"
| "with_payload p (PbFinalityAggregate a b c _) = PbFinalityAggregate a b c p"
| "with_payload p (PbConsensusBlock a b _) = PbConsensusBlock a b p"
| "with_payload p (PbExecutionPayload a b _) = PbExecutionPayload a b p"
| "with_payload p (PbPTCVote a b c d _) = PbPTCVote a b c d p"
| "with_payload p (PbPartialAttData a b c _) = PbPartialAttData a b c p"

text \<open>The protobuf library, as the code uses it.\<close>

record codec =
  marshal :: "wire_msg \<Rightarrow> bytes"
  unmarshal :: "Kind \<Rightarrow> bytes \<Rightarrow> wire_msg option"
  msize :: "wire_msg \<Rightarrow> int"

text \<open>A marshaled message unmarshals to itself.\<close>

definition codec_roundtrip :: "codec \<Rightarrow> bool" where
  "codec_roundtrip C \<longleftrightarrow>
     (\<forall>m k. wire_kind m = Some k \<longrightarrow> unmarshal C k (marshal C m) = Some m)"

text \<open>
  Sizes: \<open>proto.Size\<close> is the length of the encoding, and a non-empty payload of fewer than
  \<open>2 ^ 14\<close> bytes costs one tag byte, a one- or two-byte length and its bytes.
\<close>

definition payload_field :: "nat \<Rightarrow> int" where
  "payload_field n = (if n < 128 then int n + 2 else int n + 3)"

definition codec_sizes :: "codec \<Rightarrow> bool" where
  "codec_sizes C \<longleftrightarrow>
     (\<forall>m. int (length (marshal C m)) = msize C m) \<and>
     (\<forall>m p. 0 < length p \<and> length p < 2 ^ 14 \<longrightarrow>
        msize C (with_payload p m) = msize C (with_payload [] m) + payload_field (length p))"

section \<open>Builders\<close>

record Message =
  Topic :: string
  Payload :: bytes
  Slot :: int

definition PriorHead :: u32 where
  "PriorHead = 4294967295"

definition u32 :: "int \<Rightarrow> u32" where
  "u32 i = word_of_int i"

text \<open>\<open>bytes.Repeat([]byte{1}, n)\<close>.\<close>

definition ones :: "nat \<Rightarrow> bytes" where
  "ones n = replicate n 1"

definition sizedFiller :: "codec \<Rightarrow> wire_msg \<Rightarrow> int \<Rightarrow> bytes" where
  "sizedFiller C msg target =
     (let overhead = msize C msg;
          n = target - overhead - 1;
          n = (if n > 127 then n - 2 else n - 1);
          n = (if n < 1 then 1 else n)
      in ones (nat n))"

definition sized :: "codec \<Rightarrow> wire_msg \<Rightarrow> int \<Rightarrow> bytes" where
  "sized C msg target = marshal C (with_payload (sizedFiller C msg target) msg)"

text \<open>The vote field: the voted block's origin, or the sentinel for the prior head.\<close>

definition voted :: "int \<Rightarrow> u32" where
  "voted votedOrigin = (if votedOrigin \<ge> 0 then u32 votedOrigin else PriorHead)"

definition AttestationSize :: int where "AttestationSize = 240"
definition AggregateSize :: int where "AggregateSize = 505"
definition Blobs :: int where "Blobs = 6"
definition ColumnSize :: int where "ColumnSize = Blobs * 2144 + 356"
definition ACVoteSize :: int where "ACVoteSize = 240"
definition FinalityVoteSize :: int where "FinalityVoteSize = 226"
definition FinalityAggregateBase :: int where "FinalityAggregateBase = 328"
definition PTCVoteSize :: int where "PTCVoteSize = 176"
definition SyncMessageSize :: int where "SyncMessageSize = 144"
definition SyncContributionSize :: int where "SyncContributionSize = 360"
definition PartialAttDataSize :: int where "PartialAttDataSize = 128"
definition PartialSignatureSize :: int where "PartialSignatureSize = 96"

definition FinalityAggregateSize :: "int \<Rightarrow> int" where
  "FinalityAggregateSize vps = FinalityAggregateBase + go_div (vps + 7) 8"

text \<open>Block sizes are naturals: \<open>bytes.Repeat\<close> panics on a negative count.\<close>

definition MakeBlock :: "codec \<Rightarrow> int \<Rightarrow> int \<Rightarrow> nat \<Rightarrow> Message" where
  "MakeBlock C slot origin sz =
     \<lparr>Topic = BlockTopic, Payload = marshal C (PbBlock (u32 slot) (u32 origin) (ones sz)),
      Slot = slot\<rparr>"

definition MakeConsensusBlock :: "codec \<Rightarrow> int \<Rightarrow> int \<Rightarrow> nat \<Rightarrow> Message" where
  "MakeConsensusBlock C slot origin sz =
     \<lparr>Topic = ConsensusBlockTopic,
      Payload = marshal C (PbConsensusBlock (u32 slot) (u32 origin) (ones sz)), Slot = slot\<rparr>"

definition MakeExecutionPayload :: "codec \<Rightarrow> int \<Rightarrow> int \<Rightarrow> nat \<Rightarrow> Message" where
  "MakeExecutionPayload C slot origin sz =
     \<lparr>Topic = ExecutionPayloadTopic,
      Payload = marshal C (PbExecutionPayload (u32 slot) (u32 origin) (ones sz)), Slot = slot\<rparr>"

definition MakeAttestation :: "codec \<Rightarrow> int \<Rightarrow> int \<Rightarrow> int \<Rightarrow> int \<Rightarrow> int \<Rightarrow> Message" where
  "MakeAttestation C slot subnet val origin votedOrigin =
     \<lparr>Topic = AttestationTopic subnet,
      Payload = sized C (PbAttestation (u32 slot) (u32 subnet) (u32 val) (u32 origin)
                           (voted votedOrigin) []) AttestationSize,
      Slot = slot\<rparr>"

definition MakeAggregate :: "codec \<Rightarrow> int \<Rightarrow> int \<Rightarrow> int \<Rightarrow> Message" where
  "MakeAggregate C slot subnet origin =
     \<lparr>Topic = AggregateTopic,
      Payload = sized C (PbAggregate (u32 slot) (u32 subnet) (u32 origin) []) AggregateSize,
      Slot = slot\<rparr>"

definition MakeColumn :: "codec \<Rightarrow> int \<Rightarrow> int \<Rightarrow> int \<Rightarrow> Message" where
  "MakeColumn C slot column origin =
     \<lparr>Topic = ColumnTopic column,
      Payload = sized C (PbColumn (u32 slot) (u32 column) (u32 origin) []) ColumnSize,
      Slot = slot\<rparr>"

definition MakeSyncMessage :: "codec \<Rightarrow> int \<Rightarrow> int \<Rightarrow> int \<Rightarrow> int \<Rightarrow> Message" where
  "MakeSyncMessage C slot subnet origin votedOrigin =
     \<lparr>Topic = SyncMessageTopic subnet,
      Payload = sized C (PbSyncMessage (u32 slot) (u32 subnet) (u32 origin) (voted votedOrigin) [])
                  SyncMessageSize,
      Slot = slot\<rparr>"

definition MakeSyncContribution :: "codec \<Rightarrow> int \<Rightarrow> int \<Rightarrow> int \<Rightarrow> Message" where
  "MakeSyncContribution C slot subnet origin =
     \<lparr>Topic = SyncContributionTopic,
      Payload = sized C (PbSyncContribution (u32 slot) (u32 subnet) (u32 origin) [])
                  SyncContributionSize,
      Slot = slot\<rparr>"

definition MakeACVote :: "codec \<Rightarrow> int \<Rightarrow> int \<Rightarrow> int \<Rightarrow> int \<Rightarrow> Message" where
  "MakeACVote C slot val origin votedOrigin =
     \<lparr>Topic = AvailabilityVoteTopic,
      Payload = sized C (PbACVote (u32 slot) (u32 val) (u32 origin) (voted votedOrigin) [])
                  ACVoteSize,
      Slot = slot\<rparr>"

definition MakeFinalityVote :: "codec \<Rightarrow> int \<Rightarrow> int \<Rightarrow> int \<Rightarrow> int \<Rightarrow> Message" where
  "MakeFinalityVote C finalitySlot subnet val origin =
     \<lparr>Topic = FinalityVoteTopic subnet,
      Payload = sized C (PbFinalityVote (u32 finalitySlot) (u32 subnet) (u32 val) (u32 origin) [])
                  FinalityVoteSize,
      Slot = finalitySlot\<rparr>"

definition MakeFinalityAggregate :: "codec \<Rightarrow> int \<Rightarrow> int \<Rightarrow> int \<Rightarrow> int \<Rightarrow> Message" where
  "MakeFinalityAggregate C finalitySlot subnet origin vps =
     \<lparr>Topic = FinalityAggregateTopic,
      Payload = sized C (PbFinalityAggregate (u32 finalitySlot) (u32 subnet) (u32 origin) [])
                  (FinalityAggregateSize vps),
      Slot = finalitySlot\<rparr>"

definition MakePTCVote :: "codec \<Rightarrow> int \<Rightarrow> int \<Rightarrow> int \<Rightarrow> bool \<Rightarrow> Message" where
  "MakePTCVote C slot val origin payloadPresent =
     \<lparr>Topic = PTCVoteTopic,
      Payload = sized C (PbPTCVote (u32 slot) (u32 val) (u32 origin) payloadPresent []) PTCVoteSize,
      Slot = slot\<rparr>"

definition MakePartialAttData :: "codec \<Rightarrow> int \<Rightarrow> int \<Rightarrow> int \<Rightarrow> int \<Rightarrow> bytes" where
  "MakePartialAttData C slot subnet votedOrigin sz =
     sized C (PbPartialAttData (u32 slot) (u32 subnet) (voted votedOrigin) []) sz"

definition MakePartialSignature :: "nat \<Rightarrow> bytes" where
  "MakePartialSignature sz = ones sz"

fun VotedBlock :: "wire_msg \<Rightarrow> bool" where
  "VotedBlock (PbAttestation _ _ _ _ votedOrigin _) \<longleftrightarrow> votedOrigin \<noteq> PriorHead"
| "VotedBlock _ \<longleftrightarrow> False"

section \<open>Identities and Decode\<close>

record Identity =
  id_slot :: int
  id_subnet :: int
  id_attester :: int
  id_origin :: int

definition mkIdentity :: "int \<Rightarrow> int \<Rightarrow> int \<Rightarrow> int \<Rightarrow> Identity" where
  "mkIdentity s n a r = \<lparr>id_slot = s, id_subnet = n, id_attester = a, id_origin = r\<rparr>"

text \<open>The per-kind extractors of the registry entries.\<close>

fun extractId :: "wire_msg \<Rightarrow> Identity" where
  "extractId (PbBlock s r _) = mkIdentity (uint s) (-1) (-1) (uint r)"
| "extractId (PbAttestation s n v r _ _) = mkIdentity (uint s) (uint n) (uint v) (uint r)"
| "extractId (PbAggregate s n r _) = mkIdentity (uint s) (uint n) (uint r) (-1)"
| "extractId (PbColumn s c r _) = mkIdentity (uint s) (uint c) (-1) (uint r)"
| "extractId (PbSyncMessage s n r _ _) = mkIdentity (uint s) (uint n) (uint r) (-1)"
| "extractId (PbSyncContribution s n r _) = mkIdentity (uint s) (uint n) (uint r) (-1)"
| "extractId (PbACVote s v r _ _) = mkIdentity (uint s) (-1) (uint v) (uint r)"
| "extractId (PbFinalityVote s n v r _) = mkIdentity (uint s) (uint n) (uint v) (uint r)"
| "extractId (PbFinalityAggregate s n r _) = mkIdentity (uint s) (uint n) (uint r) (-1)"
| "extractId (PbConsensusBlock s r _) = mkIdentity (uint s) (-1) (-1) (uint r)"
| "extractId (PbExecutionPayload s r _) = mkIdentity (uint s) (-1) (-1) (uint r)"
| "extractId (PbPTCVote s v r _ _) = mkIdentity (uint s) (-1) (uint v) (uint r)"
| "extractId (PbPartialAttData s n _ _) = mkIdentity (uint s) (uint n) (-1) (-1)"

text \<open>\<open>GetOrigin\<close>; the attestation data has no origin and is never decoded through the registry.\<close>

fun GetOrigin :: "wire_msg \<Rightarrow> u32" where
  "GetOrigin (PbBlock _ r _) = r"
| "GetOrigin (PbAttestation _ _ _ r _ _) = r"
| "GetOrigin (PbAggregate _ _ r _) = r"
| "GetOrigin (PbColumn _ _ r _) = r"
| "GetOrigin (PbSyncMessage _ _ r _ _) = r"
| "GetOrigin (PbSyncContribution _ _ r _) = r"
| "GetOrigin (PbACVote _ _ r _ _) = r"
| "GetOrigin (PbFinalityVote _ _ _ r _) = r"
| "GetOrigin (PbFinalityAggregate _ _ r _) = r"
| "GetOrigin (PbConsensusBlock _ r _) = r"
| "GetOrigin (PbExecutionPayload _ r _) = r"
| "GetOrigin (PbPTCVote _ _ r _ _) = r"
| "GetOrigin (PbPartialAttData _ _ _ _) = 0"

record Received =
  rec_kind :: Kind
  rec_obj :: "wire_msg option"
  rec_id :: Identity
  rec_origin :: int
  rec_at :: instant

datatype decode_error = UnknownTopic string | BadPayload Kind

definition decodeAs :: "codec \<Rightarrow> Kind \<Rightarrow> bytes \<Rightarrow> decode_error + (wire_msg \<times> Identity \<times> int)" where
  "decodeAs C k data =
     (case unmarshal C k data of
        None \<Rightarrow> Inl (BadPayload k)
      | Some m \<Rightarrow> Inr (m, extractId m, uint (GetOrigin m)))"

definition Decode :: "codec \<Rightarrow> string \<Rightarrow> bytes \<Rightarrow> instant \<Rightarrow> decode_error + Received" where
  "Decode C topic data at =
     (case descriptorFor topic of
        None \<Rightarrow> Inl (UnknownTopic topic)
      | Some d \<Rightarrow>
          (case decodeAs C (d_kind d) data of
             Inl e \<Rightarrow> Inl e
           | Inr (m, ident, origin) \<Rightarrow>
               Inr \<lparr>rec_kind = d_kind d, rec_obj = Some m, rec_id = ident, rec_origin = origin,
                    rec_at = at\<rparr>))"

section \<open>Publish-side identities (src/metrics/tracer.go)\<close>

record MsgID =
  mid_kind :: Kind
  mid_ident :: Identity

definition mkMsgID :: "Kind \<Rightarrow> int \<Rightarrow> int \<Rightarrow> int \<Rightarrow> int \<Rightarrow> MsgID" where
  "mkMsgID k s n a r = \<lparr>mid_kind = k, mid_ident = mkIdentity s n a r\<rparr>"

definition BlockID :: "int \<Rightarrow> int \<Rightarrow> MsgID" where
  "BlockID slot origin = mkMsgID KindBlock slot (-1) (-1) origin"

definition ConsensusBlockID :: "int \<Rightarrow> int \<Rightarrow> MsgID" where
  "ConsensusBlockID slot origin = mkMsgID KindConsensusBlock slot (-1) (-1) origin"

definition ExecutionPayloadID :: "int \<Rightarrow> int \<Rightarrow> MsgID" where
  "ExecutionPayloadID slot origin = mkMsgID KindExecutionPayload slot (-1) (-1) origin"

definition PTCVoteID :: "int \<Rightarrow> int \<Rightarrow> int \<Rightarrow> MsgID" where
  "PTCVoteID slot val origin = mkMsgID KindPTCVote slot (-1) val origin"

definition AttestID :: "int \<Rightarrow> int \<Rightarrow> int \<Rightarrow> int \<Rightarrow> MsgID" where
  "AttestID slot subnet attester origin = mkMsgID KindAttestation slot subnet attester origin"

definition AggregateID :: "int \<Rightarrow> int \<Rightarrow> int \<Rightarrow> MsgID" where
  "AggregateID slot subnet aggregator = mkMsgID KindAggregate slot subnet aggregator (-1)"

definition ColumnID :: "int \<Rightarrow> int \<Rightarrow> int \<Rightarrow> MsgID" where
  "ColumnID slot column origin = mkMsgID KindColumn slot column (-1) origin"

definition SyncMessageID :: "int \<Rightarrow> int \<Rightarrow> int \<Rightarrow> MsgID" where
  "SyncMessageID slot subnet member = mkMsgID KindSyncMessage slot subnet member (-1)"

definition SyncContributionID :: "int \<Rightarrow> int \<Rightarrow> int \<Rightarrow> MsgID" where
  "SyncContributionID slot subnet aggregator = mkMsgID KindSyncContribution slot subnet aggregator (-1)"

definition ACVoteID :: "int \<Rightarrow> int \<Rightarrow> int \<Rightarrow> MsgID" where
  "ACVoteID slot val origin = mkMsgID KindACVote slot (-1) val origin"

definition FinalityVoteID :: "int \<Rightarrow> int \<Rightarrow> int \<Rightarrow> int \<Rightarrow> MsgID" where
  "FinalityVoteID fslot subnet val origin = mkMsgID KindFinalityVote fslot subnet val origin"

definition FinalityAggregateID :: "int \<Rightarrow> int \<Rightarrow> int \<Rightarrow> MsgID" where
  "FinalityAggregateID fslot subnet aggregator = mkMsgID KindFinalityAggregate fslot subnet aggregator (-1)"

lemmas msgid_defs =
  BlockID_def ConsensusBlockID_def ExecutionPayloadID_def PTCVoteID_def AttestID_def
  AggregateID_def ColumnID_def SyncMessageID_def SyncContributionID_def ACVoteID_def
  FinalityVoteID_def FinalityAggregateID_def

lemmas make_defs =
  MakeBlock_def MakeConsensusBlock_def MakeExecutionPayload_def MakeAttestation_def
  MakeAggregate_def MakeColumn_def MakeSyncMessage_def MakeSyncContribution_def MakeACVote_def
  MakeFinalityVote_def MakeFinalityAggregate_def MakePTCVote_def

section \<open>One publication of each kind\<close>

text \<open>
  The arguments of one publish call of the runner: the builder it calls, the identity it records
  and the node it publishes from.
\<close>

datatype publication =
    PubBlock int int nat
  | PubConsensusBlock int int nat
  | PubExecutionPayload int int nat
  | PubAttestation int int int int int
  | PubAggregate int int int
  | PubColumn int int int
  | PubSyncMessage int int int int
  | PubSyncContribution int int int
  | PubACVote int int int int
  | PubFinalityVote int int int int
  | PubFinalityAggregate int int int int
  | PubPTCVote int int int bool

fun pub_message :: "codec \<Rightarrow> publication \<Rightarrow> Message" where
  "pub_message C (PubBlock s r n) = MakeBlock C s r n"
| "pub_message C (PubConsensusBlock s r n) = MakeConsensusBlock C s r n"
| "pub_message C (PubExecutionPayload s r n) = MakeExecutionPayload C s r n"
| "pub_message C (PubAttestation s n v r w) = MakeAttestation C s n v r w"
| "pub_message C (PubAggregate s n r) = MakeAggregate C s n r"
| "pub_message C (PubColumn s c r) = MakeColumn C s c r"
| "pub_message C (PubSyncMessage s n r w) = MakeSyncMessage C s n r w"
| "pub_message C (PubSyncContribution s n r) = MakeSyncContribution C s n r"
| "pub_message C (PubACVote s v r w) = MakeACVote C s v r w"
| "pub_message C (PubFinalityVote s n v r) = MakeFinalityVote C s n v r"
| "pub_message C (PubFinalityAggregate s n r vps) = MakeFinalityAggregate C s n r vps"
| "pub_message C (PubPTCVote s v r b) = MakePTCVote C s v r b"

fun pub_id :: "publication \<Rightarrow> MsgID" where
  "pub_id (PubBlock s r _) = BlockID s r"
| "pub_id (PubConsensusBlock s r _) = ConsensusBlockID s r"
| "pub_id (PubExecutionPayload s r _) = ExecutionPayloadID s r"
| "pub_id (PubAttestation s n v r _) = AttestID s n v r"
| "pub_id (PubAggregate s n r) = AggregateID s n r"
| "pub_id (PubColumn s c r) = ColumnID s c r"
| "pub_id (PubSyncMessage s n r _) = SyncMessageID s n r"
| "pub_id (PubSyncContribution s n r) = SyncContributionID s n r"
| "pub_id (PubACVote s v r _) = ACVoteID s v r"
| "pub_id (PubFinalityVote s n v r) = FinalityVoteID s n v r"
| "pub_id (PubFinalityAggregate s n r _) = FinalityAggregateID s n r"
| "pub_id (PubPTCVote s v r _) = PTCVoteID s v r"

fun pub_args :: "publication \<Rightarrow> int \<times> int list" where
  "pub_args (PubBlock s r _) = (r, [s])"
| "pub_args (PubConsensusBlock s r _) = (r, [s])"
| "pub_args (PubExecutionPayload s r _) = (r, [s])"
| "pub_args (PubAttestation s n v r _) = (r, [s, n, v])"
| "pub_args (PubAggregate s n r) = (r, [s, n])"
| "pub_args (PubColumn s c r) = (r, [s, c])"
| "pub_args (PubSyncMessage s n r _) = (r, [s, n])"
| "pub_args (PubSyncContribution s n r) = (r, [s, n])"
| "pub_args (PubACVote s v r _) = (r, [s, v])"
| "pub_args (PubFinalityVote s n v r) = (r, [s, n, v])"
| "pub_args (PubFinalityAggregate s n r _) = (r, [s, n])"
| "pub_args (PubPTCVote s v r _) = (r, [s, v])"

definition pub_origin :: "publication \<Rightarrow> int" where
  "pub_origin p = fst (pub_args p)"

text \<open>Every number the message carries fits the wire's \<open>uint32\<close>.\<close>

definition pub_in_range :: "publication \<Rightarrow> bool" where
  "pub_in_range p \<longleftrightarrow> (\<forall>x \<in> set (pub_origin p # snd (pub_args p)). 0 \<le> x \<and> x < 2 ^ 32)"

fun pub_kind :: "publication \<Rightarrow> Kind" where
  "pub_kind p = mid_kind (pub_id p)"

section \<open>Lemmas\<close>

lemma uint_u32 [simp]: "0 \<le> x \<Longrightarrow> x < 2 ^ 32 \<Longrightarrow> uint (u32 x) = x"
  by (simp add: u32_def uint_word_of_int take_bit_int_eq_self)

lemma wire_kind_with_payload [simp]: "wire_kind (with_payload p m) = wire_kind m"
  by (cases m) simp_all

lemma extractId_with_payload [simp]: "extractId (with_payload p m) = extractId m"
  by (cases m) simp_all

lemma GetOrigin_with_payload [simp]: "GetOrigin (with_payload p m) = GetOrigin m"
  by (cases m) simp_all

lemma with_payload_twice [simp]: "with_payload p (with_payload q m) = with_payload p m"
  by (cases m) simp_all

text \<open>What the wire carries of a publication, before the filler.\<close>

fun pub_wire :: "publication \<Rightarrow> wire_msg" where
  "pub_wire (PubBlock s r n) = PbBlock (u32 s) (u32 r) (ones n)"
| "pub_wire (PubConsensusBlock s r n) = PbConsensusBlock (u32 s) (u32 r) (ones n)"
| "pub_wire (PubExecutionPayload s r n) = PbExecutionPayload (u32 s) (u32 r) (ones n)"
| "pub_wire (PubAttestation s n v r w) = PbAttestation (u32 s) (u32 n) (u32 v) (u32 r) (voted w) []"
| "pub_wire (PubAggregate s n r) = PbAggregate (u32 s) (u32 n) (u32 r) []"
| "pub_wire (PubColumn s c r) = PbColumn (u32 s) (u32 c) (u32 r) []"
| "pub_wire (PubSyncMessage s n r w) = PbSyncMessage (u32 s) (u32 n) (u32 r) (voted w) []"
| "pub_wire (PubSyncContribution s n r) = PbSyncContribution (u32 s) (u32 n) (u32 r) []"
| "pub_wire (PubACVote s v r w) = PbACVote (u32 s) (u32 v) (u32 r) (voted w) []"
| "pub_wire (PubFinalityVote s n v r) = PbFinalityVote (u32 s) (u32 n) (u32 v) (u32 r) []"
| "pub_wire (PubFinalityAggregate s n r _) = PbFinalityAggregate (u32 s) (u32 n) (u32 r) []"
| "pub_wire (PubPTCVote s v r b) = PbPTCVote (u32 s) (u32 v) (u32 r) b []"

lemma pub_message_payload:
  "\<exists>p. Payload (pub_message C q) = marshal C (with_payload p (pub_wire q))"
  by (cases q) (auto simp: make_defs sized_def intro: exI [of _ "ones n" for n])

lemma pub_message_topic: "\<exists>s. Topic (pub_message C q) = topicOf (pub_kind q) s"
  by (cases q) (auto simp: make_defs msgid_defs mkMsgID_def)

lemma pub_message_slot: "Slot (pub_message C q) = id_slot (mid_ident (pub_id q))"
  by (cases q) (simp_all add: make_defs msgid_defs mkMsgID_def mkIdentity_def)

lemma wire_kind_pub_wire: "wire_kind (pub_wire q) = Some (pub_kind q)"
  by (cases q) (simp_all add: msgid_defs mkMsgID_def)

lemma extractId_pub_wire: "pub_in_range q \<Longrightarrow> extractId (pub_wire q) = mid_ident (pub_id q)"
  by (cases q) (simp_all add: pub_in_range_def pub_origin_def msgid_defs mkMsgID_def)

lemma GetOrigin_pub_wire: "pub_in_range q \<Longrightarrow> uint (GetOrigin (pub_wire q)) = pub_origin q"
  by (cases q) (simp_all add: pub_in_range_def pub_origin_def)

lemma Decode_topicOf:
  "Decode C (topicOf k s) data at =
     (case decodeAs C k data of
        Inl e \<Rightarrow> Inl e
      | Inr (m, ident, origin) \<Rightarrow>
          Inr \<lparr>rec_kind = k, rec_obj = Some m, rec_id = ident, rec_origin = origin, rec_at = at\<rparr>)"
  using topicOf_resolves [of k s] by (auto simp: Decode_def)

lemma Decode_pub_message:
  assumes "codec_roundtrip C"
  obtains p where "Decode C (Topic (pub_message C q)) (Payload (pub_message C q)) at =
    Inr \<lparr>rec_kind = pub_kind q, rec_obj = Some (with_payload p (pub_wire q)),
         rec_id = extractId (pub_wire q), rec_origin = uint (GetOrigin (pub_wire q)), rec_at = at\<rparr>"
proof -
  obtain s p where t: "Topic (pub_message C q) = topicOf (pub_kind q) s"
    and m: "Payload (pub_message C q) = marshal C (with_payload p (pub_wire q))"
    using pub_message_topic pub_message_payload by metis
  have "unmarshal C (pub_kind q) (marshal C (with_payload p (pub_wire q))) =
      Some (with_payload p (pub_wire q))"
    using assms wire_kind_pub_wire [of q] by (simp add: codec_roundtrip_def)
  then show ?thesis
    using that by (simp only: t m Decode_topicOf decodeAs_def) simp
qed

section \<open>A concrete codec\<close>

text \<open>
  Fixed-width fields: it satisfies \<open>codec_roundtrip\<close>, so the hypothesis can hold.  It stands in
  for protobuf in the witnesses only.
\<close>

definition rd32 :: "nat \<Rightarrow> bytes \<Rightarrow> u32" where
  "rd32 i bs = of_be32 (take 4 (drop (4 * i) bs))"

fun fixed_marshal :: "wire_msg \<Rightarrow> bytes" where
  "fixed_marshal (PbBlock a b p) = be32 a @ be32 b @ p"
| "fixed_marshal (PbAttestation a b c d e p) = be32 a @ be32 b @ be32 c @ be32 d @ be32 e @ p"
| "fixed_marshal (PbAggregate a b c p) = be32 a @ be32 b @ be32 c @ p"
| "fixed_marshal (PbColumn a b c p) = be32 a @ be32 b @ be32 c @ p"
| "fixed_marshal (PbSyncMessage a b c d p) = be32 a @ be32 b @ be32 c @ be32 d @ p"
| "fixed_marshal (PbSyncContribution a b c p) = be32 a @ be32 b @ be32 c @ p"
| "fixed_marshal (PbACVote a b c d p) = be32 a @ be32 b @ be32 c @ be32 d @ p"
| "fixed_marshal (PbFinalityVote a b c d p) = be32 a @ be32 b @ be32 c @ be32 d @ p"
| "fixed_marshal (PbFinalityAggregate a b c p) = be32 a @ be32 b @ be32 c @ p"
| "fixed_marshal (PbConsensusBlock a b p) = be32 a @ be32 b @ p"
| "fixed_marshal (PbExecutionPayload a b p) = be32 a @ be32 b @ p"
| "fixed_marshal (PbPTCVote a b c d p) = be32 a @ be32 b @ be32 c @ [if d then 1 else 0] @ p"
| "fixed_marshal (PbPartialAttData a b c p) = be32 a @ be32 b @ be32 c @ p"

fun fixed_unmarshal :: "Kind \<Rightarrow> bytes \<Rightarrow> wire_msg option" where
  "fixed_unmarshal KindBlock bs = Some (PbBlock (rd32 0 bs) (rd32 1 bs) (drop 8 bs))"
| "fixed_unmarshal KindAttestation bs =
     Some (PbAttestation (rd32 0 bs) (rd32 1 bs) (rd32 2 bs) (rd32 3 bs) (rd32 4 bs) (drop 20 bs))"
| "fixed_unmarshal KindAggregate bs =
     Some (PbAggregate (rd32 0 bs) (rd32 1 bs) (rd32 2 bs) (drop 12 bs))"
| "fixed_unmarshal KindColumn bs =
     Some (PbColumn (rd32 0 bs) (rd32 1 bs) (rd32 2 bs) (drop 12 bs))"
| "fixed_unmarshal KindSyncMessage bs =
     Some (PbSyncMessage (rd32 0 bs) (rd32 1 bs) (rd32 2 bs) (rd32 3 bs) (drop 16 bs))"
| "fixed_unmarshal KindSyncContribution bs =
     Some (PbSyncContribution (rd32 0 bs) (rd32 1 bs) (rd32 2 bs) (drop 12 bs))"
| "fixed_unmarshal KindACVote bs =
     Some (PbACVote (rd32 0 bs) (rd32 1 bs) (rd32 2 bs) (rd32 3 bs) (drop 16 bs))"
| "fixed_unmarshal KindFinalityVote bs =
     Some (PbFinalityVote (rd32 0 bs) (rd32 1 bs) (rd32 2 bs) (rd32 3 bs) (drop 16 bs))"
| "fixed_unmarshal KindFinalityAggregate bs =
     Some (PbFinalityAggregate (rd32 0 bs) (rd32 1 bs) (rd32 2 bs) (drop 12 bs))"
| "fixed_unmarshal KindConsensusBlock bs =
     Some (PbConsensusBlock (rd32 0 bs) (rd32 1 bs) (drop 8 bs))"
| "fixed_unmarshal KindExecutionPayload bs =
     Some (PbExecutionPayload (rd32 0 bs) (rd32 1 bs) (drop 8 bs))"
| "fixed_unmarshal KindPTCVote bs =
     Some (PbPTCVote (rd32 0 bs) (rd32 1 bs) (rd32 2 bs) (bs ! 12 = 1) (drop 13 bs))"

definition fixed_codec :: codec where
  "fixed_codec = \<lparr>marshal = fixed_marshal, unmarshal = fixed_unmarshal,
                  msize = (\<lambda>m. int (length (fixed_marshal m)))\<rparr>"

lemma fixed_codec_roundtrip: "codec_roundtrip fixed_codec"
proof -
  have "fixed_unmarshal k (fixed_marshal m) = Some m" if "wire_kind m = Some k" for m k
    using that by (cases m) (auto simp: rd32_def nth_append)
  then show ?thesis by (simp add: codec_roundtrip_def fixed_codec_def)
qed

text \<open>A codec with protobuf's framing of the payload, for the size hypothesis.\<close>

definition frame :: "bytes \<Rightarrow> bytes" where
  "frame p = (if p = [] then []
              else if length p < 128 then [34, of_nat (length p)] @ p
              else [34, of_nat (length p mod 128) + 128, of_nat (length p div 128)] @ p)"

fun payload_of :: "wire_msg \<Rightarrow> bytes" where
  "payload_of (PbBlock _ _ p) = p"
| "payload_of (PbAttestation _ _ _ _ _ p) = p"
| "payload_of (PbAggregate _ _ _ p) = p"
| "payload_of (PbColumn _ _ _ p) = p"
| "payload_of (PbSyncMessage _ _ _ _ p) = p"
| "payload_of (PbSyncContribution _ _ _ p) = p"
| "payload_of (PbACVote _ _ _ _ p) = p"
| "payload_of (PbFinalityVote _ _ _ _ p) = p"
| "payload_of (PbFinalityAggregate _ _ _ p) = p"
| "payload_of (PbConsensusBlock _ _ p) = p"
| "payload_of (PbExecutionPayload _ _ p) = p"
| "payload_of (PbPTCVote _ _ _ _ p) = p"
| "payload_of (PbPartialAttData _ _ _ p) = p"

definition framed_marshal :: "wire_msg \<Rightarrow> bytes" where
  "framed_marshal m = fixed_marshal (with_payload [] m) @ frame (payload_of m)"

definition framed_codec :: codec where
  "framed_codec = \<lparr>marshal = framed_marshal, unmarshal = (\<lambda>_ _. None),
                   msize = (\<lambda>m. int (length (framed_marshal m)))\<rparr>"

lemma payload_of_with_payload [simp]: "payload_of (with_payload p m) = p"
  by (cases m) simp_all

lemma framed_codec_sizes: "codec_sizes framed_codec"
  by (auto simp: codec_sizes_def framed_codec_def framed_marshal_def frame_def payload_field_def)

section \<open>Properties\<close>

text \<open>
  C27: the receive side recovers what the publish side recorded.  For every kind of message, with
  its numbers in the range of the wire fields and a codec that decodes what it encoded, decoding
  the built payload from the built topic gives the kind and the identity under which the
  publisher recorded it, the publishing node (the loopback test) and the receive time, and the
  message's slot is the identity's slot.
\<close>

theorem Decode_publication:
  assumes "codec_roundtrip C" and "pub_in_range q"
  shows "\<exists>r. Decode C (Topic (pub_message C q)) (Payload (pub_message C q)) at = Inr r \<and>
             \<lparr>mid_kind = rec_kind r, mid_ident = rec_id r\<rparr> = pub_id q \<and>
             rec_origin r = pub_origin q \<and> rec_at r = at \<and>
             Slot (pub_message C q) = id_slot (rec_id r)"
proof -
  obtain p where d: "Decode C (Topic (pub_message C q)) (Payload (pub_message C q)) at =
    Inr \<lparr>rec_kind = pub_kind q, rec_obj = Some (with_payload p (pub_wire q)),
         rec_id = extractId (pub_wire q), rec_origin = uint (GetOrigin (pub_wire q)), rec_at = at\<rparr>"
    by (rule Decode_pub_message [OF assms(1)])
  then show ?thesis
    using assms(2) by (simp add: extractId_pub_wire GetOrigin_pub_wire pub_message_slot)
qed

theorem Decode_publication_witness:
  "pub_in_range (PubFinalityVote 7 2 19 3) \<and>
   (\<exists>r. Decode fixed_codec (Topic (pub_message fixed_codec (PubFinalityVote 7 2 19 3)))
          (Payload (pub_message fixed_codec (PubFinalityVote 7 2 19 3))) 5 = Inr r \<and>
        rec_origin r = 3)"
proof -
  have h: "pub_in_range (PubFinalityVote 7 2 19 3)" by (simp add: pub_in_range_def pub_origin_def)
  from Decode_publication [OF fixed_codec_roundtrip h, of 5] show ?thesis
    using h by (auto simp: pub_origin_def)
qed

text \<open>
  An attestation reads back as a block vote exactly when the vote named an origin that is not
  the sentinel: a negative origin is the prior head, and so is an origin congruent to
  \<open>2 ^ 32 - 1\<close>, which the 32-bit field cannot tell from it.
\<close>

theorem VotedBlock_roundtrip:
  assumes "codec_roundtrip C"
  shows "\<exists>r m. Decode C (Topic (MakeAttestation C slot subnet val origin w))
                  (Payload (MakeAttestation C slot subnet val origin w)) at = Inr r \<and>
               rec_obj r = Some m \<and>
               (VotedBlock m \<longleftrightarrow> 0 \<le> w \<and> w mod 2 ^ 32 \<noteq> 2 ^ 32 - 1)"
proof -
  let ?q = "PubAttestation slot subnet val origin w"
  obtain p where d: "Decode C (Topic (pub_message C ?q)) (Payload (pub_message C ?q)) at =
    Inr \<lparr>rec_kind = pub_kind ?q, rec_obj = Some (with_payload p (pub_wire ?q)),
         rec_id = extractId (pub_wire ?q), rec_origin = uint (GetOrigin (pub_wire ?q)), rec_at = at\<rparr>"
    by (rule Decode_pub_message [OF assms])
  have "u32 w = PriorHead \<longleftrightarrow> w mod 2 ^ 32 = 2 ^ 32 - 1"
  proof -
    have "u32 w = PriorHead \<longleftrightarrow> uint (u32 w) = uint PriorHead" by (rule word_uint_eq_iff)
    also have "\<dots> \<longleftrightarrow> w mod 2 ^ 32 = 2 ^ 32 - 1"
      by (simp add: u32_def PriorHead_def uint_word_of_int take_bit_eq_mod)
    finally show ?thesis .
  qed
  then have "VotedBlock (with_payload p (pub_wire ?q)) \<longleftrightarrow> 0 \<le> w \<and> w mod 2 ^ 32 \<noteq> 2 ^ 32 - 1"
    by (simp add: voted_def)
  with d show ?thesis by auto
qed

theorem VotedBlock_roundtrip_witness:
  "\<exists>r m. Decode fixed_codec (Topic (MakeAttestation fixed_codec 3 1 8 2 6))
          (Payload (MakeAttestation fixed_codec 3 1 8 2 6)) 0 = Inr r \<and>
        rec_obj r = Some m \<and> VotedBlock m"
  using VotedBlock_roundtrip [OF fixed_codec_roundtrip, of 3 1 8 2 6 0] by simp

text \<open>
  The filler makes a message land on its target size.  For a message whose other fields leave
  between 3 and 16386 bytes, the encoding has exactly the target length, except that it is one
  byte short when 129 or 130 bytes are left (the filler then drops below 128 bytes while two
  length bytes were set aside).
\<close>

theorem sized_lands_on_target:
  assumes "codec_sizes C" and "with_payload [] m = m"
    and "3 \<le> target - msize C m" and "target - msize C m \<le> 16386"
  shows "int (length (sized C m target)) =
           (if target - msize C m \<in> {129, 130} then target - 1 else target)"
proof -
  let ?f = "target - msize C m"
  have len: "int (length (marshal C m')) = msize C m'" for m'
    using assms(1) by (simp add: codec_sizes_def)
  have field: "msize C (with_payload p m) = msize C m + payload_field (length p)"
    if "0 < length p" "length p < 2 ^ 14" for p
    using assms(1,2) that by (metis codec_sizes_def)
  define n where "n = nat (if ?f > 128 then ?f - 3 else ?f - 2)"
  have filler: "sizedFiller C m target = ones n"
    using assms(3) by (simp add: sizedFiller_def n_def Let_def)
  have n: "0 < n" "n < 2 ^ 14" using assms(3,4) by (auto simp: n_def)
  have "int (length (sized C m target)) = msize C m + payload_field n"
    using field [of "ones n"] n by (simp add: sized_def len filler ones_def)
  moreover have "payload_field n = (if ?f \<in> {129, 130} then ?f - 1 else ?f)"
    using assms(3) by (auto simp: payload_field_def n_def)
  ultimately show ?thesis by auto
qed

theorem sized_lands_on_target_witness:
  "int (length (sized framed_codec (PbAggregate 1 2 3 []) AggregateSize)) = 505"
proof -
  have m: "msize framed_codec (PbAggregate 1 2 3 []) = 12"
    by (simp add: framed_codec_def framed_marshal_def frame_def)
  show ?thesis
    using sized_lands_on_target [OF framed_codec_sizes, of "PbAggregate 1 2 3 []" AggregateSize]
    by (simp add: m AggregateSize_def)
qed

end
