(* ===== verification/Schedule.thy ===== *)
theory Schedule
  imports Prelude
begin

text \<open>
  The plan reader of src/schedule: the data of schedule.json (\<open>Params\<close>, \<open>AttesterRef\<close>,
  \<open>SlotPlan\<close>, \<open>Assignment\<close>), the finality position space of position.go and the hosting rule.
  \<open>None\<close> is a panic (an index out of range, a division by zero) or a loop that never ends.
  The rank tables are computed once behind a \<open>sync.Once\<close> in the code; here \<open>finalityRanks\<close> is
  the function they cache.
\<close>

section \<open>The plan\<close>

record Params =
  p_N :: int
  p_V :: int
  p_C :: int
  p_Sc :: int
  p_SubnetCount :: int
  p_SubnetsPerNode :: int
  p_SubscribeFloor :: int
  p_TargetAggregators :: int
  p_Seed :: "64 word"
  p_NumSlots :: int
  p_AcVoteSize :: int
  p_AcSlotsPerFinalitySlot :: int
  p_FsSubnets :: int
  p_FsAggregators :: int
  p_PTCSize :: int

record AttesterRef =
  ref_Node :: int
  ref_Val :: int
  ref_Subnet :: int
  ref_Position :: int

record SlotPlan =
  sp_Slot :: int
  sp_Committees :: "AttesterRef list list"
  sp_SubnetOf :: "int list"
  sp_Proposer :: int
  sp_Aggregators :: "int list list"
  sp_SyncAggregators :: "int list list"
  sp_ACVoters :: "AttesterRef list"
  sp_PTCVoters :: "AttesterRef list"
  sp_FinalityAggregators :: "AttesterRef list list"

record Assignment =
  a_Params :: Params
  a_SubnetSubscribers :: "int list list"
  a_NumColumns :: int
  a_ColumnSubscribers :: "int list list"
  a_FullCustody :: "int list"
  a_SyncSubscribers :: "int list list"
  a_FinalitySubscribers :: "int list list"
  a_FinalitySubnetOf :: "int list"
  a_ValidatorsPerSubnet :: "int list"
  a_FinalityRoundOf :: "int list"
  a_ValidatorsPerRoundSubnet :: "int list list"
  a_ValidatorCounts :: "int list"
  a_Slots :: "SlotPlan list"

abbreviation acK :: "Assignment \<Rightarrow> int" where
  "acK a \<equiv> p_AcSlotsPerFinalitySlot (a_Params a)"

text \<open>The shape the four bounded accessors share: an empty result out of range.\<close>

definition in_range_or_nil :: "int list list \<Rightarrow> int \<Rightarrow> int list" where
  "in_range_or_nil xss i = (if i < 0 \<or> int (length xss) \<le> i then [] else xss ! nat i)"

definition Subscribers :: "Assignment \<Rightarrow> int \<Rightarrow> int list" where
  "Subscribers a subnet = in_range_or_nil (a_SubnetSubscribers a) subnet"

definition ColumnSubscribersOf :: "Assignment \<Rightarrow> int \<Rightarrow> int list" where
  "ColumnSubscribersOf a col = in_range_or_nil (a_ColumnSubscribers a) col"

definition SyncSubscribersOf :: "Assignment \<Rightarrow> int \<Rightarrow> int list" where
  "SyncSubscribersOf a subnet = in_range_or_nil (a_SyncSubscribers a) subnet"

definition FinalitySubscribersOf :: "Assignment \<Rightarrow> int \<Rightarrow> int list" where
  "FinalitySubscribersOf a subnet = in_range_or_nil (a_FinalitySubscribers a) subnet"

definition Segregated :: "Assignment \<Rightarrow> bool" where
  "Segregated a \<longleftrightarrow> a_FinalityRoundOf a \<noteq> []"

section \<open>The finality position space (position.go)\<close>

type_synonym rank_tables = "int list list list \<times> int list"

text \<open>One iteration of the loop over the validators: append to the cell, record the rank.\<close>

definition ranks_step :: "Assignment \<Rightarrow> rank_tables \<Rightarrow> nat \<times> int \<Rightarrow> rank_tables option" where
  "ranks_step a = (\<lambda>(cells, pos) (val, s).
     do {
       round \<leftarrow> (if Segregated a then go_index (a_FinalityRoundOf a) (int val) else Some 0);
       row \<leftarrow> go_index cells s;
       cell \<leftarrow> go_index row round;
       Some (cells[nat s := row[nat round := cell @ [int val]]], pos @ [int (length cell)])
     })"

definition rank_rounds :: "Assignment \<Rightarrow> int" where
  "rank_rounds a = (if Segregated a then acK a else 1)"

definition rank_subnets :: "Assignment \<Rightarrow> int" where
  "rank_subnets a = foldl (\<lambda>n s. max n (s + 1)) 0 (a_FinalitySubnetOf a)"

definition finalityRanks :: "Assignment \<Rightarrow> rank_tables option" where
  "finalityRanks a =
     (if rank_rounds a < 0 \<and> 0 < rank_subnets a then None
      else foldO (ranks_step a) (List.enumerate 0 (a_FinalitySubnetOf a))
             (replicate (nat (rank_subnets a)) (replicate (nat (rank_rounds a)) []), []))"

definition group_round :: "Assignment \<Rightarrow> int \<Rightarrow> int option" where
  "group_round a grp =
     (if Segregated a then (if acK a = 0 then None else Some (go_mod grp (acK a))) else Some 0)"

definition FinalityPosition :: "Assignment \<Rightarrow> int \<Rightarrow> int option" where
  "FinalityPosition a val =
     do {
       (cells, pos) \<leftarrow> finalityRanks a;
       (if val < 0 \<or> int (length pos) \<le> val then Some (-1) else Some (pos ! nat val))
     }"

definition FinalityValAt :: "Assignment \<Rightarrow> int \<Rightarrow> int \<Rightarrow> int \<Rightarrow> int option" where
  "FinalityValAt a subnet grp position =
     do {
       (cells, pos) \<leftarrow> finalityRanks a;
       (if subnet < 0 \<or> int (length cells) \<le> subnet then Some (-1)
        else do {
          r \<leftarrow> group_round a grp;
          cell \<leftarrow> go_index (cells ! nat subnet) r;
          (if position < 0 \<or> int (length cell) \<le> position then Some (-1)
           else Some (cell ! nat position))
        })
     }"

definition FinalityCellSize :: "Assignment \<Rightarrow> int \<Rightarrow> int \<Rightarrow> int option" where
  "FinalityCellSize a subnet grp =
     do {
       (cells, pos) \<leftarrow> finalityRanks a;
       (if subnet < 0 \<or> int (length cells) \<le> subnet then Some 0
        else do {
          r \<leftarrow> group_round a grp;
          cell \<leftarrow> go_index (cells ! nat subnet) r;
          Some (int (length cell))
        })
     }"

text \<open>The scan of \<open>HostOf\<close> over the per-node validator counts.\<close>

fun HostOf_scan :: "int list \<Rightarrow> int \<Rightarrow> int \<Rightarrow> int \<Rightarrow> int" where
  "HostOf_scan [] node start val = -1"
| "HostOf_scan (n # c) node start val =
     (if val < start + n then node else HostOf_scan c (node + 1) (start + n) val)"

definition HostOf :: "Assignment \<Rightarrow> int \<Rightarrow> int" where
  "HostOf a val =
     (if val < 0 then -1
      else if a_ValidatorCounts a \<noteq> [] then HostOf_scan (a_ValidatorCounts a) 0 0 val
      else if p_N (a_Params a) \<le> 0 then -1
      else go_mod val (p_N (a_Params a)))"

section \<open>Facts about the rank tables\<close>

text \<open>
  What the generator guarantees of the finality draws: subnets are non-negative, and under
  segregation every validator has a round in \<open>0 .. k-1\<close>.
\<close>

definition wf_finality :: "Assignment \<Rightarrow> bool" where
  "wf_finality a \<longleftrightarrow>
     (\<forall>s \<in> set (a_FinalitySubnetOf a). 0 \<le> s) \<and>
     (Segregated a \<longrightarrow>
        0 < acK a \<and> length (a_FinalityRoundOf a) = length (a_FinalitySubnetOf a) \<and>
        (\<forall>r \<in> set (a_FinalityRoundOf a). 0 \<le> r \<and> r < acK a))"

definition val_round :: "Assignment \<Rightarrow> nat \<Rightarrow> int" where
  "val_round a v = (if Segregated a then a_FinalityRoundOf a ! v else 0)"

definition in_cell :: "Assignment \<Rightarrow> int \<Rightarrow> int \<Rightarrow> nat \<Rightarrow> bool" where
  "in_cell a s r v \<longleftrightarrow> a_FinalitySubnetOf a ! v = s \<and> val_round a v = r"

definition cell_upto :: "Assignment \<Rightarrow> int \<Rightarrow> int \<Rightarrow> nat \<Rightarrow> nat list" where
  "cell_upto a s r m = filter (in_cell a s r) [0..<m]"

definition table_upto :: "Assignment \<Rightarrow> nat \<Rightarrow> int list list list" where
  "table_upto a m =
     map (\<lambda>s. map (\<lambda>r. map int (cell_upto a (int s) (int r) m)) [0..<nat (rank_rounds a)])
       [0..<nat (rank_subnets a)]"

definition rank_of :: "Assignment \<Rightarrow> nat \<Rightarrow> int" where
  "rank_of a v = int (length (cell_upto a (a_FinalitySubnetOf a ! v) (val_round a v) v))"

lemma foldl_max_ge: "b \<le> foldl (\<lambda>n s. max n (s + 1)) b xs" for b :: int and xs :: "int list"
proof (induction xs arbitrary: b)
  case (Cons x xs)
  from Cons [of "max b (x + 1)"] show ?case by simp
qed simp

lemma foldl_max_bound:
  "x \<in> set xs \<Longrightarrow> x + 1 \<le> foldl (\<lambda>n s. max n (s + 1)) b xs" for b :: int and xs :: "int list"
proof (induction xs arbitrary: b)
  case (Cons y xs)
  have "x + 1 \<le> foldl (\<lambda>n s. max n (s + 1)) (max b (y + 1)) xs"
  proof (cases "x = y")
    case True
    then show ?thesis using foldl_max_ge [of "max b (y + 1)" xs] by linarith
  next
    case False
    then show ?thesis using Cons by simp
  qed
  then show ?case by simp
qed simp

lemma subnet_less_rank_subnets:
  "v < length (a_FinalitySubnetOf a) \<Longrightarrow> a_FinalitySubnetOf a ! v < rank_subnets a"
  using foldl_max_bound [of "a_FinalitySubnetOf a ! v" "a_FinalitySubnetOf a" 0]
  by (simp add: rank_subnets_def)

lemma rank_subnets_nonneg: "0 \<le> rank_subnets a"
  using foldl_max_ge [of 0 "a_FinalitySubnetOf a"] by (simp add: rank_subnets_def)

lemma rank_rounds_pos: "wf_finality a \<Longrightarrow> 0 < rank_rounds a"
  by (simp add: rank_rounds_def wf_finality_def)

lemma val_round_bounds:
  "wf_finality a \<Longrightarrow> v < length (a_FinalitySubnetOf a) \<Longrightarrow>
     0 \<le> val_round a v \<and> val_round a v < rank_rounds a"
  by (auto simp: wf_finality_def val_round_def rank_rounds_def)

lemma subnet_nonneg:
  "wf_finality a \<Longrightarrow> v < length (a_FinalitySubnetOf a) \<Longrightarrow> 0 \<le> a_FinalitySubnetOf a ! v"
  by (simp add: wf_finality_def)

lemma length_table_upto [simp]: "length (table_upto a m) = nat (rank_subnets a)"
  by (simp add: table_upto_def)

lemma nth_table_upto:
  "0 \<le> s \<Longrightarrow> s < rank_subnets a \<Longrightarrow>
     table_upto a m ! nat s = map (\<lambda>r. map int (cell_upto a s (int r) m)) [0..<nat (rank_rounds a)]"
  by (simp add: table_upto_def)

lemma cell_upto_Suc:
  "cell_upto a s r (Suc m) = cell_upto a s r m @ (if in_cell a s r m then [m] else [])"
  by (simp add: cell_upto_def)

text \<open>Appending one validator to its cell turns the table of \<open>m\<close> validators into the next.\<close>

lemma table_upto_Suc:
  assumes "wf_finality a" and "m < length (a_FinalitySubnetOf a)"
  defines "s \<equiv> a_FinalitySubnetOf a ! m" and "r \<equiv> val_round a m"
  shows "table_upto a (Suc m) =
    (table_upto a m)[nat s := (table_upto a m ! nat s)[nat r := map int (cell_upto a s r m) @ [int m]]]"
proof -
  have s: "0 \<le> s" "s < rank_subnets a"
    using subnet_nonneg [OF assms(1,2)] subnet_less_rank_subnets [OF assms(2)] by (auto simp: s_def)
  have r: "0 \<le> r" "r < rank_rounds a" using val_round_bounds [OF assms(1,2)] by (auto simp: r_def)
  have mem: "in_cell a s' r' m \<longleftrightarrow> s' = s \<and> r' = r" for s' r'
    by (auto simp: in_cell_def s_def r_def)
  show ?thesis
    using s r
    by (auto intro!: nth_equalityI simp: table_upto_def nth_list_update cell_upto_Suc mem)
qed

lemma ranks_step_table:
  assumes "wf_finality a" and "m < length (a_FinalitySubnetOf a)"
  shows "ranks_step a (table_upto a m, map (rank_of a) [0..<m]) (m, a_FinalitySubnetOf a ! m) =
           Some (table_upto a (Suc m), map (rank_of a) [0..<Suc m])"
proof -
  let ?s = "a_FinalitySubnetOf a ! m" and ?r = "val_round a m"
  have s: "0 \<le> ?s" "?s < rank_subnets a"
    using subnet_nonneg [OF assms] subnet_less_rank_subnets [OF assms(2)] by auto
  have r: "0 \<le> ?r" "?r < rank_rounds a" using val_round_bounds [OF assms] by auto
  have round: "(if Segregated a then go_index (a_FinalityRoundOf a) (int m) else Some 0) = Some ?r"
    using assms by (auto simp: val_round_def wf_finality_def)
  have row: "go_index (table_upto a m) ?s = Some (table_upto a m ! nat ?s)"
    using s by simp
  have cell: "go_index (table_upto a m ! nat ?s) ?r = Some (map int (cell_upto a ?s ?r m))"
    using s r by (simp add: nth_table_upto)
  show ?thesis
    unfolding ranks_step_def
    using table_upto_Suc [OF assms] by (simp add: round row cell rank_of_def)
qed

lemma finalityRanks_eq:
  assumes "wf_finality a"
  shows "finalityRanks a =
    Some (table_upto a (length (a_FinalitySubnetOf a)),
          map (rank_of a) [0..<length (a_FinalitySubnetOf a)])"
proof -
  let ?xs = "a_FinalitySubnetOf a"
  have init: "(replicate (nat (rank_subnets a)) (replicate (nat (rank_rounds a)) []), []) =
      (table_upto a 0, map (rank_of a) [0..<0])"
    by (auto intro!: nth_equalityI simp: table_upto_def cell_upto_def)
  have "foldO (ranks_step a) (List.enumerate 0 (take m ?xs)) (table_upto a 0, map (rank_of a) [0..<0])
      = Some (table_upto a m, map (rank_of a) [0..<m])" if "m \<le> length ?xs" for m
    using that
  proof (induction m)
    case 0
    then show ?case by simp
  next
    case (Suc m)
    then have lt: "m < length ?xs" by simp
    then have "List.enumerate 0 (take (Suc m) ?xs) = List.enumerate 0 (take m ?xs) @ [(m, ?xs ! m)]"
      by (simp add: take_Suc_conv_app_nth enumerate_append_eq)
    then show ?case using Suc ranks_step_table [OF assms lt] by (simp add: foldO_append)
  qed
  from this [of "length ?xs"] show ?thesis
    using rank_rounds_pos [OF assms] unfolding finalityRanks_def init by simp
qed

section \<open>Positions, cells and the inverse\<close>

lemma nth_cell_upto:
  assumes "v < n" and "in_cell a s r v"
  shows "length (cell_upto a s r v) < length (cell_upto a s r n)"
    and "cell_upto a s r n ! length (cell_upto a s r v) = v"
  using nth_filter_length_less [of v "[0..<n]" "in_cell a s r"]
    filter_nth_length_take [of v "[0..<n]" "in_cell a s r"] assms
  by (simp_all add: cell_upto_def)

lemma FinalityPosition_eq:
  "wf_finality a \<Longrightarrow> v < length (a_FinalitySubnetOf a) \<Longrightarrow>
     FinalityPosition a (int v) = Some (rank_of a v)"
  by (simp add: FinalityPosition_def finalityRanks_eq)

lemma group_round_eq:
  "wf_finality a \<Longrightarrow> 0 \<le> g \<Longrightarrow>
     group_round a g = Some (if Segregated a then g mod acK a else 0)"
  by (auto simp: group_round_def wf_finality_def)

lemma group_round_bounds:
  "wf_finality a \<Longrightarrow> 0 \<le> g \<Longrightarrow> group_round a g = Some r \<Longrightarrow> 0 \<le> r \<and> r < rank_rounds a"
  by (auto simp: group_round_eq rank_rounds_def wf_finality_def)

text \<open>The cell a bounded lookup reads, once the tables are known.\<close>

lemma FinalityValAt_eq:
  assumes "wf_finality a" and "0 \<le> g" and "group_round a g = Some r"
  shows "FinalityValAt a s g p =
    Some (if 0 \<le> s \<and> s < rank_subnets a \<and> 0 \<le> p \<and>
             p < int (length (cell_upto a s r (length (a_FinalitySubnetOf a))))
          then int (cell_upto a s r (length (a_FinalitySubnetOf a)) ! nat p) else -1)"
  using group_round_bounds [OF assms] rank_subnets_nonneg [of a] assms
  by (auto simp: FinalityValAt_def finalityRanks_eq nth_table_upto)

lemma FinalityCellSize_eq:
  assumes "wf_finality a" and "0 \<le> g" and "group_round a g = Some r"
  shows "FinalityCellSize a s g =
    Some (if 0 \<le> s \<and> s < rank_subnets a
          then int (length (cell_upto a s r (length (a_FinalitySubnetOf a)))) else 0)"
  using group_round_bounds [OF assms] rank_subnets_nonneg [of a] assms
  by (auto simp: FinalityCellSize_def finalityRanks_eq nth_table_upto)

lemma nth_cell_upto_in_cell:
  assumes "p < length (cell_upto a s r n)"
  shows "in_cell a s r (cell_upto a s r n ! p)" and "cell_upto a s r n ! p < n"
proof -
  have "cell_upto a s r n ! p \<in> set (cell_upto a s r n)" using assms by simp
  then show "in_cell a s r (cell_upto a s r n ! p)" "cell_upto a s r n ! p < n"
    by (auto simp: cell_upto_def)
qed

lemma distinct_cell_upto [simp]: "distinct (cell_upto a s r n)"
  by (simp add: cell_upto_def)

section \<open>Hosting\<close>

function strided :: "int \<Rightarrow> int \<Rightarrow> int \<Rightarrow> int list" where
  "strided val N V = (if val < V \<and> 0 < N then val # strided (val + N) N V else [])"
  by pat_completeness auto
termination by (relation "measure (\<lambda>(val, N, V). nat (V - val))") auto

declare strided.simps [simp del]

text \<open>
  The validators a node hosts: its contiguous range when the plan carries validator counts, the
  residue class of its number otherwise.  A node outside the counts panics; a non-positive node
  count would make the stride loop run for ever.
\<close>

definition hostedVals :: "Assignment \<Rightarrow> int \<Rightarrow> int list option" where
  "hostedVals a node =
     (let c = a_ValidatorCounts a; N = p_N (a_Params a); V = p_V (a_Params a) in
      if c \<noteq> [] then
        (if 0 \<le> node \<and> node < int (length c)
         then (let start = sum_list (take (nat node) c) in Some [start..start + c ! nat node - 1])
         else None)
      else if N \<le> 0 \<and> node < V then None
      else Some (strided node N V))"

definition wf_hosting :: "Assignment \<Rightarrow> bool" where
  "wf_hosting a \<longleftrightarrow>
     (if a_ValidatorCounts a \<noteq> []
      then (\<forall>n \<in> set (a_ValidatorCounts a). 0 \<le> n) \<and>
           sum_list (a_ValidatorCounts a) = int (length (a_FinalitySubnetOf a))
      else 0 < p_N (a_Params a) \<and> p_V (a_Params a) = int (length (a_FinalitySubnetOf a)))"

definition numNodes :: "Assignment \<Rightarrow> int" where
  "numNodes a = (if a_ValidatorCounts a \<noteq> [] then int (length (a_ValidatorCounts a))
                 else p_N (a_Params a))"

lemma set_strided: "0 < N \<Longrightarrow> set (strided v N V) = {x. v \<le> x \<and> x < V \<and> N dvd x - v}"
proof (induction v N V rule: strided.induct)
  case (1 v N V)
  show ?case
  proof (cases "v < V")
    case True
    have step: "x = v \<or> (v + N \<le> x \<and> N dvd x - (v + N)) \<longleftrightarrow> v \<le> x \<and> N dvd x - v" for x
    proof -
      have "N dvd x - (v + N) \<longleftrightarrow> N dvd x - v"
        using dvd_add [of N "x - (v + N)" N] dvd_diff [of N "x - v" N] by (auto simp: algebra_simps)
      moreover have "v + N \<le> x" if "v < x" "N dvd x - v"
        using that zdvd_imp_le [of N "x - v"] by simp
      ultimately show ?thesis using 1(2) by (cases "x = v") auto
    qed
    have "set (strided v N V) = insert v {x. v + N \<le> x \<and> x < V \<and> N dvd x - (v + N)}"
      using 1 True by (subst strided.simps) simp
    also have "\<dots> = {x. v \<le> x \<and> x < V \<and> N dvd x - v}" using step True by blast
    finally show ?thesis .
  next
    case False
    then show ?thesis by (subst strided.simps) auto
  qed
qed

lemma distinct_strided: "0 < N \<Longrightarrow> distinct (strided v N V)"
proof (induction v N V rule: strided.induct)
  case (1 v N V)
  then show ?case by (subst strided.simps) (auto simp: set_strided)
qed

text \<open>The scan stops at the node whose range holds the validator.\<close>

lemma HostOf_scan_iff:
  assumes "\<forall>n \<in> set c. 0 \<le> n" and "start \<le> val" and "0 \<le> j" and "i < length c"
  shows "HostOf_scan c j start val = j + int i \<longleftrightarrow>
    start + sum_list (take i c) \<le> val \<and> val < start + sum_list (take (Suc i) c)"
  using assms
proof (induction c arbitrary: j start i)
  case Nil
  then show ?case by simp
next
  case (Cons n c)
  show ?case
  proof (cases "val < start + n")
    case True
    have "0 \<le> sum_list (take k c)" for k
      using Cons.prems(1) by (intro sum_list_nonneg) (auto dest: in_set_takeD)
    then have "start + n \<le> start + sum_list (take i (n # c))" if "0 < i"
      using that by (cases i) auto
    with True Cons.prems show ?thesis by (cases i) fastforce+
  next
    case False
    have ge: "j \<le> HostOf_scan c j' s val \<or> HostOf_scan c j' s val = -1" if "j \<le> j'" for j' s
      using that by (induction c arbitrary: j' s) auto
    show ?thesis
    proof (cases i)
      case 0
      have "HostOf_scan c (j + 1) s val \<noteq> j" for s
      proof -
        have "HostOf_scan c j' s val \<noteq> j" if "j < j'" for j' s
          using that \<open>0 \<le> j\<close> by (induction c arbitrary: j' s) auto
        then show ?thesis by simp
      qed
      with False 0 show ?thesis by simp
    next
      case (Suc k)
      have "HostOf_scan c (j + 1) (start + n) val = (j + 1) + int k \<longleftrightarrow>
          start + n + sum_list (take k c) \<le> val \<and> val < start + n + sum_list (take (Suc k) c)"
        using Cons.prems False Suc by (intro Cons.IH) auto
      with False Suc show ?thesis by (simp add: algebra_simps)
    qed
  qed
qed

text \<open>\<open>HostOf\<close> inverts the hosting rule.\<close>

lemma hostedVals_HostOf:
  assumes "wf_hosting a" and "0 \<le> node" and "node < numNodes a"
  obtains vs where "hostedVals a node = Some vs" and "distinct vs"
    and "set vs = {v. 0 \<le> v \<and> v < int (length (a_FinalitySubnetOf a)) \<and> HostOf a v = node}"
proof (cases "a_ValidatorCounts a = []")
  case True
  let ?N = "p_N (a_Params a)" and ?V = "p_V (a_Params a)"
  have N: "0 < ?N" and V: "?V = int (length (a_FinalitySubnetOf a))"
    using assms(1) True by (auto simp: wf_hosting_def)
  have "node < ?N" using assms(3) True by (simp add: numNodes_def)
  then have mod: "node \<le> v \<and> ?N dvd v - node \<longleftrightarrow> v mod ?N = node" if "0 \<le> v" for v
    using assms(2) N that mod_eq_dvd_iff [of v ?N node] zmod_le_nonneg_dividend [of v ?N] by auto
  have "set (strided node ?N ?V) = {v. 0 \<le> v \<and> v < ?V \<and> HostOf a v = node}"
  proof -
    have "node \<le> v \<and> v < ?V \<and> ?N dvd v - node \<longleftrightarrow> 0 \<le> v \<and> v < ?V \<and> HostOf a v = node" for v
      using mod [of v] assms(2) N True by (cases "0 \<le> v") (auto simp: HostOf_def)
    then show ?thesis using N by (simp add: set_strided)
  qed
  moreover have "hostedVals a node = Some (strided node ?N ?V)"
    using True N by (simp add: hostedVals_def)
  ultimately show ?thesis using that distinct_strided [OF N] V by simp
next
  case False
  let ?c = "a_ValidatorCounts a" and ?i = "nat node"
  have c: "\<forall>n \<in> set ?c. 0 \<le> n" and sum: "sum_list ?c = int (length (a_FinalitySubnetOf a))"
    using assms(1) False by (auto simp: wf_hosting_def)
  have i: "?i < length ?c" using assms(2,3) False by (simp add: numNodes_def)
  let ?start = "sum_list (take ?i ?c)"
  have next_start: "sum_list (take (Suc ?i) ?c) = ?start + ?c ! ?i"
    using i by (simp add: take_Suc_conv_app_nth)
  have start: "0 \<le> ?start" using c by (intro sum_list_nonneg) (auto dest: in_set_takeD)
  have "sum_list ?c = sum_list (take (Suc ?i) ?c) + sum_list (drop (Suc ?i) ?c)"
    by (metis append_take_drop_id sum_list_append)
  moreover have "0 \<le> sum_list (drop (Suc ?i) ?c)"
    using c by (intro sum_list_nonneg) (auto dest: in_set_dropD)
  ultimately have le: "?start + ?c ! ?i \<le> int (length (a_FinalitySubnetOf a))"
    using sum next_start by simp
  have host: "HostOf a v = node \<longleftrightarrow> ?start \<le> v \<and> v < ?start + ?c ! ?i" if "0 \<le> v" for v
    using HostOf_scan_iff [OF c _ _ i, of 0 v 0] that False assms(2) next_start
    by (simp add: HostOf_def)
  have range: "?start \<le> v \<and> v < ?start + ?c ! ?i \<longleftrightarrow>
      0 \<le> v \<and> v < int (length (a_FinalitySubnetOf a)) \<and> HostOf a v = node" for v
    using host [of v] start le by (cases "0 \<le> v") auto
  have "set [?start..?start + ?c ! ?i - 1] =
      {v. 0 \<le> v \<and> v < int (length (a_FinalitySubnetOf a)) \<and> HostOf a v = node}"
  proof (rule set_eqI)
    fix v show "v \<in> set [?start..?start + ?c ! ?i - 1] \<longleftrightarrow>
        v \<in> {v. 0 \<le> v \<and> v < int (length (a_FinalitySubnetOf a)) \<and> HostOf a v = node}"
      using range [of v] by simp
  qed
  moreover have "hostedVals a node = Some [?start..?start + ?c ! ?i - 1]"
    using False i assms(2) by (simp add: hostedVals_def Let_def)
  ultimately show ?thesis using that by (metis distinct_upto)
qed

text \<open>Reading a position back: the validator at it is the one whose rank it is.\<close>

lemma FinalityValAt_iff:
  assumes "wf_finality a" and "0 \<le> g" and "0 \<le> v" and "v < int (length (a_FinalitySubnetOf a))"
  shows "FinalityValAt a s g p = Some v \<longleftrightarrow>
           a_FinalitySubnetOf a ! nat v = s \<and> group_round a g = Some (val_round a (nat v)) \<and>
           FinalityPosition a v = Some p"
proof -
  let ?n = "length (a_FinalitySubnetOf a)"
  obtain r where r: "group_round a g = Some r" using assms(1,2) by (simp add: group_round_eq)
  let ?cell = "cell_upto a s r ?n"
  have v: "nat v < ?n" using assms(3,4) by simp
  have pos: "FinalityPosition a v = Some (rank_of a (nat v))"
    using FinalityPosition_eq [OF assms(1) v] assms(3) by simp
  have sub: "0 \<le> a_FinalitySubnetOf a ! nat v" "a_FinalitySubnetOf a ! nat v < rank_subnets a"
    using subnet_nonneg [OF assms(1) v] subnet_less_rank_subnets [OF v] by auto
  show ?thesis
  proof
    assume at: "FinalityValAt a s g p = Some v"
    then have p: "0 \<le> p" "nat p < length ?cell" "?cell ! nat p = nat v"
      using FinalityValAt_eq [OF assms(1,2) r, of s p] assms(3) by (auto split: if_splits)
    then have cell: "in_cell a s r (nat v)" using nth_cell_upto_in_cell(1) [OF p(2)] by simp
    note i = nth_cell_upto [OF v cell]
    have "nat p = length (cell_upto a s r (nat v))"
      using nth_eq_iff_index_eq [OF distinct_cell_upto p(2) i(1)] i(2) p(3) by simp
    then have "rank_of a (nat v) = p" using cell p(1) by (simp add: rank_of_def in_cell_def)
    with cell pos r show "a_FinalitySubnetOf a ! nat v = s \<and>
        group_round a g = Some (val_round a (nat v)) \<and> FinalityPosition a v = Some p"
      by (simp add: in_cell_def)
  next
    assume h: "a_FinalitySubnetOf a ! nat v = s \<and> group_round a g = Some (val_round a (nat v)) \<and>
        FinalityPosition a v = Some p"
    then have cell: "in_cell a s r (nat v)" using r by (simp add: in_cell_def)
    have p: "p = int (length (cell_upto a s r (nat v)))"
      using h pos r by (auto simp: rank_of_def)
    then show "FinalityValAt a s g p = Some v"
      using FinalityValAt_eq [OF assms(1,2) r, of s p] nth_cell_upto [OF v cell] h sub assms(3)
      by simp
  qed
qed

section \<open>Properties\<close>

text \<open>
  Positions and validators are in bijection within a cell.  For a plan with well-formed
  finality draws, the validator read back at a position of a subnet's cell in a round is exactly
  the validator of that subnet and round whose position it is; so no two validators of a cell
  share a position and the wire identity of a partial vote is unambiguous.
\<close>

theorem FinalityValAt_inverse:
  assumes "wf_finality a" and "0 \<le> g" and "0 \<le> v" and "v < int (length (a_FinalitySubnetOf a))"
  shows "FinalityValAt a s g p = Some v \<longleftrightarrow>
           a_FinalitySubnetOf a ! nat v = s \<and> group_round a g = Some (val_round a (nat v)) \<and>
           FinalityPosition a v = Some p"
  by (rule FinalityValAt_iff [OF assms])

text \<open>A small segregated plan: five validators on two subnets in two rounds.\<close>

definition example_plan :: Assignment where
  "example_plan =
     \<lparr>a_Params = \<lparr>p_N = 2, p_V = 5, p_C = 1, p_Sc = 2, p_SubnetCount = 1, p_SubnetsPerNode = 1,
        p_SubscribeFloor = 1, p_TargetAggregators = 1, p_Seed = 7, p_NumSlots = 2, p_AcVoteSize = 1,
        p_AcSlotsPerFinalitySlot = 2, p_FsSubnets = 2, p_FsAggregators = 1, p_PTCSize = 1\<rparr>,
      a_SubnetSubscribers = [[0, 1]], a_NumColumns = 2, a_ColumnSubscribers = [[0], [0, 1]],
      a_FullCustody = [0], a_SyncSubscribers = [[1]], a_FinalitySubscribers = [[0], [1]],
      a_FinalitySubnetOf = [1, 0, 1, 1, 0], a_ValidatorsPerSubnet = [2, 3],
      a_FinalityRoundOf = [0, 1, 0, 1, 0], a_ValidatorsPerRoundSubnet = [[1, 2], [1, 1]],
      a_ValidatorCounts = [],
      a_Slots =
        [\<lparr>sp_Slot = 0,
          sp_Committees = [[\<lparr>ref_Node = 0, ref_Val = 2, ref_Subnet = 0, ref_Position = 0\<rparr>,
                            \<lparr>ref_Node = 1, ref_Val = 3, ref_Subnet = 0, ref_Position = 1\<rparr>]],
          sp_SubnetOf = [0], sp_Proposer = 0, sp_Aggregators = [[1]], sp_SyncAggregators = [[1]],
          sp_ACVoters = [\<lparr>ref_Node = 1, ref_Val = 1, ref_Subnet = 0, ref_Position = 0\<rparr>],
          sp_PTCVoters = [\<lparr>ref_Node = 0, ref_Val = 4, ref_Subnet = 0, ref_Position = 0\<rparr>],
          sp_FinalityAggregators =
            [[\<lparr>ref_Node = 1, ref_Val = 1, ref_Subnet = 0, ref_Position = 0\<rparr>],
             [\<lparr>ref_Node = 0, ref_Val = 0, ref_Subnet = 1, ref_Position = 0\<rparr>]]\<rparr>,
         \<lparr>sp_Slot = 1,
          sp_Committees = [[\<lparr>ref_Node = 1, ref_Val = 1, ref_Subnet = 0, ref_Position = 0\<rparr>,
                            \<lparr>ref_Node = 1, ref_Val = 3, ref_Subnet = 0, ref_Position = 1\<rparr>]],
          sp_SubnetOf = [0], sp_Proposer = 1, sp_Aggregators = [[0]], sp_SyncAggregators = [[]],
          sp_ACVoters = [], sp_PTCVoters = [],
          sp_FinalityAggregators = [[], [\<lparr>ref_Node = 1, ref_Val = 3, ref_Subnet = 1, ref_Position = 0\<rparr>]]\<rparr>]\<rparr>"

lemma example_plan_wf: "wf_finality example_plan" "wf_hosting example_plan"
  by (simp_all add: wf_finality_def wf_hosting_def Segregated_def example_plan_def)

theorem FinalityValAt_inverse_witness:
  "FinalityValAt example_plan 1 4 1 = Some 2 \<and> FinalityPosition example_plan 2 = Some 1"
proof -
  have "a_FinalitySubnetOf example_plan ! nat 2 = 1 \<and>
      group_round example_plan 4 = Some (val_round example_plan (nat 2)) \<and>
      FinalityPosition example_plan 2 = Some 1"
    by (simp add: group_round_def val_round_def FinalityPosition_def finalityRanks_def
        rank_rounds_def rank_subnets_def ranks_step_def Segregated_def example_plan_def)
  moreover from FinalityValAt_inverse [OF example_plan_wf(1), of 4 2 1 1] this
  have "FinalityValAt example_plan 1 4 1 = Some 2"
    by (simp add: example_plan_def)
  ultimately show ?thesis by simp
qed

text \<open>
  The cells partition the validator set.  The sizes of all (subnet, round) cells of a
  well-formed plan sum to the number of validators, so every validator has a seat in exactly one
  cell and the partial transport's bitmaps are wide enough for all of them.
\<close>

theorem FinalityCellSize_partition:
  assumes "wf_finality a"
  shows "(\<Sum>s = 0..<rank_subnets a. \<Sum>r = 0..<rank_rounds a. the (FinalityCellSize a s r))
           = int (length (a_FinalitySubnetOf a))"
proof -
  let ?n = "length (a_FinalitySubnetOf a)" and ?S = "{0..<rank_subnets a}" and ?R = "{0..<rank_rounds a}"
  let ?cell = "\<lambda>v. (a_FinalitySubnetOf a ! v, val_round a v)"
  have sz: "the (FinalityCellSize a s r) = (\<Sum>v \<in> {v \<in> {0..<?n}. ?cell v = (s, r)}. 1)"
    if "s \<in> ?S" "r \<in> ?R" for s r
  proof -
    have r: "group_round a r = Some r"
      using that(2) assms by (auto simp: group_round_def rank_rounds_def wf_finality_def)
    have "the (FinalityCellSize a s r) = int (length (cell_upto a s r ?n))"
      using FinalityCellSize_eq [OF assms _ r, of s] that by simp
    also have "\<dots> = int (card (set (cell_upto a s r ?n)))"
      by (simp add: distinct_card)
    also have "set (cell_upto a s r ?n) = {v \<in> {0..<?n}. ?cell v = (s, r)}"
      by (auto simp: cell_upto_def in_cell_def)
    finally show ?thesis by simp
  qed
  have "(\<Sum>s \<in> ?S. \<Sum>r \<in> ?R. the (FinalityCellSize a s r)) =
      (\<Sum>s \<in> ?S. \<Sum>r \<in> ?R. \<Sum>v \<in> {v \<in> {0..<?n}. ?cell v = (s, r)}. 1)"
    by (intro sum.cong refl sz)
  also have "\<dots> = (\<Sum>c \<in> ?S \<times> ?R. \<Sum>v \<in> {v \<in> {0..<?n}. ?cell v = c}. 1)"
    by (simp only: sum.cartesian_product split_def prod.collapse)
  also have "\<dots> = (\<Sum>v \<in> {0..<?n}. 1)"
  proof (rule sum.group)
    show "?cell ` {0..<?n} \<subseteq> ?S \<times> ?R"
      using subnet_nonneg [OF assms] subnet_less_rank_subnets val_round_bounds [OF assms] by auto
  qed auto
  finally show ?thesis by simp
qed

theorem FinalityCellSize_partition_witness:
  "(\<Sum>s = 0..<rank_subnets example_plan. \<Sum>r = 0..<rank_rounds example_plan.
      the (FinalityCellSize example_plan s r)) = 5"
  using FinalityCellSize_partition [OF example_plan_wf(1)] by (simp add: example_plan_def)

end
