(* ===== verification/PlanView.thy ===== *)
theory PlanView
  imports Schedule "HOL-Library.Multiset"
begin

text \<open>
  One node's slice of the plan (src/schedule/schedule.go): the duty types, \<open>View\<close>, the view
  builder \<open>Assignment.Node\<close> and its helpers \<open>finalityVoteDuties\<close> and \<open>finalityAggregations\<close>.
\<close>

section \<open>Duties and the view\<close>

record AttestDuty =
  ad_Subnet :: int
  ad_Val :: int
  ad_Position :: int

record ACVoteDuty =
  acd_Val :: int

record PTCDuty =
  ptcd_Val :: int

record View =
  v_NumColumns :: int
  v_Proposes :: "bool list"
  v_AttestDuties :: "AttestDuty list list"
  v_ACVoteDuties :: "ACVoteDuty list list"
  v_PTCDuties :: "PTCDuty list list"
  v_AggregateSubnets :: "int list list"
  v_SyncAggregateSubnets :: "int list list"
  v_FinalityVoteDuties :: "AttestDuty list list"
  v_FinalityAggregations :: "int list list"
  v_HasAggregators :: bool
  v_HasSyncAggregators :: bool
  v_HasFinalityAggregators :: bool
  v_SubscribedSubnets :: "int list"
  v_CustodyColumns :: "int list"
  v_FullCustody :: bool
  v_SyncSubnet :: int
  v_SyncMember :: bool
  v_FinalitySubnet :: int
  v_FinalityMember :: bool
  v_Subscribers :: "int list list"
  v_FinalitySubscribers :: "int list list"
  v_ValidatorsPerSubnet :: "int list"
  v_ValidatorsPerRoundSubnet :: "int list list"

text \<open>The zero value: no plan, hence cyclic proposers and no duties.\<close>

definition zero_view :: View where
  "zero_view = \<lparr>v_NumColumns = 0, v_Proposes = [], v_AttestDuties = [], v_ACVoteDuties = [],
     v_PTCDuties = [], v_AggregateSubnets = [], v_SyncAggregateSubnets = [],
     v_FinalityVoteDuties = [], v_FinalityAggregations = [], v_HasAggregators = False,
     v_HasSyncAggregators = False, v_HasFinalityAggregators = False, v_SubscribedSubnets = [],
     v_CustodyColumns = [], v_FullCustody = False, v_SyncSubnet = 0, v_SyncMember = False,
     v_FinalitySubnet = 0, v_FinalityMember = False, v_Subscribers = [],
     v_FinalitySubscribers = [], v_ValidatorsPerSubnet = [], v_ValidatorsPerRoundSubnet = []\<rparr>"

section \<open>Finality duties\<close>

text \<open>One validator of the loop: skip it, or append its duty.\<close>

definition duty_step ::
  "Assignment \<Rightarrow> int option \<Rightarrow> AttestDuty list \<Rightarrow> int \<Rightarrow> AttestDuty list option" where
  "duty_step a round out val =
     do {
       inc \<leftarrow> (case round of None \<Rightarrow> Some True
                | Some r \<Rightarrow> map_option (\<lambda>x. x = r) (go_index (a_FinalityRoundOf a) val));
       (if inc then do {
          s \<leftarrow> go_index (a_FinalitySubnetOf a) val;
          p \<leftarrow> FinalityPosition a val;
          Some (out @ [\<lparr>ad_Subnet = s, ad_Val = val, ad_Position = p\<rparr>])
        } else Some out)
     }"

definition finalityVoteDuties :: "Assignment \<Rightarrow> int \<Rightarrow> int \<Rightarrow> AttestDuty list option" where
  "finalityVoteDuties a node slot =
     do {
       round \<leftarrow> (if Segregated a
                 then (if acK a = 0 then None else Some (Some (go_mod slot (acK a))))
                 else Some None);
       vals \<leftarrow> hostedVals a node;
       foldO (duty_step a round) vals []
     }"

definition finalityAggregations :: "Assignment \<Rightarrow> int \<Rightarrow> int \<Rightarrow> int list" where
  "finalityAggregations a node slot =
     (let k = acK a in
      if k \<le> 0 then []
      else (let idx = (if Segregated a then slot else slot * k) in
            if idx < 0 \<or> int (length (a_Slots a)) \<le> idx then []
            else select_indices (\<lambda>aggs. \<exists>r \<in> set aggs. ref_Node r = node)
                   (sp_FinalityAggregators (a_Slots a ! nat idx))))"

section \<open>Assignment.Node\<close>

text \<open>The indices of the lists that hold the node, ascending, and the first of them.\<close>

definition memberships :: "int list list \<Rightarrow> int \<Rightarrow> int list" where
  "memberships xss node = select_indices (\<lambda>members. node \<in> set members) xss"

definition first_membership :: "int list list \<Rightarrow> int \<Rightarrow> int \<times> bool" where
  "first_membership xss node =
     (case memberships xss node of [] \<Rightarrow> (-1, False) | s # _ \<Rightarrow> (s, True))"

definition slot_attest_duties :: "SlotPlan \<Rightarrow> int \<Rightarrow> AttestDuty list" where
  "slot_attest_duties sp node =
     map (\<lambda>r. \<lparr>ad_Subnet = ref_Subnet r, ad_Val = ref_Val r, ad_Position = ref_Position r\<rparr>)
       (filter (\<lambda>r. ref_Node r = node) (concat (sp_Committees sp)))"

definition slot_ac_duties :: "SlotPlan \<Rightarrow> int \<Rightarrow> ACVoteDuty list" where
  "slot_ac_duties sp node =
     map (\<lambda>r. \<lparr>acd_Val = ref_Val r\<rparr>) (filter (\<lambda>r. ref_Node r = node) (sp_ACVoters sp))"

definition slot_ptc_duties :: "SlotPlan \<Rightarrow> int \<Rightarrow> PTCDuty list" where
  "slot_ptc_duties sp node =
     map (\<lambda>r. \<lparr>ptcd_Val = ref_Val r\<rparr>) (filter (\<lambda>r. ref_Node r = node) (sp_PTCVoters sp))"

definition slot_aggregate_subnets :: "SlotPlan \<Rightarrow> int \<Rightarrow> int list option" where
  "slot_aggregate_subnets sp node =
     mapO (go_index (sp_SubnetOf sp)) (memberships (sp_Aggregators sp) node)"

definition finality_rounds :: "Assignment \<Rightarrow> nat" where
  "finality_rounds a =
     (if 0 < acK a \<and> a_FinalitySubnetOf a \<noteq> []
      then (if Segregated a then length (a_Slots a)
            else nat (go_div (int (length (a_Slots a)) + acK a - 1) (acK a)))
      else 0)"

definition Node :: "Assignment \<Rightarrow> int \<Rightarrow> View option" where
  "Node a node =
     do {
       aggs \<leftarrow> mapO (\<lambda>sp. slot_aggregate_subnets sp node) (a_Slots a);
       votes \<leftarrow> mapO (\<lambda>n. finalityVoteDuties a node (int n)) [0..<finality_rounds a];
       let full = (node \<in> set (a_FullCustody a));
       Some \<lparr>v_NumColumns = a_NumColumns a,
         v_Proposes = map (\<lambda>sp. sp_Proposer sp = node) (a_Slots a),
         v_AttestDuties = map (\<lambda>sp. slot_attest_duties sp node) (a_Slots a),
         v_ACVoteDuties = map (\<lambda>sp. slot_ac_duties sp node) (a_Slots a),
         v_PTCDuties = map (\<lambda>sp. slot_ptc_duties sp node) (a_Slots a),
         v_AggregateSubnets = aggs,
         v_SyncAggregateSubnets = map (\<lambda>sp. memberships (sp_SyncAggregators sp) node) (a_Slots a),
         v_FinalityVoteDuties = votes,
         v_FinalityAggregations =
           map (\<lambda>n. finalityAggregations a node (int n)) [0..<finality_rounds a],
         v_HasAggregators = (\<exists>sp \<in> set (a_Slots a). \<exists>g \<in> set (sp_Aggregators sp). g \<noteq> []),
         v_HasSyncAggregators = (\<exists>sp \<in> set (a_Slots a). \<exists>g \<in> set (sp_SyncAggregators sp). g \<noteq> []),
         v_HasFinalityAggregators =
           (\<exists>sp \<in> set (a_Slots a). \<exists>g \<in> set (sp_FinalityAggregators sp). g \<noteq> []),
         v_SubscribedSubnets = memberships (a_SubnetSubscribers a) node,
         v_CustodyColumns =
           (if full then map int [0..<nat (a_NumColumns a)]
            else memberships (a_ColumnSubscribers a) node),
         v_FullCustody = full,
         v_SyncSubnet = fst (first_membership (a_SyncSubscribers a) node),
         v_SyncMember = snd (first_membership (a_SyncSubscribers a) node),
         v_FinalitySubnet = fst (first_membership (a_FinalitySubscribers a) node),
         v_FinalityMember = snd (first_membership (a_FinalitySubscribers a) node),
         v_Subscribers = a_SubnetSubscribers a,
         v_FinalitySubscribers = a_FinalitySubscribers a,
         v_ValidatorsPerSubnet = a_ValidatorsPerSubnet a,
         v_ValidatorsPerRoundSubnet = a_ValidatorsPerRoundSubnet a\<rparr>
     }"

section \<open>Lemmas\<close>

lemma set_memberships: "x \<in> set (memberships xss node) \<longleftrightarrow>
    0 \<le> x \<and> x < int (length xss) \<and> node \<in> set (xss ! nat x)"
  by (simp add: memberships_def set_select_indices)

lemma sorted_memberships: "sorted_wrt (<) (memberships xss node)"
  by (simp add: memberships_def sorted_select_indices)

definition duty_of :: "Assignment \<Rightarrow> int \<Rightarrow> AttestDuty" where
  "duty_of a val = \<lparr>ad_Subnet = a_FinalitySubnetOf a ! nat val, ad_Val = val,
                   ad_Position = rank_of a (nat val)\<rparr>"

definition included :: "Assignment \<Rightarrow> int option \<Rightarrow> int \<Rightarrow> bool" where
  "included a round val = (case round of None \<Rightarrow> True | Some r \<Rightarrow> a_FinalityRoundOf a ! nat val = r)"

lemma duty_step_eq:
  assumes "wf_finality a" and "0 \<le> val" and "val < int (length (a_FinalitySubnetOf a))"
    and "round \<noteq> None \<Longrightarrow> Segregated a"
  shows "duty_step a round out val =
    Some (if included a round val then out @ [duty_of a val] else out)"
proof -
  have pos: "FinalityPosition a val = Some (rank_of a (nat val))"
    using FinalityPosition_eq [OF assms(1), of "nat val"] assms(2,3) by simp
  have "val < int (length (a_FinalityRoundOf a))" if "round \<noteq> None"
    using assms that by (simp add: wf_finality_def)
  then show ?thesis
    using assms(2,3) pos by (cases round) (auto simp: duty_step_def included_def duty_of_def)
qed

lemma foldO_duty_step:
  assumes "wf_finality a" and "\<forall>v \<in> set vals. 0 \<le> v \<and> v < int (length (a_FinalitySubnetOf a))"
    and "round \<noteq> None \<Longrightarrow> Segregated a"
  shows "foldO (duty_step a round) vals out =
    Some (out @ map (duty_of a) (filter (included a round) vals))"
  using assms(2)
  by (induction vals arbitrary: out) (auto simp: duty_step_eq [OF assms(1) _ _ assms(3)])

lemma finalityVoteDuties_eq:
  assumes "wf_finality a" and "wf_hosting a" and "0 \<le> node" and "node < numNodes a" and "0 \<le> slot"
  obtains vs where "finalityVoteDuties a node slot = Some (map (duty_of a) vs)" and "distinct vs"
    and "set vs = {v. 0 \<le> v \<and> v < int (length (a_FinalitySubnetOf a)) \<and> HostOf a v = node \<and>
                     group_round a slot = Some (val_round a (nat v))}"
proof -
  let ?round = "if Segregated a then Some (go_mod slot (acK a)) else None"
  obtain vs where vs: "hostedVals a node = Some vs" "distinct vs"
    "set vs = {v. 0 \<le> v \<and> v < int (length (a_FinalitySubnetOf a)) \<and> HostOf a v = node}"
    by (rule hostedVals_HostOf [OF assms(2-4)])
  have k: "Segregated a \<Longrightarrow> 0 < acK a" using assms(1) by (simp add: wf_finality_def)
  have "foldO (duty_step a ?round) vs [] =
      Some ([] @ map (duty_of a) (filter (included a ?round) vs))"
  proof (rule foldO_duty_step [OF assms(1)])
    show "\<forall>v \<in> set vs. 0 \<le> v \<and> v < int (length (a_FinalitySubnetOf a))"
      unfolding vs(3) by blast
    show "?round \<noteq> None \<Longrightarrow> Segregated a" by (cases "Segregated a") simp_all
  qed
  then have fold: "finalityVoteDuties a node slot =
      Some (map (duty_of a) (filter (included a ?round) vs))"
    using vs(1) k by (cases "Segregated a") (simp_all add: finalityVoteDuties_def)
  have inc: "included a ?round v \<longleftrightarrow> group_round a slot = Some (val_round a (nat v))" for v
    using k assms(5) by (cases "Segregated a") (auto simp: included_def group_round_def val_round_def)
  have "set (filter (included a ?round) vs) =
      {v. 0 \<le> v \<and> v < int (length (a_FinalitySubnetOf a)) \<and> HostOf a v = node \<and>
          group_round a slot = Some (val_round a (nat v))}"
    unfolding set_filter vs(3) inc by blast
  then show ?thesis using that [OF fold] vs(2) by (simp only: distinct_filter)
qed

section \<open>Properties\<close>

text \<open>
  C28: every validator votes exactly once per round, from the node that hosts it.  For a
  well-formed plan the finality duties of a node in a round never panic, list each of its
  validators of that round once (all its validators in base mode) and nobody else's, and each
  duty carries the validator's drawn subnet and its committee position.
\<close>

theorem finalityVoteDuties_exact:
  assumes "wf_finality a" and "wf_hosting a" and "0 \<le> node" and "node < numNodes a" and "0 \<le> slot"
  shows "\<exists>ds. finalityVoteDuties a node slot = Some ds \<and> distinct (map ad_Val ds) \<and>
    (\<forall>v. v \<in> ad_Val ` set ds \<longleftrightarrow> 0 \<le> v \<and> v < int (length (a_FinalitySubnetOf a)) \<and>
         HostOf a v = node \<and> group_round a slot = Some (val_round a (nat v))) \<and>
    (\<forall>d \<in> set ds. ad_Subnet d = a_FinalitySubnetOf a ! nat (ad_Val d) \<and>
         FinalityPosition a (ad_Val d) = Some (ad_Position d))"
proof -
  obtain vs where vs: "finalityVoteDuties a node slot = Some (map (duty_of a) vs)" "distinct vs"
    "set vs = {v. 0 \<le> v \<and> v < int (length (a_FinalitySubnetOf a)) \<and> HostOf a v = node \<and>
                     group_round a slot = Some (val_round a (nat v))}"
    by (rule finalityVoteDuties_eq [OF assms])
  have val: "ad_Val (duty_of a v) = v" for v by (simp add: duty_of_def)
  have pos: "FinalityPosition a v = Some (rank_of a (nat v))" if "v \<in> set vs" for v
  proof -
    have "0 \<le> v" "v < int (length (a_FinalitySubnetOf a))" using that unfolding vs(3) by blast+
    then show ?thesis using FinalityPosition_eq [OF assms(1), of "nat v"] by simp
  qed
  have "map ad_Val (map (duty_of a) vs) = vs" by (simp add: val map_idI)
  then have "distinct (map ad_Val (map (duty_of a) vs))" using vs(2) by simp
  moreover have "ad_Val ` set (map (duty_of a) vs) = set vs" by (force simp: val)
  moreover have "\<forall>d \<in> set (map (duty_of a) vs). ad_Subnet d = a_FinalitySubnetOf a ! nat (ad_Val d) \<and>
         FinalityPosition a (ad_Val d) = Some (ad_Position d)"
    using pos by (auto simp: val duty_of_def)
  moreover have "v \<in> set vs \<longleftrightarrow> 0 \<le> v \<and> v < int (length (a_FinalitySubnetOf a)) \<and>
      HostOf a v = node \<and> group_round a slot = Some (val_round a (nat v))" for v
    unfolding vs(3) by blast
  ultimately show ?thesis using vs(1) by (intro exI [of _ "map (duty_of a) vs"]) (simp only: simp_thms)
qed

theorem finalityVoteDuties_exact_witness:
  "\<exists>ds. finalityVoteDuties example_plan 1 1 = Some ds \<and> distinct (map ad_Val ds) \<and>
        1 \<in> ad_Val ` set ds \<and> 3 \<in> ad_Val ` set ds \<and> 2 \<notin> ad_Val ` set ds"
proof -
  have n: "(1::int) < numNodes example_plan" by (simp add: numNodes_def example_plan_def)
  have h: "HostOf example_plan 1 = 1" "HostOf example_plan 3 = 1" "HostOf example_plan 2 = 0"
    by (simp_all add: HostOf_def example_plan_def)
  have r: "group_round example_plan 1 = Some (val_round example_plan (nat 1))"
    "group_round example_plan 1 = Some (val_round example_plan (nat 3))"
    by (simp_all add: group_round_def val_round_def Segregated_def example_plan_def)
  have l: "length (a_FinalitySubnetOf example_plan) = 5" by (simp add: example_plan_def)
  from finalityVoteDuties_exact [OF example_plan_wf _ n, of 1] show ?thesis
    using h r l by auto
qed

text \<open>
  The committee seats of a slot are shared out exactly.  Whatever the committees, the duties
  of the nodes \<open>0 .. N-1\<close>, each tagged with its node, are together the seats of the slot held by
  those nodes: no seat is owed twice and none is lost.
\<close>

theorem attest_duties_partition:
  "(\<Sum>n \<in># mset [0..<N]. mset (map (\<lambda>d. (int n, d)) (slot_attest_duties sp (int n)))) =
   mset (map (\<lambda>r. (ref_Node r, \<lparr>ad_Subnet = ref_Subnet r, ad_Val = ref_Val r,
                                ad_Position = ref_Position r\<rparr>))
          (filter (\<lambda>r. 0 \<le> ref_Node r \<and> ref_Node r < int N) (concat (sp_Committees sp))))"
proof -
  let ?d = "\<lambda>r. \<lparr>ad_Subnet = ref_Subnet r, ad_Val = ref_Val r, ad_Position = ref_Position r\<rparr>"
  have "(\<Sum>n \<in># mset [0..<N]. mset (map (\<lambda>d. (int n, d)) (map ?d (filter (\<lambda>r. ref_Node r = int n) rs))))
      = mset (map (\<lambda>r. (ref_Node r, ?d r)) (filter (\<lambda>r. 0 \<le> ref_Node r \<and> ref_Node r < int N) rs))"
    for rs
  proof (induction N)
    case 0
    then show ?case by simp
  next
    case (Suc N)
    have "filter_mset (\<lambda>r. 0 \<le> ref_Node r \<and> ref_Node r < int (Suc N)) (mset rs) =
        filter_mset (\<lambda>r. 0 \<le> ref_Node r \<and> ref_Node r < int N) (mset rs) +
        filter_mset (\<lambda>r. ref_Node r = int N) (mset rs)"
      by (rule multiset_eqI) (auto simp: count_filter_mset)
    moreover have "image_mset (\<lambda>r. (int N, ?d r)) (filter_mset (\<lambda>r. ref_Node r = int N) (mset rs)) =
        image_mset (\<lambda>r. (ref_Node r, ?d r)) (filter_mset (\<lambda>r. ref_Node r = int N) (mset rs))"
      by (rule image_mset_cong) auto
    ultimately show ?case using Suc by (simp add: mset_filter comp_def multiset.map_comp)
  qed
  then show ?thesis by (simp add: slot_attest_duties_def)
qed

text \<open>
  A node aggregates exactly the finality subnets with an aggregator it hosts, each once and
  in ascending order; the draw is read off the round's own slot under segregation and off the
  boundary slot in base mode.
\<close>

theorem finalityAggregations_exact:
  assumes "0 < acK a" and "0 \<le> round"
    and "idx = (if Segregated a then round else round * acK a)" and "idx < int (length (a_Slots a))"
  shows "sorted_wrt (<) (finalityAggregations a node round) \<and>
    (\<forall>s. s \<in> set (finalityAggregations a node round) \<longleftrightarrow>
       0 \<le> s \<and> s < int (length (sp_FinalityAggregators (a_Slots a ! nat idx))) \<and>
       (\<exists>r \<in> set (sp_FinalityAggregators (a_Slots a ! nat idx) ! nat s). ref_Node r = node))"
proof -
  have "0 \<le> idx" using assms by auto
  then have "finalityAggregations a node round =
      select_indices (\<lambda>aggs. \<exists>r \<in> set aggs. ref_Node r = node)
        (sp_FinalityAggregators (a_Slots a ! nat idx))"
    using assms by (simp add: finalityAggregations_def Let_def)
  then show ?thesis by (simp add: sorted_select_indices set_select_indices)
qed

theorem finalityAggregations_exact_witness:
  "sorted_wrt (<) (finalityAggregations example_plan 1 1) \<and> 1 \<in> set (finalityAggregations example_plan 1 1)"
  using finalityAggregations_exact [of example_plan 1 1 1]
  by (simp add: Segregated_def example_plan_def)

end
