(* ===== verification/Bitmap.thy ===== *)
theory Bitmap
  imports Prelude
begin

text \<open>
  The position bitmaps of the partial transport (src/node/partial.go).  The bitmap package of
  go-libp2p-pubsub is not under src/, so its four operations are a record of functions, and what
  partial.go relies on is the interface \<open>bitmap_spec\<close>: inside the width of a bitmap \<open>Set\<close> sets one
  bit, \<open>Or\<close> keeps the receiver's width and joins the bits, a zero bitmap has no bit, and a count of
  zero means no bit.  \<open>newCommitteeBitmap\<close> is the code's own.
\<close>

section \<open>Operations and their interface\<close>

record bitmap_ops =
  bm_Get :: "bytes \<Rightarrow> int \<Rightarrow> bool"
  bm_Set :: "bytes \<Rightarrow> int \<Rightarrow> bytes"
  bm_Or :: "bytes \<Rightarrow> bytes \<Rightarrow> bytes"
  bm_OnesCount :: "bytes \<Rightarrow> int"

definition newCommitteeBitmap :: "int \<Rightarrow> bytes" where
  "newCommitteeBitmap committeeSize = replicate (nat (go_div (committeeSize + 7) 8)) 0"

abbreviation bits :: "bytes \<Rightarrow> int" where
  "bits b \<equiv> 8 * int (length b)"

lemma bits_newCommitteeBitmap:
  assumes "0 \<le> n"
  shows "n \<le> bits (newCommitteeBitmap n)"
proof -
  have "go_div (n + 7) 8 = (n + 7) div 8" using assms by (simp add: go_div_def)
  moreover have "0 \<le> (n + 7) div 8" "n \<le> 8 * ((n + 7) div 8)" using assms by linarith+
  ultimately show ?thesis by (simp add: newCommitteeBitmap_def)
qed

locale bitmap_spec =
  fixes gt :: "bytes \<Rightarrow> int \<Rightarrow> bool" and st :: "bytes \<Rightarrow> int \<Rightarrow> bytes"
    and jn :: "bytes \<Rightarrow> bytes \<Rightarrow> bytes" and cnt :: "bytes \<Rightarrow> int"
  assumes length_st: "0 \<le> p \<Longrightarrow> p < bits b \<Longrightarrow> length (st b p) = length b"
    and gt_st: "0 \<le> p \<Longrightarrow> p < bits b \<Longrightarrow> 0 \<le> q \<Longrightarrow> q < bits b \<Longrightarrow> gt (st b p) q \<longleftrightarrow> q = p \<or> gt b q"
    and length_jn: "length (jn a b) = length a"
    and gt_jn: "0 \<le> q \<Longrightarrow> q < bits a \<Longrightarrow> gt (jn a b) q \<longleftrightarrow> gt a q \<or> q < bits b \<and> gt b q"
    and gt_zero: "\<not> gt (replicate n 0) q"
    and cnt_zero: "cnt b \<le> 0 \<Longrightarrow> \<not> gt b q"
begin

lemma length_st_list:
  "\<forall>p \<in> set ps. 0 \<le> p \<and> p < bits b \<Longrightarrow> length (foldl st b ps) = length b"
  by (induction ps arbitrary: b) (auto simp: length_st)

lemma gt_st_list:
  "\<forall>p \<in> set ps. 0 \<le> p \<and> p < bits b \<Longrightarrow> 0 \<le> q \<Longrightarrow> q < bits b \<Longrightarrow>
     gt (foldl st b ps) q \<longleftrightarrow> q \<in> set ps \<or> gt b q"
proof (induction ps arbitrary: b)
  case (Cons p ps)
  then have "length (st b p) = length b" by (simp add: length_st)
  with Cons show ?case by (auto simp: gt_st)
qed simp

lemma gt_new: "\<not> gt (newCommitteeBitmap n) q"
  by (simp add: newCommitteeBitmap_def gt_zero)

text \<open>A bitmap built from a list of positions holds exactly them.\<close>

lemma gt_marks:
  "0 \<le> n \<Longrightarrow> \<forall>p \<in> set ps. 0 \<le> p \<and> p < n \<Longrightarrow> 0 \<le> q \<Longrightarrow> q < n \<Longrightarrow>
     gt (foldl st (newCommitteeBitmap n) ps) q \<longleftrightarrow> q \<in> set ps"
  using bits_newCommitteeBitmap [of n] gt_st_list [of ps "newCommitteeBitmap n" q]
  by (force simp: gt_new)

lemma length_marks:
  "0 \<le> n \<Longrightarrow> \<forall>p \<in> set ps. 0 \<le> p \<and> p < n \<Longrightarrow>
     length (foldl st (newCommitteeBitmap n) ps) = length (newCommitteeBitmap n)"
  using bits_newCommitteeBitmap [of n] by (intro length_st_list) force

end

text \<open>What a property asks of the bitmap package it runs on.\<close>

definition bitmap_ok :: "bitmap_ops \<Rightarrow> bool" where
  "bitmap_ok B \<longleftrightarrow> bitmap_spec (bm_Get B) (bm_Set B) (bm_Or B) (bm_OnesCount B)"

section \<open>An instance: bit \<open>i mod 8\<close> of byte \<open>i div 8\<close>\<close>

definition byte_get :: "bytes \<Rightarrow> int \<Rightarrow> bool" where
  "byte_get b i \<longleftrightarrow> 0 \<le> i \<and> i < bits b \<and> bit (b ! nat (i div 8)) (nat (i mod 8))"

definition byte_set :: "bytes \<Rightarrow> int \<Rightarrow> bytes" where
  "byte_set b i = (let k = nat (i div 8) in b[k := set_bit (nat (i mod 8)) (b ! k)])"

definition byte_or :: "bytes \<Rightarrow> bytes \<Rightarrow> bytes" where
  "byte_or a b = map (\<lambda>(x, y). or x y) (zip a b) @ drop (length b) a"

definition byte_count :: "bytes \<Rightarrow> int" where
  "byte_count b = int (sum_list (map (\<lambda>w. length (filter (bit w) [0..<8])) b))"

lemma length_byte_set: "length (byte_set b i) = length b"
  by (simp add: byte_set_def Let_def)

lemma byte_index: "0 \<le> q \<Longrightarrow> q < bits b \<Longrightarrow> nat (q div 8) < length b"
  by simp

lemma byte_get_set:
  assumes "0 \<le> p" "p < bits b" "0 \<le> q" "q < bits b"
  shows "byte_get (byte_set b p) q \<longleftrightarrow> q = p \<or> byte_get b q"
proof (cases "q div 8 = p div 8")
  case True
  have "q = p \<longleftrightarrow> q mod 8 = p mod 8" using True by (metis mult_div_mod_eq)
  then have same: "nat (p mod 8) = nat (q mod 8) \<longleftrightarrow> q = p" by auto
  have "nat (q mod 8) < 8" by simp
  with True same show ?thesis
    using assms byte_index [OF assms(3,4)]
    by (auto simp: byte_get_def length_byte_set byte_set_def Let_def bit_set_bit_iff)
next
  case False
  then have "q \<noteq> p" "nat (q div 8) \<noteq> nat (p div 8)" using assms by auto
  then show ?thesis using assms
    by (simp add: byte_get_def length_byte_set) (simp add: byte_set_def Let_def)
qed

lemma length_byte_or: "length (byte_or a b) = length a"
  by (simp add: byte_or_def)

lemma byte_get_or:
  assumes "0 \<le> q" "q < bits a"
  shows "byte_get (byte_or a b) q \<longleftrightarrow> byte_get a q \<or> q < bits b \<and> byte_get b q"
proof -
  let ?k = "nat (q div 8)"
  have k: "?k < length a" using assms by simp
  have b: "?k < length b \<longleftrightarrow> q < bits b" using assms by linarith
  have "byte_or a b ! ?k = (if ?k < length b then or (a ! ?k) (b ! ?k) else a ! ?k)"
    using k by (simp add: byte_or_def nth_append)
  then show ?thesis using assms b by (auto simp: byte_get_def length_byte_or bit_or_iff)
qed

lemma byte_get_zero: "\<not> byte_get (replicate n 0) q"
  by (auto simp: byte_get_def)

lemma byte_count_zero:
  assumes "byte_count b \<le> 0" shows "\<not> byte_get b q"
proof
  assume g: "byte_get b q"
  then have k: "b ! nat (q div 8) \<in> set b" by (auto simp: byte_get_def)
  have "nat (q mod 8) \<in> set (filter (bit (b ! nat (q div 8))) [0..<8])"
    using g by (auto simp: byte_get_def)
  then have "0 < length (filter (bit (b ! nat (q div 8))) [0..<8])"
    by (metis length_pos_if_in_set)
  moreover have "length (filter (bit (b ! nat (q div 8))) [0..<8]) \<le>
      sum_list (map (\<lambda>w. length (filter (bit w) [0..<8])) b)"
    using k by (intro member_le_sum_list) auto
  ultimately show False using assms unfolding byte_count_def by linarith
qed

definition byte_bitmaps :: bitmap_ops where
  "byte_bitmaps = \<lparr>bm_Get = byte_get, bm_Set = byte_set, bm_Or = byte_or, bm_OnesCount = byte_count\<rparr>"

interpretation byte_bm: bitmap_spec byte_get byte_set byte_or byte_count
  by unfold_locales
    (simp_all add: length_byte_set byte_get_set length_byte_or byte_get_or byte_get_zero byte_count_zero)

lemma byte_bitmaps_ok: "bitmap_ok byte_bitmaps"
  unfolding bitmap_ok_def byte_bitmaps_def by (simp add: byte_bm.bitmap_spec_axioms)

end
