(* ===== verification/PartialBucket.thy ===== *)
theory PartialBucket
  imports Bitmap Wire
begin

text \<open>
  One (topic, group, attestation data) bucket of the partial transport (src/node/partial.go): its
  state, what it stores, what it sends to one peer and what it asks of the gossip peers.

  A Go map with values is a partial function, a \<open>map[int]struct{}\<close> a set, a counter map a
  function with the zero value as default.  A \<open>range\<close> over a map whose result is sorted afterwards
  is the sorted list; one whose order can be seen takes the order as an argument.  A pointer to a
  peer's state is looked up and written back.  \<open>None\<close> is a nil dereference.
\<close>

section \<open>State\<close>

record partialEntry =
  pe_Position :: int
  pe_Signature :: bytes

record bucketPeerState =
  available :: bytes
  pendingWant :: bytes

record partialBucket =
  bk_data :: bytes
  attestations :: "int \<rightharpoonup> partialEntry"
  validating :: "int set"
  validated :: "int set"
  sendCount :: "int \<Rightarrow> int"
  requestCount :: "int \<Rightarrow> int"
  peers :: "string \<rightharpoonup> bucketPeerState"

record partialPeerState =
  gossipPeer :: bool
  sendAvailableList :: bool

record BatchedAttestation =
  ba_AttestationData :: bytes
  ba_AttestorIndices :: "u32 list"
  ba_Signatures :: "bytes list"

record PartsMetadata =
  md_Slot :: u32
  md_AttestationData :: bytes
  md_Available :: bytes
  md_Requests :: bytes

definition newPartialBucket :: "bytes \<Rightarrow> partialBucket" where
  "newPartialBucket data = \<lparr>bk_data = data, attestations = Map.empty, validating = {},
     validated = {}, sendCount = (\<lambda>_. 0), requestCount = (\<lambda>_. 0), peers = Map.empty\<rparr>"

definition zero_peer_state :: partialPeerState where
  "zero_peer_state = \<lparr>gossipPeer = False, sendAvailableList = False\<rparr>"

section \<open>Operations\<close>

definition new_peer :: "int \<Rightarrow> bucketPeerState" where
  "new_peer committeeSize = \<lparr>available = newCommitteeBitmap committeeSize,
                             pendingWant = newCommitteeBitmap committeeSize\<rparr>"

definition peer_of :: "partialBucket \<Rightarrow> string \<Rightarrow> int \<Rightarrow> bucketPeerState \<times> partialBucket" where
  "peer_of b p committeeSize =
     (case peers b p of
        Some s \<Rightarrow> (s, b)
      | None \<Rightarrow> (new_peer committeeSize, b\<lparr>peers := (peers b)(p \<mapsto> new_peer committeeSize)\<rparr>))"

definition set_peer :: "string \<Rightarrow> bucketPeerState \<Rightarrow> partialBucket \<Rightarrow> partialBucket" where
  "set_peer p s b = b\<lparr>peers := (peers b)(p \<mapsto> s)\<rparr>"

text \<open>
  \<open>addReceived\<close> walks positions and signatures together; a signature list that is too short
  panics, which its only caller rules out first.
\<close>

fun addReceived ::
  "partialBucket \<Rightarrow> int list \<Rightarrow> bytes list \<Rightarrow> int list \<Rightarrow> (int list \<times> partialBucket) option" where
  "addReceived b [] sigs fresh = Some (fresh, b)"
| "addReceived b (pos # ps) sigs fresh =
     (if attestations b pos \<noteq> None then addReceived b ps (tl sigs) fresh
      else case sigs of
        [] \<Rightarrow> None
      | sg # rest \<Rightarrow>
          addReceived
            (b\<lparr>attestations := (attestations b)(pos \<mapsto> \<lparr>pe_Position = pos, pe_Signature = sg\<rparr>),
               validating := insert pos (validating b)\<rparr>)
            ps rest (fresh @ [pos]))"

definition storeLocal :: "partialBucket \<Rightarrow> int \<Rightarrow> bytes \<Rightarrow> partialBucket" where
  "storeLocal b position sg =
     (if attestations b position \<noteq> None then b
      else b\<lparr>attestations := (attestations b)(position \<mapsto> \<lparr>pe_Position = position, pe_Signature = sg\<rparr>),
             validated := insert position (validated b)\<rparr>)"

text \<open>The positions a peer is to be sent, and the bookkeeping of the claim.\<close>

definition claimable :: "bitmap_ops \<Rightarrow> int \<Rightarrow> partialBucket \<Rightarrow> bucketPeerState \<Rightarrow> bool \<Rightarrow> int \<Rightarrow> bool" where
  "claimable B maxPeers b bps gossip pos \<longleftrightarrow>
     sendCount b pos < maxPeers \<and> \<not> bm_Get B (available bps) pos \<and>
     (gossip \<longrightarrow> bm_Get B (pendingWant bps) pos)"

definition claimToSend ::
  "bitmap_ops \<Rightarrow> int \<Rightarrow> partialBucket \<Rightarrow> bucketPeerState \<Rightarrow> bool \<Rightarrow>
     int list \<times> partialBucket \<times> bucketPeerState" where
  "claimToSend B maxPeers b bps gossip =
     (if gossip \<and> bm_OnesCount B (pendingWant bps) \<le> 0 then ([], b, bps)
      else (let claimed = filter (claimable B maxPeers b bps gossip) (sorted_list_of_set (validated b))
            in (claimed,
                b\<lparr>sendCount := foldl (\<lambda>n pos. n(pos := n pos + 1)) (sendCount b) claimed\<rparr>,
                bps\<lparr>available := foldl (bm_Set B) (available bps) claimed\<rparr>)))"

text \<open>One position of the inner loop of \<open>selectIWantTargets\<close>, one peer of the outer one.\<close>

definition iwant_pos ::
  "bitmap_ops \<Rightarrow> int \<Rightarrow> bucketPeerState \<Rightarrow> partialBucket \<times> int list \<Rightarrow> int \<Rightarrow> partialBucket \<times> int list" where
  "iwant_pos B maxIWant bps = (\<lambda>(b, out) pos.
     if \<not> bm_Get B (available bps) pos \<or> attestations b pos \<noteq> None \<or> maxIWant \<le> requestCount b pos
     then (b, out)
     else (b\<lparr>requestCount := (requestCount b)(pos := requestCount b pos + 1)\<rparr>, out @ [pos]))"

definition iwant_peer ::
  "bitmap_ops \<Rightarrow> int \<Rightarrow> int \<Rightarrow> (string \<rightharpoonup> partialPeerState) \<Rightarrow>
     partialBucket \<times> (string \<Rightarrow> int list) \<Rightarrow> string \<Rightarrow> partialBucket \<times> (string \<Rightarrow> int list)" where
  "iwant_peer B maxIWant committeeSize peerStates = (\<lambda>(b, want) p.
     case peerStates p of
       None \<Rightarrow> (b, want)
     | Some ps \<Rightarrow>
         if \<not> gossipPeer ps then (b, want)
         else (let (bps, b1) = peer_of b p committeeSize;
                   (b2, out) = foldl (iwant_pos B maxIWant bps) (b1, []) [0..committeeSize - 1]
               in (b2, want(p := sort out))))"

definition selectIWantTargets ::
  "bitmap_ops \<Rightarrow> int \<Rightarrow> int \<Rightarrow> string list \<Rightarrow> (string \<rightharpoonup> partialPeerState) \<Rightarrow> partialBucket \<Rightarrow>
     partialBucket \<times> (string \<Rightarrow> int list)" where
  "selectIWantTargets B maxIWant committeeSize order peerStates b =
     foldl (iwant_peer B maxIWant committeeSize peerStates) (b, \<lambda>_. []) order"

definition bucketMetadata ::
  "bitmap_ops \<Rightarrow> int \<Rightarrow> partialBucket \<Rightarrow> int \<Rightarrow> int list \<Rightarrow> bool \<Rightarrow> PartsMetadata option" where
  "bucketMetadata B committeeSize b grp wantList includeAvailable =
     (let avail = (if includeAvailable \<and> validated b \<noteq> {}
                   then foldl (bm_Set B) (newCommitteeBitmap committeeSize) (sorted_list_of_set (validated b))
                   else []);
          req = (if wantList \<noteq> [] then foldl (bm_Set B) (newCommitteeBitmap committeeSize) wantList
                 else [])
      in if avail = [] \<and> req = [] then None
         else Some \<lparr>md_Slot = u32 grp, md_AttestationData = bk_data b,
                    md_Available = avail, md_Requests = req\<rparr>)"

definition encodeBatch :: "partialBucket \<Rightarrow> int list \<Rightarrow> BatchedAttestation option" where
  "encodeBatch b positions =
     do {
       sigs \<leftarrow> mapO (\<lambda>pos. map_option pe_Signature (attestations b pos)) positions;
       Some \<lparr>ba_AttestationData = bk_data b, ba_AttestorIndices = map u32 positions,
             ba_Signatures = sigs\<rparr>
     }"

text \<open>The verifier callback's loop: promote what is still validating.\<close>

definition promote_pos :: "partialBucket \<times> int list \<Rightarrow> int \<Rightarrow> partialBucket \<times> int list" where
  "promote_pos = (\<lambda>(b, promoted) pos.
     if pos \<notin> validating b then (b, promoted)
     else (b\<lparr>validating := validating b - {pos}, validated := insert pos (validated b)\<rparr>,
           promoted @ [pos]))"

definition promote :: "partialBucket \<Rightarrow> int list \<Rightarrow> partialBucket \<times> int list" where
  "promote b positions = foldl promote_pos (b, []) positions"

section \<open>The bucket invariant\<close>

text \<open>
  Every held vote is either in the verifier or validated, never both; positions lie inside the
  committee; the forward and request counters respect their caps and only a validated vote has
  been sent; the bitmaps of every peer have the committee's width.
\<close>

definition width_ok :: "int \<Rightarrow> bucketPeerState \<Rightarrow> bool" where
  "width_ok n s \<longleftrightarrow> length (available s) = length (newCommitteeBitmap n) \<and>
                   length (pendingWant s) = length (newCommitteeBitmap n)"

definition bucket_inv :: "int \<Rightarrow> int \<Rightarrow> int \<Rightarrow> partialBucket \<Rightarrow> bool" where
  "bucket_inv maxPeers maxIWant n b \<longleftrightarrow>
     0 \<le> n \<and>
     validating b \<inter> validated b = {} \<and> validating b \<union> validated b = dom (attestations b) \<and>
     (\<forall>pos e. attestations b pos = Some e \<longrightarrow> pe_Position e = pos \<and> 0 \<le> pos \<and> pos < n) \<and>
     (\<forall>pos. 0 \<le> sendCount b pos \<and> sendCount b pos \<le> maxPeers \<and>
            (0 < sendCount b pos \<longrightarrow> pos \<in> validated b)) \<and>
     (\<forall>pos. 0 \<le> requestCount b pos \<and> requestCount b pos \<le> maxIWant) \<and>
     (\<forall>p s. peers b p = Some s \<longrightarrow> width_ok n s)"

lemma bucket_inv_held:
  "bucket_inv mp mi n b \<Longrightarrow> pos \<in> dom (attestations b) \<Longrightarrow> 0 \<le> pos \<and> pos < n"
  unfolding bucket_inv_def by blast

lemma bucket_inv_validated:
  "bucket_inv mp mi n b \<Longrightarrow> pos \<in> validated b \<Longrightarrow> pos \<in> dom (attestations b) \<and> 0 \<le> pos \<and> pos < n"
  unfolding bucket_inv_def by blast

lemma bucket_inv_peers: "bucket_inv mp mi n b \<Longrightarrow> peers b p = Some s \<Longrightarrow> width_ok n s"
  unfolding bucket_inv_def by blast

lemma bucket_inv_finite:
  assumes "bucket_inv mp mi n b"
  shows "finite (validated b)" "finite (validating b)"
proof -
  have "validated b \<union> validating b \<subseteq> {0..<n}"
    using assms bucket_inv_held [OF assms] unfolding bucket_inv_def by fastforce
  then show "finite (validated b)" "finite (validating b)"
    by (auto intro: finite_subset)
qed

lemma width_ok_new [simp]: "width_ok n (new_peer n)"
  by (simp add: width_ok_def new_peer_def)

lemma bucket_inv_new [inv_intros]: "0 \<le> n \<Longrightarrow> 0 \<le> mp \<Longrightarrow> 0 \<le> mi \<Longrightarrow> bucket_inv mp mi n (newPartialBucket data)"
  by (simp add: bucket_inv_def newPartialBucket_def)

lemma bucket_inv_set_peer [inv_intros]:
  "bucket_inv mp mi n b \<Longrightarrow> width_ok n s \<Longrightarrow> bucket_inv mp mi n (set_peer p s b)"
  by (simp add: bucket_inv_def set_peer_def)

text \<open>Looking a peer up either finds it or creates it; the rest of the bucket is untouched.\<close>

lemma peer_of_eq:
  "peer_of b p n = (fst (peer_of b p n), set_peer p (fst (peer_of b p n)) b)"
  by (auto simp: peer_of_def set_peer_def fun_upd_idem split: option.split)

lemma peer_of_inv:
  assumes "bucket_inv mp mi n b" and "peer_of b p n = (s, b')"
  shows "bucket_inv mp mi n b'" and "width_ok n s" and "peers b' p = Some s"
    and "b' = set_peer p s b"
proof -
  show w: "width_ok n s"
    using assms bucket_inv_peers [OF assms(1)] by (auto simp: peer_of_def split: option.splits)
  show b: "b' = set_peer p s b" using assms(2) peer_of_eq [of b p n] by simp
  show "bucket_inv mp mi n b'" unfolding b by (rule bucket_inv_set_peer [OF assms(1) w])
  show "peers b' p = Some s" by (simp add: b set_peer_def)
qed

lemma set_peer_frame [simp]:
  "bk_data (set_peer p s b) = bk_data b" "attestations (set_peer p s b) = attestations b"
  "validating (set_peer p s b) = validating b" "validated (set_peer p s b) = validated b"
  "sendCount (set_peer p s b) = sendCount b" "requestCount (set_peer p s b) = requestCount b"
  by (simp_all add: set_peer_def)

section \<open>Receiving and promoting\<close>

lemma addReceived_exact:
  assumes "length ps \<le> length sigs"
  shows "\<exists>new b'. addReceived b ps sigs acc = Some (acc @ new, b') \<and> distinct new \<and>
    set new = set ps - dom (attestations b) \<and> validating b' = validating b \<union> set new \<and>
    dom (attestations b') = dom (attestations b) \<union> set new \<and>
    (\<forall>pos. pos \<in> dom (attestations b) \<longrightarrow> attestations b' pos = attestations b pos) \<and>
    (\<forall>pos e. attestations b' pos = Some e \<longrightarrow> attestations b pos = Some e \<or> pe_Position e = pos) \<and>
    validated b' = validated b \<and> sendCount b' = sendCount b \<and>
    requestCount b' = requestCount b \<and> peers b' = peers b \<and> bk_data b' = bk_data b"
  using assms
proof (induction ps arbitrary: b sigs acc)
  case Nil
  then show ?case by simp
next
  case (Cons pos ps)
  obtain sg rest where sigs: "sigs = sg # rest" using Cons.prems by (cases sigs) auto
  then have le: "length ps \<le> length rest" using Cons.prems by simp
  show ?case
  proof (cases "attestations b pos")
    case (Some e)
    then show ?thesis using Cons.IH [OF le, of b acc] sigs by (auto simp: insert_absorb domI)
  next
    case None
    let ?b = "b\<lparr>attestations := (attestations b)(pos \<mapsto> \<lparr>pe_Position = pos, pe_Signature = sg\<rparr>),
               validating := insert pos (validating b)\<rparr>"
    from Cons.IH [OF le, of ?b "acc @ [pos]"] obtain new b' where
      h: "addReceived ?b ps rest (acc @ [pos]) = Some ((acc @ [pos]) @ new, b')" "distinct new"
        "set new = set ps - dom (attestations ?b)" "validating b' = validating ?b \<union> set new"
        "dom (attestations b') = dom (attestations ?b) \<union> set new"
        "\<forall>q. q \<in> dom (attestations ?b) \<longrightarrow> attestations b' q = attestations ?b q"
        "\<forall>q e. attestations b' q = Some e \<longrightarrow> attestations ?b q = Some e \<or> pe_Position e = q"
        "validated b' = validated ?b" "sendCount b' = sendCount ?b"
        "requestCount b' = requestCount ?b" "peers b' = peers ?b" "bk_data b' = bk_data ?b"
      by blast
    have "addReceived b (pos # ps) sigs acc = Some (acc @ (pos # new), b')"
      using h(1) None sigs by simp
    moreover have "distinct (pos # new)" using h(2,3) by simp
    moreover have "set (pos # new) = set (pos # ps) - dom (attestations b)"
      using h(3) None by auto
    moreover have "validating b' = validating b \<union> set (pos # new)" using h(4) by auto
    moreover have "dom (attestations b') = dom (attestations b) \<union> set (pos # new)" using h(5) by auto
    moreover have "\<forall>q. q \<in> dom (attestations b) \<longrightarrow> attestations b' q = attestations b q"
      using h(6) None by auto
    moreover have "\<forall>q e. attestations b' q = Some e \<longrightarrow> attestations b q = Some e \<or> pe_Position e = q"
    proof (intro allI impI)
      fix q e assume "attestations b' q = Some e"
      with h(7) have "attestations ?b q = Some e \<or> pe_Position e = q" by blast
      then show "attestations b q = Some e \<or> pe_Position e = q" by (cases "q = pos") auto
    qed
    ultimately show ?thesis using h(8-12) by auto
  qed
qed

lemma addReceived_inv:
  assumes "bucket_inv mp mi n b" and "length ps \<le> length sigs" and "\<forall>pos \<in> set ps. 0 \<le> pos \<and> pos < n"
    and "addReceived b ps sigs [] = Some (new, b')"
  shows "bucket_inv mp mi n b'" and "distinct new" and "set new = set ps - dom (attestations b)"
    and "validating b' = validating b \<union> set new" and "validated b' = validated b"
    and "set new \<inter> validating b = {}" and "peers b' = peers b" and "bk_data b' = bk_data b"
    and "sendCount b' = sendCount b"
proof -
  from addReceived_exact [OF assms(2), of b "[]"] assms(4)
  have h: "distinct new" "set new = set ps - dom (attestations b)"
    "validating b' = validating b \<union> set new"
    "dom (attestations b') = dom (attestations b) \<union> set new"
    "\<forall>pos e. attestations b' pos = Some e \<longrightarrow> attestations b pos = Some e \<or> pe_Position e = pos"
    "validated b' = validated b" "sendCount b' = sendCount b"
    "requestCount b' = requestCount b" "peers b' = peers b" "bk_data b' = bk_data b"
    by auto
  have pos: "pe_Position e = q \<and> 0 \<le> q \<and> q < n" if "attestations b' q = Some e" for q e
  proof -
    have "q \<in> dom (attestations b) \<union> set new" using that h(4) by blast
    then have "0 \<le> q \<and> q < n" using assms(3) h(2) bucket_inv_held [OF assms(1)] by blast
    moreover have "pe_Position e = q"
      using h(5) that assms(1) unfolding bucket_inv_def by blast
    ultimately show ?thesis by blast
  qed
  show "set new \<inter> validating b = {}"
    using h(2) assms(1) unfolding bucket_inv_def by blast
  show "bucket_inv mp mi n b'"
    using assms(1) h(2-4,6-9) pos unfolding bucket_inv_def by auto
qed (use addReceived_exact [OF assms(2), of b "[]"] assms(4) in auto)

lemma storeLocal_inv [inv_intros]:
  assumes "bucket_inv mp mi n b" and "0 \<le> pos" and "pos < n"
  shows "bucket_inv mp mi n (storeLocal b pos sg)"
  using assms unfolding bucket_inv_def storeLocal_def by auto

lemma promote_exact:
  "\<exists>b' new. foldl promote_pos (b, acc) ps = (b', acc @ new) \<and> distinct new \<and>
     set new = set ps \<inter> validating b \<and> validating b' = validating b - set ps \<and>
     validated b' = validated b \<union> set new \<and> attestations b' = attestations b \<and>
     sendCount b' = sendCount b \<and> requestCount b' = requestCount b \<and> peers b' = peers b \<and>
     bk_data b' = bk_data b"
proof (induction ps arbitrary: b acc)
  case Nil
  then show ?case by simp
next
  case (Cons pos ps)
  show ?case
  proof (cases "pos \<in> validating b")
    case False
    then show ?thesis using Cons.IH [of b acc] by (auto simp: promote_pos_def)
  next
    case True
    let ?b = "b\<lparr>validating := validating b - {pos}, validated := insert pos (validated b)\<rparr>"
    from Cons.IH [of ?b "acc @ [pos]"] obtain b' new where
      h: "foldl promote_pos (?b, acc @ [pos]) ps = (b', (acc @ [pos]) @ new)" "distinct new"
        "set new = set ps \<inter> validating ?b" "validating b' = validating ?b - set ps"
        "validated b' = validated ?b \<union> set new" "attestations b' = attestations ?b"
        "sendCount b' = sendCount ?b" "requestCount b' = requestCount ?b" "peers b' = peers ?b"
        "bk_data b' = bk_data ?b"
      by blast
    have "foldl promote_pos (b, acc) (pos # ps) = (b', acc @ (pos # new))"
      using h(1) True by (simp add: promote_pos_def)
    moreover have "distinct (pos # new)" "set (pos # new) = set (pos # ps) \<inter> validating b"
      "validating b' = validating b - set (pos # ps)" "validated b' = validated b \<union> set (pos # new)"
      using h(2-5) True by auto
    ultimately show ?thesis using h(6-10) by auto
  qed
qed

lemma promote_inv:
  assumes "bucket_inv mp mi n b" and "promote b ps = (b', new)"
  shows "bucket_inv mp mi n b'" and "distinct new" and "set new = set ps \<inter> validating b"
    and "validating b' = validating b - set ps" and "validated b' = validated b \<union> set new"
    and "bk_data b' = bk_data b" and "peers b' = peers b" and "sendCount b' = sendCount b"
proof -
  from promote_exact [of b "[]" ps] assms(2)
  have h: "distinct new" "set new = set ps \<inter> validating b" "validating b' = validating b - set ps"
    "validated b' = validated b \<union> set new" "attestations b' = attestations b"
    "sendCount b' = sendCount b" "requestCount b' = requestCount b" "peers b' = peers b"
    by (auto simp: promote_def)
  show "bucket_inv mp mi n b'"
    using assms(1) h(2-8) unfolding bucket_inv_def by auto
qed (use promote_exact [of b "[]" ps] assms(2) in \<open>auto simp: promote_def\<close>)

section \<open>Claiming what to send\<close>

lemma bump_counts:
  "distinct ps \<Longrightarrow> foldl (\<lambda>n pos. n(pos := n pos + 1)) f ps q = f q + (if q \<in> set ps then 1 else 0)"
  for f :: "int \<Rightarrow> int"
  by (induction ps arbitrary: f) auto

text \<open>
  What a claim does under the bitmap contract: it lists, in order, exactly the validated positions
  that are under the cap, that the peer lacks and (for a gossip peer) asked for; it marks exactly
  them as the peer's and counts each once.
\<close>

lemma claimToSend_exact:
  assumes "bitmap_ok B" and "bucket_inv mp mi n b" and "width_ok n bps"
    and "claimToSend B mp b bps g = (ps, b', bps')"
  shows "sorted ps" and "distinct ps"
    and "set ps = {pos \<in> validated b. claimable B mp b bps g pos}"
    and "attestations b' = attestations b \<and> validating b' = validating b \<and> validated b' = validated b \<and>
         requestCount b' = requestCount b \<and> peers b' = peers b \<and> bk_data b' = bk_data b"
    and "sendCount b' q = sendCount b q + (if q \<in> set ps then 1 else 0)"
    and "width_ok n bps'" and "pendingWant bps' = pendingWant bps"
    and "0 \<le> q \<Longrightarrow> q < n \<Longrightarrow> bm_Get B (available bps') q \<longleftrightarrow> q \<in> set ps \<or> bm_Get B (available bps) q"
proof -
  note bm = assms(1) [unfolded bitmap_ok_def]
  have n: "0 \<le> n" using assms(2) by (simp add: bucket_inv_def)
  note fin = bucket_inv_finite(1) [OF assms(2)]
  have ps: "ps = (if g \<and> bm_OnesCount B (pendingWant bps) \<le> 0 then []
             else filter (claimable B mp b bps g) (sorted_list_of_set (validated b)))"
    and b': "b' = (if g \<and> bm_OnesCount B (pendingWant bps) \<le> 0 then b
             else b\<lparr>sendCount := foldl (\<lambda>n pos. n(pos := n pos + 1)) (sendCount b) ps\<rparr>)"
    and bps': "bps' = (if g \<and> bm_OnesCount B (pendingWant bps) \<le> 0 then bps
             else bps\<lparr>available := foldl (bm_Set B) (available bps) ps\<rparr>)"
    using assms(4) by (auto simp: claimToSend_def Let_def split: if_splits)
  show "sorted ps" "distinct ps" by (auto simp: ps sorted_wrt_filter)
  then have dist: "distinct ps" by simp
  have none: "\<not> claimable B mp b bps g pos" if "g \<and> bm_OnesCount B (pendingWant bps) \<le> 0" for pos
    using bitmap_spec.cnt_zero [OF bm] that by (auto simp: claimable_def)
  show set: "set ps = {pos \<in> validated b. claimable B mp b bps g pos}"
    using none fin by (auto simp: ps)
  show "attestations b' = attestations b \<and> validating b' = validating b \<and> validated b' = validated b \<and>
        requestCount b' = requestCount b \<and> peers b' = peers b \<and> bk_data b' = bk_data b"
    by (simp add: b')
  show "sendCount b' q = sendCount b q + (if q \<in> set ps then 1 else 0)"
    using bump_counts [OF dist] ps by (simp add: b')
  have wid: "length (available bps) = length (newCommitteeBitmap n)"
    using assms(3) by (simp add: width_ok_def)
  have inr: "\<forall>pos \<in> set ps. 0 \<le> pos \<and> pos < bits (available bps)"
    using set bucket_inv_validated [OF assms(2)] bits_newCommitteeBitmap [OF n] wid by fastforce
  show "width_ok n bps'"
    using assms(3) bitmap_spec.length_st_list [OF bm inr] by (simp add: bps' width_ok_def)
  show "pendingWant bps' = pendingWant bps" by (simp add: bps')
  assume q: "0 \<le> q" "q < n"
  then have "q < bits (available bps)" using bits_newCommitteeBitmap [OF n] wid by simp
  then show "bm_Get B (available bps') q \<longleftrightarrow> q \<in> set ps \<or> bm_Get B (available bps) q"
    using bitmap_spec.gt_st_list [OF bm inr q(1)] ps by (auto simp: bps')
qed

lemma claimToSend_inv:
  assumes "bitmap_ok B" and "bucket_inv mp mi n b" and "width_ok n bps"
    and "claimToSend B mp b bps g = (ps, b', bps')"
  shows "bucket_inv mp mi n b'"
proof -
  note ex = claimToSend_exact [OF assms]
  have cnt: "0 \<le> sendCount b' q \<and> sendCount b' q \<le> mp \<and> (0 < sendCount b' q \<longrightarrow> q \<in> validated b)" for q
    using ex(3) ex(5) [of q] assms(2) unfolding bucket_inv_def
    by (cases "q \<in> set ps") (auto simp: claimable_def)
  show ?thesis
    using assms(2) cnt ex(4) unfolding bucket_inv_def by simp
qed

section \<open>Asking gossip peers\<close>

text \<open>What the selection changes: the request counters, upwards and up to the cap; peers appear.\<close>

definition asked :: "int \<Rightarrow> int \<Rightarrow> partialBucket \<Rightarrow> partialBucket \<Rightarrow> bool" where
  "asked mi n b b' \<longleftrightarrow>
     attestations b' = attestations b \<and> validating b' = validating b \<and> validated b' = validated b \<and>
     sendCount b' = sendCount b \<and> bk_data b' = bk_data b \<and>
     (\<forall>p s. peers b p = Some s \<longrightarrow> peers b' p = Some s) \<and>
     (\<forall>p s. peers b' p = Some s \<longrightarrow> peers b p = Some s \<or> peers b p = None \<and> s = new_peer n) \<and>
     (\<forall>q. requestCount b q \<le> requestCount b' q \<and>
          (requestCount b q \<le> mi \<longrightarrow> requestCount b' q \<le> mi))"

lemma asked_refl [simp]: "asked mi n b b"
  by (simp add: asked_def)

lemma asked_trans:
  assumes "asked mi n b b1" and "asked mi n b1 b2" shows "asked mi n b b2"
proof -
  have "peers b p = Some s \<or> peers b p = None \<and> s = new_peer n" if "peers b2 p = Some s" for p s
  proof -
    have "peers b1 p = Some s \<or> peers b1 p = None \<and> s = new_peer n"
      using assms(2) that unfolding asked_def by blast
    moreover have "peers b p = None" if "peers b1 p = None"
      using assms(1) that unfolding asked_def by (metis not_None_eq)
    ultimately show ?thesis using assms(1) unfolding asked_def by blast
  qed
  moreover have "requestCount b q \<le> requestCount b2 q \<and>
      (requestCount b q \<le> mi \<longrightarrow> requestCount b2 q \<le> mi)" for q
    using assms unfolding asked_def by (meson order_trans)
  ultimately show ?thesis using assms unfolding asked_def by metis
qed

lemma asked_inv: "bucket_inv mp mi n b \<Longrightarrow> asked mi n b b' \<Longrightarrow> bucket_inv mp mi n b'"
  unfolding bucket_inv_def asked_def by (metis order_trans width_ok_new)

lemma peer_of_asked: "asked mi n b (snd (peer_of b p n))"
  by (auto simp: asked_def peer_of_def split: option.split)

lemma iwant_pos_asked: "asked mi n b (fst (iwant_pos B mi bps (b, out) pos))"
  by (auto simp: asked_def iwant_pos_def)

lemma iwant_pos_list_asked: "asked mi n b (fst (foldl (iwant_pos B mi bps) (b, out) ps))"
proof (induction ps arbitrary: b out)
  case (Cons pos ps)
  show ?case
    using asked_trans [OF iwant_pos_asked Cons [of "fst (iwant_pos B mi bps (b, out) pos)"]]
    by (metis foldl_Cons prod.collapse)
qed simp

text \<open>What a peer is asked: wanted positions it advertises, each at most once per call.\<close>

lemma iwant_pos_list_out:
  "set (snd (foldl (iwant_pos B mi bps) (b, out) ps)) \<subseteq>
     set out \<union> {pos \<in> set ps. bm_Get B (available bps) pos \<and> attestations b pos = None}"
proof (induction ps arbitrary: b out)
  case (Cons pos ps)
  obtain b1 out1 where h: "iwant_pos B mi bps (b, out) pos = (b1, out1)" by fastforce
  then have "attestations b1 = attestations b"
    "set out1 \<subseteq> set out \<union> {q. q = pos \<and> bm_Get B (available bps) q \<and> attestations b q = None}"
    by (auto simp: iwant_pos_def split: if_splits)
  then show ?case using Cons [of b1 out1] h by fastforce
qed simp

lemma iwant_peer_asked: "asked mi n b (fst (iwant_peer B mi n pst (b, want) p))"
proof (cases "pst p")
  case None
  then show ?thesis by (simp add: iwant_peer_def)
next
  case (Some ps)
  obtain bps b1 where h: "peer_of b p n = (bps, b1)" by fastforce
  have "asked mi n b b1" using peer_of_asked [of mi n b p] h by simp
  then have "asked mi n b (fst (foldl (iwant_pos B mi bps) (b1, []) [0..n - 1]))"
    by (rule asked_trans [OF _ iwant_pos_list_asked])
  then show ?thesis using Some h by (simp add: iwant_peer_def split_def Let_def)
qed

lemma selectIWantTargets_asked: "asked mi n b (fst (selectIWantTargets B mi n order pst b))"
proof -
  have "asked mi n b (fst (foldl (iwant_peer B mi n pst) (b, want) order))" for want
  proof (induction order arbitrary: b want)
    case (Cons p ps)
    show ?case
      using asked_trans [OF iwant_peer_asked Cons [of "fst (iwant_peer B mi n pst (b, want) p)"]]
      by (metis foldl_Cons prod.collapse)
  qed simp
  then show ?thesis by (simp add: selectIWantTargets_def)
qed

text \<open>Only gossip peers are asked, and only for positions inside the committee that are missing.\<close>

lemma selectIWantTargets_want:
  "pos \<in> set (snd (selectIWantTargets B mi n order pst b) p) \<Longrightarrow>
     (\<exists>ps. pst p = Some ps \<and> gossipPeer ps) \<and> 0 \<le> pos \<and> pos < n \<and> attestations b pos = None"
proof -
  let ?ok = "\<lambda>b0 want. attestations b0 = attestations b \<and> (\<forall>p pos. pos \<in> set (want p) \<longrightarrow>
     (\<exists>ps. pst p = Some ps \<and> gossipPeer ps) \<and> 0 \<le> pos \<and> pos < n \<and> attestations b pos = None)"
  have "?ok (fst (foldl (iwant_peer B mi n pst) (b0, want) order))
            (snd (foldl (iwant_peer B mi n pst) (b0, want) order))" if "?ok b0 want" for b0 want
    using that
  proof (induction order arbitrary: b0 want)
    case (Cons p order)
    obtain b1 want1 where h: "iwant_peer B mi n pst (b0, want) p = (b1, want1)" by fastforce
    have "asked mi n b0 b1" using iwant_peer_asked [of mi n b0 B pst want p] h by simp
    then have at: "attestations b1 = attestations b" using Cons.prems by (simp add: asked_def)
    have ok: "?ok b1 want1"
    proof (cases "\<exists>ps. pst p = Some ps \<and> gossipPeer ps")
      case False
      then show ?thesis using h Cons.prems at by (auto simp: iwant_peer_def split: option.splits)
    next
      case True
      then obtain ps where ps: "pst p = Some ps" "gossipPeer ps" by blast
      obtain bps b' where p: "peer_of b0 p n = (bps, b')" by fastforce
      let ?r = "foldl (iwant_pos B mi bps) (b', []) [0..n - 1]"
      have w: "want1 = want(p := sort (snd ?r))"
        using h ps p by (simp add: iwant_peer_def split_def Let_def)
      have "attestations b' = attestations b"
        using peer_of_asked [of mi n b0 p] p Cons.prems by (simp add: asked_def)
      then have sub: "set (snd ?r) \<subseteq> {pos. 0 \<le> pos \<and> pos < n \<and> attestations b pos = None}"
        using iwant_pos_list_out [of B mi bps b' "[]" "[0..n - 1]"] by auto
      have "(\<exists>ps. pst q = Some ps \<and> gossipPeer ps) \<and> 0 \<le> pos \<and> pos < n \<and> attestations b pos = None"
        if "pos \<in> set (want1 q)" for q pos
      proof (cases "q = p")
        case True
        then have "pos \<in> set (snd ?r)" using that by (simp add: w)
        then show ?thesis using sub ps True by blast
      next
        case False
        then have "pos \<in> set (want q)" using that by (simp add: w)
        then show ?thesis using Cons.prems by blast
      qed
      then show ?thesis using at by blast
    qed
    have fold: "foldl (iwant_peer B mi n pst) (b0, want) (p # order) =
        foldl (iwant_peer B mi n pst) (b1, want1) order"
      by (simp add: h)
    show ?case unfolding fold by (rule Cons.IH [OF ok])
  qed simp
  from this [of b "\<lambda>_. []"] show "pos \<in> set (snd (selectIWantTargets B mi n order pst b) p) \<Longrightarrow> ?thesis"
    by (simp add: selectIWantTargets_def)
qed

end
