(* ===== verification/PartialManager.thy ===== *)
theory PartialManager
  imports PartialBucket "HOL-Library.List_Lexorder" "HOL-Library.Char_ord"
begin

text \<open>
  The partial-message manager of one node (src/node/partial.go): its groups by topic and group
  key, the receive path, the publish tick, the verifier callback, sealing and pruning.

  Parameters: the identity resolver the driver injects, the protobuf codec of the two envelopes,
  the bitmap package, and for every \<open>range\<close> over a map whose order can be observed the order of
  the keys.  The peer states belong to the pubsub extension, which passes them in; an operation
  that changes them returns the new map.  Go's \<open>time.Now()\<close> is an argument.
\<close>

section \<open>State and parameters\<close>

record PartialResolver =
  res_CommitteeSize :: "Kind \<Rightarrow> int \<Rightarrow> int \<Rightarrow> int"
  res_Identity :: "Kind \<Rightarrow> int \<Rightarrow> int \<Rightarrow> int \<Rightarrow> int \<times> int"

record PartialOpts =
  po_PublishInterval :: dur
  po_MaxPeersPerAttestation :: int
  po_MaxIWantPerPosition :: int
  po_DisableMetadataGossip :: bool
  po_Seed :: "64 word"
  po_Resolver :: "PartialResolver option"

record partialGroup =
  g_kind :: Kind
  g_subnet :: int
  g_committeeSize :: int
  g_buckets :: "bytes \<rightharpoonup> partialBucket"
  g_sealed :: bool

record partialManager =
  pm_interval :: dur
  pm_maxPeers :: int
  pm_maxIWant :: int
  pm_disableGossip :: bool
  pm_groups :: "string \<rightharpoonup> (int \<rightharpoonup> partialGroup)"
  pm_floor :: "Kind \<rightharpoonup> int"

text \<open>The codec of the two envelopes: \<open>None\<close> is an error of \<open>proto.Marshal\<close> or \<open>proto.Unmarshal\<close>.\<close>

record envelope_codec =
  enc_ctrl :: "PartsMetadata list \<Rightarrow> bytes option"
  dec_ctrl :: "bytes \<Rightarrow> PartsMetadata list option"
  enc_data :: "BatchedAttestation list \<Rightarrow> bytes option"
  dec_data :: "bytes \<Rightarrow> BatchedAttestation list option"

datatype partial_error =
    NotPartialKind string
  | BadCommittee string int int
  | BadControlEnvelope
  | BadDataEnvelope
  | LengthMismatch nat nat
  | IndexOutOfCommittee int int

text \<open>The item \<open>onIncomingRPC\<close> submits to the class queue, with its callback's arguments.\<close>

record verify_job =
  job_class :: verifyClass
  job_group :: int
  job_topic :: string
  job_data :: bytes
  job_fresh :: "int list"

record PublishAction =
  EncodedPartsMetadata :: "bytes option"
  EncodedPartialMessage :: "bytes option"

record partial_rpc =
  rpc_TopicID :: string
  rpc_GroupID :: bytes
  rpc_PartsMetadata :: bytes
  rpc_PartialMessage :: bytes

section \<open>Group keys\<close>

definition groupKeyBytes :: "int \<Rightarrow> bytes" where
  "groupKeyBytes grp = be32 (u32 grp)"

definition groupKeyFromID :: "bytes \<Rightarrow> int" where
  "groupKeyFromID groupID =
     (let g = (if length groupID > 4 then drop (length groupID - 4) groupID else groupID)
      in uint (of_be32 (replicate (4 - length g) 0 @ g)))"

section \<open>Construction and lookup\<close>

definition newPartialManager :: "PartialOpts \<Rightarrow> int \<Rightarrow> partialManager option" where
  "newPartialManager opts D =
     (if po_Resolver opts = None then None
      else Some \<lparr>pm_interval = (if po_PublishInterval opts \<le> 0 then 20000000 else po_PublishInterval opts),
        pm_maxPeers = (if po_MaxPeersPerAttestation opts \<le> 0 then 2 * D
                       else po_MaxPeersPerAttestation opts),
        pm_maxIWant = (if po_MaxIWantPerPosition opts \<le> 0 then 10 else po_MaxIWantPerPosition opts),
        pm_disableGossip = po_DisableMetadataGossip opts,
        pm_groups = Map.empty, pm_floor = Map.empty\<rparr>)"

definition pm_group :: "partialManager \<Rightarrow> string \<Rightarrow> int \<Rightarrow> partialGroup option" where
  "pm_group m topic grp = Option.bind (pm_groups m topic) (\<lambda>byGroup. byGroup grp)"

definition set_group :: "string \<Rightarrow> int \<Rightarrow> partialGroup \<Rightarrow> partialManager \<Rightarrow> partialManager" where
  "set_group topic grp g m =
     (let byGroup = (case pm_groups m topic of None \<Rightarrow> Map.empty | Some bg \<Rightarrow> bg)
      in m\<lparr>pm_groups := (pm_groups m)(topic \<mapsto> byGroup(grp \<mapsto> g))\<rparr>)"

text \<open>The group's entry for the topic is created before anything is checked.\<close>

definition touch_topic :: "string \<Rightarrow> partialManager \<Rightarrow> partialManager" where
  "touch_topic topic m =
     (case pm_groups m topic of
        None \<Rightarrow> m\<lparr>pm_groups := (pm_groups m)(topic \<mapsto> Map.empty)\<rparr>
      | Some _ \<Rightarrow> m)"

definition getOrCreateGroup ::
  "PartialResolver \<Rightarrow> partialManager \<Rightarrow> string \<Rightarrow> int \<Rightarrow> (partial_error + partialGroup) \<times> partialManager" where
  "getOrCreateGroup R m0 topic grp =
     (let m = touch_topic topic m0 in
      case pm_group m topic grp of
        Some g \<Rightarrow> (Inr g, m)
      | None \<Rightarrow>
          (case partialKindFor topic of
             None \<Rightarrow> (Inl (NotPartialKind topic), m)
           | Some (kind, subnet) \<Rightarrow>
               (let size' = res_CommitteeSize R kind subnet grp in
                if size' \<le> 0 then (Inl (BadCommittee topic grp size'), m)
                else (let g = \<lparr>g_kind = kind, g_subnet = subnet, g_committeeSize = size',
                               g_buckets = Map.empty, g_sealed = False\<rparr>
                      in (Inr g, set_group topic grp g m)))))"

definition bucket_of :: "partialGroup \<Rightarrow> bytes \<Rightarrow> partialBucket" where
  "bucket_of g data = (case g_buckets g data of None \<Rightarrow> newPartialBucket data | Some b \<Rightarrow> b)"

definition set_bucket :: "bytes \<Rightarrow> partialBucket \<Rightarrow> partialGroup \<Rightarrow> partialGroup" where
  "set_bucket data b g = g\<lparr>g_buckets := (g_buckets g)(data \<mapsto> b)\<rparr>"

section \<open>Own votes\<close>

definition publishLocal ::
  "PartialResolver \<Rightarrow> partialManager \<Rightarrow> string \<Rightarrow> int \<Rightarrow> int \<Rightarrow> bytes \<Rightarrow> bytes \<Rightarrow> partialManager option" where
  "publishLocal R m topic grp position sg data =
     (case getOrCreateGroup R m topic grp of
        (Inl e, m1) \<Rightarrow> None
      | (Inr g, m1) \<Rightarrow>
          Some (set_group topic grp (set_bucket data (storeLocal (bucket_of g data) position sg) g) m1))"

section \<open>The receive path\<close>

text \<open>One metadata entry, then one batch; an error keeps what was already changed.\<close>

definition recv_metadata ::
  "bitmap_ops \<Rightarrow> PartialResolver \<Rightarrow> string \<Rightarrow> string \<Rightarrow> int \<Rightarrow> PartsMetadata \<Rightarrow>
     partialManager \<times> (string \<rightharpoonup> partialPeerState) \<Rightarrow>
     partial_error option \<times> partialManager \<times> (string \<rightharpoonup> partialPeerState)" where
  "recv_metadata B R sender topic grp md = (\<lambda>(m, peerStates).
     case getOrCreateGroup R m topic grp of
       (Inl e, m1) \<Rightarrow> (Some e, m1, peerStates)
     | (Inr g, m1) \<Rightarrow>
         (let (bps, b) = peer_of (bucket_of g (md_AttestationData md)) sender (g_committeeSize g);
              bps' = bps\<lparr>available := bm_Or B (available bps) (md_Available md),
                         pendingWant := bm_Or B (pendingWant bps) (md_Requests md)\<rparr>;
              m2 = set_group topic grp
                     (set_bucket (md_AttestationData md) (set_peer sender bps' b) g) m1;
              ps = (case peerStates sender of None \<Rightarrow> zero_peer_state | Some ps \<Rightarrow> ps)
          in (None, m2,
              if bm_OnesCount B (md_Available md) > 0 \<or> bm_OnesCount B (md_Requests md) > 0
              then peerStates(sender \<mapsto> ps\<lparr>gossipPeer := True\<rparr>) else peerStates)))"

fun recv_metadatas ::
  "bitmap_ops \<Rightarrow> PartialResolver \<Rightarrow> string \<Rightarrow> string \<Rightarrow> int \<Rightarrow> PartsMetadata list \<Rightarrow>
     partialManager \<times> (string \<rightharpoonup> partialPeerState) \<Rightarrow>
     partial_error option \<times> partialManager \<times> (string \<rightharpoonup> partialPeerState)" where
  "recv_metadatas B R sender topic grp [] s = (None, s)"
| "recv_metadatas B R sender topic grp (md # mds) s =
     (case recv_metadata B R sender topic grp md s of
        (Some e, s') \<Rightarrow> (Some e, s')
      | (None, s') \<Rightarrow> recv_metadatas B R sender topic grp mds s')"

text \<open>The index check of a batch: the first index outside the committee is the error.\<close>

definition bad_index :: "int \<Rightarrow> u32 list \<Rightarrow> int option" where
  "bad_index committeeSize idxs =
     map_option uint (find (\<lambda>p. committeeSize \<le> uint p) idxs)"

definition recv_batch ::
  "bitmap_ops \<Rightarrow> PartialResolver \<Rightarrow> string \<Rightarrow> string \<Rightarrow> int \<Rightarrow> BatchedAttestation \<Rightarrow>
     partialManager \<times> verify_job list \<Rightarrow> partial_error option \<times> partialManager \<times> verify_job list" where
  "recv_batch B R sender topic grp batch = (\<lambda>(m, jobs).
     case getOrCreateGroup R m topic grp of
       (Inl e, m1) \<Rightarrow> (Some e, m1, jobs)
     | (Inr g, m1) \<Rightarrow>
         (if length (ba_AttestorIndices batch) \<noteq> length (ba_Signatures batch)
          then (Some (LengthMismatch (length (ba_AttestorIndices batch)) (length (ba_Signatures batch))), m1, jobs)
          else case bad_index (g_committeeSize g) (ba_AttestorIndices batch) of
            Some p \<Rightarrow> (Some (IndexOutOfCommittee p (g_committeeSize g)), m1, jobs)
          | None \<Rightarrow>
              (let positions = map uint (ba_AttestorIndices batch);
                   data = ba_AttestationData batch;
                   (bps, b) = peer_of (bucket_of g data) sender (g_committeeSize g);
                   (fresh, b1) = the (addReceived b positions (ba_Signatures batch) []);
                   b2 = set_peer sender (bps\<lparr>available := foldl (bm_Set B) (available bps) positions\<rparr>) b1;
                   m2 = set_group topic grp (set_bucket data b2 g) m1
               in (None, m2,
                   if fresh = [] then jobs
                   else jobs @ [\<lparr>job_class = verifyClassFor topic, job_group = grp, job_topic = topic,
                                 job_data = bk_data b2, job_fresh = fresh\<rparr>]))))"

fun recv_batches ::
  "bitmap_ops \<Rightarrow> PartialResolver \<Rightarrow> string \<Rightarrow> string \<Rightarrow> int \<Rightarrow> BatchedAttestation list \<Rightarrow>
     partialManager \<times> verify_job list \<Rightarrow> partial_error option \<times> partialManager \<times> verify_job list" where
  "recv_batches B R sender topic grp [] s = (None, s)"
| "recv_batches B R sender topic grp (b # bs) s =
     (case recv_batch B R sender topic grp b s of
        (Some e, s') \<Rightarrow> (Some e, s')
      | (None, s') \<Rightarrow> recv_batches B R sender topic grp bs s')"

definition below_floor :: "partialManager \<Rightarrow> Kind \<Rightarrow> int \<Rightarrow> bool" where
  "below_floor m kind grp = (case pm_floor m kind of None \<Rightarrow> False | Some fl \<Rightarrow> grp \<le> fl)"

text \<open>The part under the manager's lock: the floor check, the metadata, then the batches.\<close>

definition recv_locked ::
  "bitmap_ops \<Rightarrow> PartialResolver \<Rightarrow> string \<Rightarrow> string \<Rightarrow> int \<Rightarrow> Kind \<Rightarrow>
     PartsMetadata list \<Rightarrow> BatchedAttestation list \<Rightarrow>
     partialManager \<Rightarrow> (string \<rightharpoonup> partialPeerState) \<Rightarrow>
     partial_error option \<times> partialManager \<times> (string \<rightharpoonup> partialPeerState) \<times> verify_job list" where
  "recv_locked B R sender topic grp kind mds batches m peerStates =
     (if below_floor m kind grp then (None, m, peerStates, [])
      else case recv_metadatas B R sender topic grp mds (m, peerStates) of
        (Some e, m1, ps1) \<Rightarrow> (Some e, m1, ps1, [])
      | (None, m1, ps1) \<Rightarrow>
          (case recv_batches B R sender topic grp batches (m1, []) of
             (err, m2, jobs) \<Rightarrow> (err, m2, ps1, jobs)))"

text \<open>
  The whole handler: the error if any, the manager, the peer states and the submitted items.  An
  absent half of the RPC decodes to nothing.
\<close>

definition onIncomingRPC ::
  "bitmap_ops \<Rightarrow> envelope_codec \<Rightarrow> PartialResolver \<Rightarrow> string \<Rightarrow> partial_rpc \<Rightarrow>
     partialManager \<Rightarrow> (string \<rightharpoonup> partialPeerState) \<Rightarrow>
     partial_error option \<times> partialManager \<times> (string \<rightharpoonup> partialPeerState) \<times> verify_job list" where
  "onIncomingRPC B E R sender rpc m peerStates =
     (let topic = rpc_TopicID rpc; grp = groupKeyFromID (rpc_GroupID rpc) in
      case partialKindFor topic of
        None \<Rightarrow> (Some (NotPartialKind topic), m, peerStates, [])
      | Some (kind, _) \<Rightarrow>
          (case (if rpc_PartsMetadata rpc = [] then Some [] else dec_ctrl E (rpc_PartsMetadata rpc)) of
             None \<Rightarrow> (Some BadControlEnvelope, m, peerStates, [])
           | Some mds \<Rightarrow>
               (case (if rpc_PartialMessage rpc = [] then Some [] else dec_data E (rpc_PartialMessage rpc)) of
                  None \<Rightarrow> (Some BadDataEnvelope, m, peerStates, [])
                | Some batches \<Rightarrow> recv_locked B R sender topic grp kind mds batches m peerStates)))"

section \<open>The verifier callback\<close>

definition received_partial :: "PartialResolver \<Rightarrow> partialGroup \<Rightarrow> int \<Rightarrow> instant \<Rightarrow> int \<Rightarrow> Received" where
  "received_partial R g grp at pos =
     (let (val, origin) = res_Identity R (g_kind g) (g_subnet g) grp pos
      in \<lparr>rec_kind = g_kind g, rec_obj = None,
          rec_id = mkIdentity grp (g_subnet g) val origin,
          rec_origin = origin, rec_at = at\<rparr>)"

text \<open>The manager, the promoted positions and the arrivals handed to a non-nil \<open>OnReceive\<close>.\<close>

definition markValidated ::
  "PartialResolver \<Rightarrow> bool \<Rightarrow> instant \<Rightarrow> string \<Rightarrow> int \<Rightarrow> bytes \<Rightarrow> int list \<Rightarrow> partialManager \<Rightarrow>
     partialManager \<times> int list \<times> Received list" where
  "markValidated R sink at topic grp data positions m =
     (case pm_group m topic grp of
        None \<Rightarrow> (m, [], [])
      | Some g \<Rightarrow>
          (case g_buckets g data of
             None \<Rightarrow> (m, [], [])
           | Some b \<Rightarrow>
               (let (b', promoted) = promote b positions
                in (set_group topic grp (set_bucket data b' g) m, promoted,
                    if sink then map (received_partial R g grp at) promoted else []))))"

section \<open>The publish tick of one group\<close>

text \<open>
  The iteration orders one call may observe: of the buckets and, per bucket, of the peers while the
  requests are chosen; of the peers while they are served and, per peer, of the buckets.
\<close>

record iter_orders =
  io_buckets :: "bytes list"
  io_peers :: "bytes \<Rightarrow> string list"
  io_served :: "string list"
  io_served_buckets :: "string \<Rightarrow> bytes list"

text \<open>The requests of this tick, per peer and bucket; a missing entry of the Go map reads nil.\<close>

definition iwant_bucket ::
  "bitmap_ops \<Rightarrow> partialManager \<Rightarrow> iter_orders \<Rightarrow> (string \<rightharpoonup> partialPeerState) \<Rightarrow>
     partialGroup \<times> (string \<Rightarrow> bytes \<Rightarrow> int list) \<Rightarrow> bytes \<Rightarrow>
     partialGroup \<times> (string \<Rightarrow> bytes \<Rightarrow> int list)" where
  "iwant_bucket B m ord peerStates = (\<lambda>(g, want) key.
     case g_buckets g key of
       None \<Rightarrow> (g, want)
     | Some b \<Rightarrow>
         (let (b', w) = selectIWantTargets B (pm_maxIWant m) (g_committeeSize g)
                          (io_peers ord key) peerStates b
          in (set_bucket key b' g, \<lambda>p. (want p)(key := w p))))"

text \<open>Serving one peer from one bucket: its batch, the cleared wants, its metadata entry.\<close>

definition serve_bucket ::
  "bitmap_ops \<Rightarrow> partialManager \<Rightarrow> int \<Rightarrow> bool \<Rightarrow> (bytes \<Rightarrow> int list) \<Rightarrow> string \<Rightarrow> partialPeerState \<Rightarrow>
     partialGroup \<times> BatchedAttestation list \<times> PartsMetadata list \<Rightarrow> bytes \<Rightarrow>
     (partialGroup \<times> BatchedAttestation list \<times> PartsMetadata list) option" where
  "serve_bucket B m grp requests want p ps = (\<lambda>(g, batches, mds) key.
     case g_buckets g key of
       None \<Rightarrow> Some (g, batches, mds)
     | Some b0 \<Rightarrow>
         (let n = g_committeeSize g;
              (bps, b1) = peer_of b0 p n;
              (positions, b2, bps2) =
                (if requests then claimToSend B (pm_maxPeers m) b1 bps (gossipPeer ps) else ([], b1, bps));
              b3 = set_peer p (bps2\<lparr>pendingWant := newCommitteeBitmap n\<rparr>) b2;
              mds' = (if gossipPeer ps
                      then (case bucketMetadata B n b3 grp (want key) (sendAvailableList ps) of
                              None \<Rightarrow> mds | Some md \<Rightarrow> mds @ [md])
                      else mds)
          in do {
               batches' \<leftarrow> (if positions = [] then Some batches
                           else map_option (\<lambda>e. batches @ [e]) (encodeBatch b2 positions));
               Some (set_bucket key b3 g, batches', mds')
             }))"

text \<open>A failed marshal is logged and its half of the action left out.\<close>

definition make_action ::
  "envelope_codec \<Rightarrow> BatchedAttestation list \<Rightarrow> PartsMetadata list \<Rightarrow> PublishAction" where
  "make_action E batches mds =
     \<lparr>EncodedPartsMetadata = (if mds = [] then None else enc_ctrl E mds),
      EncodedPartialMessage = (if batches = [] then None else enc_data E batches)\<rparr>"

text \<open>
  The served peers in order, until the consumer \<open>accepts\<close> no more: the group, the peer states and
  the yielded actions.
\<close>

fun serve_peers ::
  "bitmap_ops \<Rightarrow> envelope_codec \<Rightarrow> partialManager \<Rightarrow> int \<Rightarrow> iter_orders \<Rightarrow> (string \<Rightarrow> bool) \<Rightarrow>
     (string \<Rightarrow> PublishAction \<Rightarrow> bool) \<Rightarrow> (string \<Rightarrow> bytes \<Rightarrow> int list) \<Rightarrow> string list \<Rightarrow>
     partialGroup \<times> (string \<rightharpoonup> partialPeerState) \<times> (string \<times> PublishAction) list \<Rightarrow>
     (partialGroup \<times> (string \<rightharpoonup> partialPeerState) \<times> (string \<times> PublishAction) list) option" where
  "serve_peers B E m grp ord requests accepts want [] s = Some s"
| "serve_peers B E m grp ord requests accepts want (p # rest) (g, peerStates, out) =
     (case peerStates p of
        None \<Rightarrow> serve_peers B E m grp ord requests accepts want rest (g, peerStates, out)
      | Some ps \<Rightarrow>
          do {
            (g', batches, mds) \<leftarrow>
              foldO (serve_bucket B m grp (requests p) (want p) p ps) (io_served_buckets ord p) (g, [], []);
            let peerStates' = (if gossipPeer ps then peerStates(p := None) else peerStates);
            let action = make_action E batches mds;
            (if EncodedPartsMetadata action = None \<and> EncodedPartialMessage action = None
             then serve_peers B E m grp ord requests accepts want rest (g', peerStates', out)
             else if accepts p action
             then serve_peers B E m grp ord requests accepts want rest (g', peerStates', out @ [(p, action)])
             else Some (g', peerStates', out @ [(p, action)]))
          })"

definition publishActions ::
  "bitmap_ops \<Rightarrow> envelope_codec \<Rightarrow> partialManager \<Rightarrow> string \<Rightarrow> int \<Rightarrow> iter_orders \<Rightarrow>
     (string \<rightharpoonup> partialPeerState) \<Rightarrow> (string \<Rightarrow> bool) \<Rightarrow> (string \<Rightarrow> PublishAction \<Rightarrow> bool) \<Rightarrow>
     (partialManager \<times> (string \<rightharpoonup> partialPeerState) \<times> (string \<times> PublishAction) list) option" where
  "publishActions B E m topic grp ord peerStates requests accepts =
     (case pm_group m topic grp of
        None \<Rightarrow> Some (m, peerStates, [])
      | Some g \<Rightarrow>
          (if g_sealed g \<or> dom (g_buckets g) = {} then Some (m, peerStates, [])
           else do {
             let (g1, want) = foldl (iwant_bucket B m ord peerStates) (g, \<lambda>_ _. []) (io_buckets ord);
             (g2, peerStates', out) \<leftarrow>
               serve_peers B E m grp ord requests accepts want (io_served ord) (g1, peerStates, []);
             Some (set_group topic grp g2 m, peerStates', out)
           }))"

section \<open>Gossip, the tick order, fanout\<close>

definition gossip_peer :: "(string \<rightharpoonup> partialPeerState) \<Rightarrow> string \<Rightarrow> (string \<rightharpoonup> partialPeerState)" where
  "gossip_peer peerStates p =
     peerStates(p \<mapsto> (case peerStates p of None \<Rightarrow> zero_peer_state | Some ps \<Rightarrow> ps)
                      \<lparr>gossipPeer := True, sendAvailableList := True\<rparr>)"

definition onEmitGossip ::
  "partialManager \<Rightarrow> string list \<Rightarrow> (string \<rightharpoonup> partialPeerState) \<Rightarrow> (string \<rightharpoonup> partialPeerState)" where
  "onEmitGossip m gossipPeers peerStates =
     (if pm_disableGossip m then peerStates else foldl gossip_peer peerStates gossipPeers)"

text \<open>\<open>liveGroup\<close> with the order the tick sorts by: the topic bytes, then the group key.\<close>

datatype liveGroup = LiveGroup (lg_topic: string) (lg_group: int)

instantiation liveGroup :: linorder
begin

definition less_eq_liveGroup :: "liveGroup \<Rightarrow> liveGroup \<Rightarrow> bool" where
  "a \<le> b \<longleftrightarrow> lg_topic a < lg_topic b \<or> lg_topic a = lg_topic b \<and> lg_group a \<le> lg_group b"

definition less_liveGroup :: "liveGroup \<Rightarrow> liveGroup \<Rightarrow> bool" where
  "a < b \<longleftrightarrow> a \<le> b \<and> \<not> b \<le> (a::liveGroup)"

instance
proof
  fix x y z :: liveGroup
  show "x < y \<longleftrightarrow> x \<le> y \<and> \<not> y \<le> x" by (rule less_liveGroup_def)
  show "x \<le> x" by (simp add: less_eq_liveGroup_def)
  show "x \<le> y \<Longrightarrow> y \<le> z \<Longrightarrow> x \<le> z" by (auto simp: less_eq_liveGroup_def)
  show "x \<le> y \<Longrightarrow> y \<le> x \<Longrightarrow> x = y" by (cases x; cases y) (auto simp: less_eq_liveGroup_def)
  show "x \<le> y \<or> y \<le> x" by (cases x; cases y) (auto simp: less_eq_liveGroup_def)
qed

end

text \<open>
  The schedule of one tick.  The nested \<open>range\<close> loops see the topics and the groups of each in
  some order; the sort makes the result independent of it.
\<close>

definition tick_calls :: "partialManager \<Rightarrow> string list \<Rightarrow> (string \<Rightarrow> int list) \<Rightarrow> (string \<times> int \<times> bytes) list" where
  "tick_calls m topicOrder groupOrder =
     map (\<lambda>lg. (lg_topic lg, lg_group lg, groupKeyBytes (lg_group lg)))
       (sort (concat (map (\<lambda>t. map (LiveGroup t) (groupOrder t)) topicOrder)))"

text \<open>\<open>fanoutPublish\<close>: the error, or one action per current peer until the consumer stops.\<close>

fun fanout_yield ::
  "(string \<Rightarrow> PublishAction \<Rightarrow> bool) \<Rightarrow> PublishAction \<Rightarrow> string list \<Rightarrow> (string \<times> PublishAction) list" where
  "fanout_yield accepts action [] = []"
| "fanout_yield accepts action (p # ps) =
     (p, action) # (if accepts p action then fanout_yield accepts action ps else [])"

definition fanoutPublish ::
  "envelope_codec \<Rightarrow> string list \<Rightarrow> (string \<Rightarrow> PublishAction \<Rightarrow> bool) \<Rightarrow> int list \<Rightarrow> bytes list \<Rightarrow> bytes \<Rightarrow>
     (string \<times> PublishAction) list option" where
  "fanoutPublish E peerOrder accepts positions sigs data =
     map_option
       (\<lambda>enc. fanout_yield accepts
                \<lparr>EncodedPartsMetadata = None, EncodedPartialMessage = Some enc\<rparr> peerOrder)
       (enc_data E [\<lparr>ba_AttestationData = data, ba_AttestorIndices = map u32 positions,
                     ba_Signatures = sigs\<rparr>])"

section \<open>Sealing and pruning\<close>

definition swept :: "Kind \<Rightarrow> int \<Rightarrow> int \<Rightarrow> partialGroup \<Rightarrow> bool" where
  "swept kind grp key g \<longleftrightarrow> g_kind g = kind \<and> key \<le> grp"

definition seal :: "partialManager \<Rightarrow> Kind \<Rightarrow> int \<Rightarrow> partialManager" where
  "seal m kind grp =
     m\<lparr>pm_groups := (\<lambda>topic. map_option
        (\<lambda>byGroup key. map_option (\<lambda>g. if swept kind grp key g then g\<lparr>g_sealed := True\<rparr> else g) (byGroup key))
        (pm_groups m topic))\<rparr>"

definition prune_topic :: "Kind \<Rightarrow> int \<Rightarrow> (int \<rightharpoonup> partialGroup) \<Rightarrow> (int \<rightharpoonup> partialGroup) option" where
  "prune_topic kind grp byGroup =
     (let rest = (\<lambda>key. case byGroup key of
                    Some g \<Rightarrow> if swept kind grp key g then None else Some g
                  | None \<Rightarrow> None)
      in if dom rest = {} then None else Some rest)"

definition prune :: "partialManager \<Rightarrow> Kind \<Rightarrow> int \<Rightarrow> partialManager" where
  "prune m kind grp =
     m\<lparr>pm_floor := (case pm_floor m kind of
                     None \<Rightarrow> (pm_floor m)(kind \<mapsto> grp)
                   | Some fl \<Rightarrow> if grp > fl then (pm_floor m)(kind \<mapsto> grp) else pm_floor m),
       pm_groups := (\<lambda>topic. Option.bind (pm_groups m topic) (prune_topic kind grp))\<rparr>"

definition liveGroups :: "partialManager \<Rightarrow> string list \<Rightarrow> nat" where
  "liveGroups m topics =
     sum_list (map (\<lambda>t. case pm_groups m t of None \<Rightarrow> 0 | Some byGroup \<Rightarrow> card (dom byGroup)) topics)"

end
