(* ===== verification/PartialSystem.thy ===== *)
theory PartialSystem
  imports PartialManager
begin

text \<open>
  The partial transport as a state machine (src/node/partial.go): one node's manager together with
  the verification items it has submitted and not yet seen come back.  The steps are the calls the
  program makes on the manager: an incoming RPC, a verifier callback (in any order across the class
  queues), an own vote, a publish tick, a seal and a prune.  The invariants hold in every reachable
  state, whatever the peers send.
\<close>

section \<open>What operations do to the groups\<close>

lemma pm_group_set_group [simp]:
  "pm_group (set_group t k g m) t' k' = (if t' = t \<and> k' = k then Some g else pm_group m t' k')"
  by (auto simp: pm_group_def set_group_def Let_def split: option.split)

lemma pm_group_touch [simp]: "pm_group (touch_topic t m) = pm_group m"
  by (auto simp: pm_group_def touch_topic_def fun_eq_iff split: option.split)

lemma set_group_frame [simp]:
  "pm_floor (set_group t k g m) = pm_floor m" "pm_maxPeers (set_group t k g m) = pm_maxPeers m"
  "pm_maxIWant (set_group t k g m) = pm_maxIWant m"
  "pm_disableGossip (set_group t k g m) = pm_disableGossip m"
  by (simp_all add: set_group_def Let_def)

lemma touch_topic_frame [simp]:
  "pm_floor (touch_topic t m) = pm_floor m" "pm_maxPeers (touch_topic t m) = pm_maxPeers m"
  "pm_maxIWant (touch_topic t m) = pm_maxIWant m"
  by (simp_all add: touch_topic_def split: option.split)

lemma pm_group_seal:
  "pm_group (seal m kind grp) t k =
     map_option (\<lambda>g. if swept kind grp k g then g\<lparr>g_sealed := True\<rparr> else g) (pm_group m t k)"
  by (cases "pm_groups m t") (auto simp: pm_group_def seal_def)

lemma pm_group_prune:
  "pm_group (prune m kind grp) t k =
     (case pm_group m t k of None \<Rightarrow> None | Some g \<Rightarrow> if swept kind grp k g then None else Some g)"
proof (cases "pm_groups m t")
  case None
  then show ?thesis by (simp add: pm_group_def prune_def)
next
  case (Some bg)
  let ?rest = "\<lambda>key. case bg key of Some g \<Rightarrow> if swept kind grp key g then None else Some g | None \<Rightarrow> None"
  have "Option.bind (prune_topic kind grp bg) (\<lambda>r. r k) = ?rest k"
  proof (cases "dom ?rest = {}")
    case True
    have "k \<notin> dom ?rest" unfolding True by blast
    then have "?rest k = None" unfolding domIff by blast
    moreover have "prune_topic kind grp bg = None"
      unfolding prune_topic_def Let_def by (rule if_P [OF True])
    ultimately show ?thesis by (simp only: bind.bind_lzero)
  next
    case False
    have "prune_topic kind grp bg = Some ?rest"
      unfolding prune_topic_def Let_def by (rule if_not_P [OF False])
    then show ?thesis by (simp only: bind.bind_lunit)
  qed
  moreover have "pm_group m t k = bg k" by (simp only: pm_group_def Some bind.bind_lunit)
  moreover have "pm_group (prune m kind grp) t k = Option.bind (prune_topic kind grp bg) (\<lambda>r. r k)"
    by (simp add: pm_group_def prune_def Some)
  ultimately show ?thesis by (simp only:)
qed

lemma seal_frame [simp]:
  "pm_floor (seal m kind grp) = pm_floor m" "pm_maxPeers (seal m kind grp) = pm_maxPeers m"
  "pm_maxIWant (seal m kind grp) = pm_maxIWant m"
  by (simp_all add: seal_def)

lemma prune_frame [simp]:
  "pm_maxPeers (prune m kind grp) = pm_maxPeers m" "pm_maxIWant (prune m kind grp) = pm_maxIWant m"
  by (simp_all add: prune_def)

lemma below_floor_prune:
  "below_floor (prune m kind grp) kind' key \<longleftrightarrow> below_floor m kind' key \<or> kind' = kind \<and> key \<le> grp"
  by (auto simp: below_floor_def prune_def split: option.split)

lemma below_floor_cong: "pm_floor m' = pm_floor m \<Longrightarrow> below_floor m' = below_floor m"
  by (simp add: below_floor_def fun_eq_iff)

section \<open>The manager invariant\<close>

text \<open>
  Every live group has the kind, subnet and width its topic and key resolve to and lies above the
  pruned floor; every bucket is filed under its own data and satisfies the bucket invariant.
\<close>

definition buckets_ok :: "int \<Rightarrow> int \<Rightarrow> partialGroup \<Rightarrow> bool" where
  "buckets_ok mp mi g \<longleftrightarrow> (\<forall>data b. g_buckets g data = Some b \<longrightarrow>
     bk_data b = data \<and> bucket_inv mp mi (g_committeeSize g) b)"

definition group_ok :: "PartialResolver \<Rightarrow> partialManager \<Rightarrow> string \<Rightarrow> int \<Rightarrow> partialGroup \<Rightarrow> bool" where
  "group_ok R m t k g \<longleftrightarrow>
     partialKindFor t = Some (g_kind g, g_subnet g) \<and>
     g_committeeSize g = res_CommitteeSize R (g_kind g) (g_subnet g) k \<and> 0 < g_committeeSize g \<and>
     \<not> below_floor m (g_kind g) k \<and>
     buckets_ok (pm_maxPeers m) (pm_maxIWant m) g"

definition manager_inv :: "PartialResolver \<Rightarrow> partialManager \<Rightarrow> bool" where
  "manager_inv R m \<longleftrightarrow> 0 \<le> pm_maxPeers m \<and> 0 \<le> pm_maxIWant m \<and>
     (\<forall>t k g. pm_group m t k = Some g \<longrightarrow> group_ok R m t k g)"

lemma group_ok_cong:
  "pm_floor m' = pm_floor m \<Longrightarrow> pm_maxPeers m' = pm_maxPeers m \<Longrightarrow> pm_maxIWant m' = pm_maxIWant m \<Longrightarrow>
     group_ok R m' t k g = group_ok R m t k g"
  by (simp add: group_ok_def below_floor_def)

lemma manager_inv_group: "manager_inv R m \<Longrightarrow> pm_group m t k = Some g \<Longrightarrow> group_ok R m t k g"
  by (simp add: manager_inv_def)

lemma manager_inv_set_group [inv_intros]:
  assumes "manager_inv R m" and "group_ok R m t k g"
  shows "manager_inv R (set_group t k g m)"
  using assms by (simp add: manager_inv_def group_ok_cong [of "set_group t k g m" m])

lemma manager_inv_touch [inv_intros]: "manager_inv R m \<Longrightarrow> manager_inv R (touch_topic t m)"
  by (simp add: manager_inv_def group_ok_cong [of "touch_topic t m" m])

lemma group_ok_set_bucket:
  "group_ok R m t k g \<Longrightarrow> bk_data b = data \<Longrightarrow>
     bucket_inv (pm_maxPeers m) (pm_maxIWant m) (g_committeeSize g) b \<Longrightarrow>
     group_ok R m t k (set_bucket data b g)"
  by (auto simp: group_ok_def buckets_ok_def set_bucket_def)

lemma bucket_of_inv:
  assumes "manager_inv R m" and "group_ok R m t k g"
  shows "bk_data (bucket_of g data) = data"
    and "bucket_inv (pm_maxPeers m) (pm_maxIWant m) (g_committeeSize g) (bucket_of g data)"
proof -
  have ok: "buckets_ok (pm_maxPeers m) (pm_maxIWant m) g" and n: "0 < g_committeeSize g"
    using assms(2) unfolding group_ok_def by blast+
  have caps: "0 \<le> pm_maxPeers m" "0 \<le> pm_maxIWant m" using assms(1) by (simp_all add: manager_inv_def)
  have "bk_data (bucket_of g data) = data \<and>
      bucket_inv (pm_maxPeers m) (pm_maxIWant m) (g_committeeSize g) (bucket_of g data)"
  proof (cases "g_buckets g data")
    case None
    then show ?thesis
      using bucket_inv_new [OF _ caps, of "g_committeeSize g" data] n
      by (simp add: bucket_of_def) (simp add: newPartialBucket_def)
  next
    case (Some b)
    then show ?thesis using ok unfolding buckets_ok_def by (simp add: bucket_of_def)
  qed
  then show "bk_data (bucket_of g data) = data"
    "bucket_inv (pm_maxPeers m) (pm_maxIWant m) (g_committeeSize g) (bucket_of g data)" by simp_all
qed

text \<open>The validating and the validated positions of a bucket; none when there is no bucket.\<close>

definition vstate :: "partialManager \<Rightarrow> string \<Rightarrow> int \<Rightarrow> bytes \<Rightarrow> int set \<times> int set" where
  "vstate m t k d = (case pm_group m t k of None \<Rightarrow> ({}, {})
     | Some g \<Rightarrow> (case g_buckets g d of None \<Rightarrow> ({}, {}) | Some b \<Rightarrow> (validating b, validated b)))"

definition vstate_group :: "partialGroup \<Rightarrow> bytes \<Rightarrow> int set \<times> int set" where
  "vstate_group g d = (case g_buckets g d of None \<Rightarrow> ({}, {}) | Some b \<Rightarrow> (validating b, validated b))"

lemma vstate_bucket_of: "pm_group m t k = Some g \<Longrightarrow> vstate m t k d = (validating (bucket_of g d), validated (bucket_of g d))"
  by (auto simp: vstate_def bucket_of_def newPartialBucket_def split: option.split)

lemma vstate_set_bucket:
  "pm_group m t k = Some g \<Longrightarrow>
     vstate (set_group t k (set_bucket d b g) m) t' k' d' =
       (if t' = t \<and> k' = k \<and> d' = d then (validating b, validated b) else vstate m t' k' d')"
  by (simp add: vstate_def set_bucket_def)

lemma getOrCreateGroup_inv:
  assumes "manager_inv R m" and "getOrCreateGroup R m t k = (r, m1)"
    and "partialKindFor t = Some (kind, sub)" and "\<not> below_floor m kind k"
  shows "manager_inv R m1" and "vstate m1 = vstate m" and "pm_floor m1 = pm_floor m"
    and "pm_maxPeers m1 = pm_maxPeers m" and "pm_maxIWant m1 = pm_maxIWant m"
    and "r = Inr g \<Longrightarrow> pm_group m1 t k = Some g \<and> group_ok R m1 t k g \<and> g_kind g = kind"
proof -
  let ?m = "touch_topic t m" and ?n = "res_CommitteeSize R kind sub k"
  let ?g = "\<lparr>g_kind = kind, g_subnet = sub, g_committeeSize = ?n, g_buckets = Map.empty, g_sealed = False\<rparr>"
  have inv: "manager_inv R ?m" by (rule manager_inv_touch [OF assms(1)])
  have vs: "vstate ?m = vstate m" by (simp add: vstate_def fun_eq_iff)
  have all: "manager_inv R m1 \<and> vstate m1 = vstate m \<and> pm_floor m1 = pm_floor m \<and>
      pm_maxPeers m1 = pm_maxPeers m \<and> pm_maxIWant m1 = pm_maxIWant m \<and>
      (\<forall>g. r = Inr g \<longrightarrow> pm_group m1 t k = Some g \<and> group_ok R m1 t k g \<and> g_kind g = kind)"
  proof (cases "pm_group m t k")
    case (Some g)
    then have "r = Inr g" "m1 = ?m" using assms(2) by (auto simp: getOrCreateGroup_def Let_def)
    moreover have "group_ok R ?m t k g" using manager_inv_group [OF inv] Some by simp
    moreover from this have "g_kind g = kind" using assms(3) by (simp add: group_ok_def)
    ultimately show ?thesis using inv vs Some by simp
  next
    case None
    show ?thesis
    proof (cases "?n \<le> 0")
      case True
      then have "m1 = ?m" "\<exists>e. r = Inl e" using assms(2,3) None by (auto simp: getOrCreateGroup_def Let_def)
      then show ?thesis using inv vs by auto
    next
      case False
      then have r: "r = Inr ?g" and m1: "m1 = set_group t k ?g ?m"
        using assms(2,3) None by (auto simp: getOrCreateGroup_def Let_def)
      have ok: "group_ok R ?m t k ?g"
        using False assms(3,4) by (simp add: group_ok_def buckets_ok_def below_floor_cong [of ?m m])
      then have "group_ok R m1 t k ?g" using group_ok_cong [of m1 ?m] by (simp add: m1)
      moreover have "vstate m1 = vstate m"
        using None by (auto simp: m1 vstate_def fun_eq_iff)
      ultimately show ?thesis using r m1 manager_inv_set_group [OF inv ok] by simp
    qed
  qed
  then show "manager_inv R m1" "vstate m1 = vstate m" "pm_floor m1 = pm_floor m"
    "pm_maxPeers m1 = pm_maxPeers m" "pm_maxIWant m1 = pm_maxIWant m"
    "r = Inr g \<Longrightarrow> pm_group m1 t k = Some g \<and> group_ok R m1 t k g \<and> g_kind g = kind"
    by blast+
qed

section \<open>Receiving\<close>

text \<open>The positions of a bucket that a list of submitted items will promote.\<close>

definition pending :: "verify_job list \<Rightarrow> string \<Rightarrow> int \<Rightarrow> bytes \<Rightarrow> int list" where
  "pending js t k d =
     concat (map job_fresh (filter (\<lambda>j. job_topic j = t \<and> job_group j = k \<and> job_data j = d) js))"

lemma pending_Nil [simp]: "pending [] t k d = []"
  by (simp add: pending_def)

lemma pending_append [simp]: "pending (js @ js') t k d = pending js t k d @ pending js' t k d"
  by (simp add: pending_def)

lemma pending_Cons:
  "pending (j # js) t k d =
     (if job_topic j = t \<and> job_group j = k \<and> job_data j = d then job_fresh j else []) @ pending js t k d"
  by (simp add: pending_def)

text \<open>
  An operation that keeps the invariant, the floor and the validated votes, and whose newly
  validating positions are exactly those of the items it submits.
\<close>

definition loc_grows ::
  "partialManager \<Rightarrow> partialManager \<Rightarrow> verify_job list \<Rightarrow> string \<Rightarrow> int \<Rightarrow> bytes \<Rightarrow> bool" where
  "loc_grows m m' js t k d \<longleftrightarrow>
     snd (vstate m' t k d) = snd (vstate m t k d) \<and>
     fst (vstate m' t k d) = fst (vstate m t k d) \<union> set (pending js t k d) \<and>
     distinct (pending js t k d) \<and> set (pending js t k d) \<inter> fst (vstate m t k d) = {}"

definition grows :: "PartialResolver \<Rightarrow> partialManager \<Rightarrow> partialManager \<Rightarrow> verify_job list \<Rightarrow> bool" where
  "grows R m m' js \<longleftrightarrow> manager_inv R m' \<and> pm_floor m' = pm_floor m \<and>
     pm_maxPeers m' = pm_maxPeers m \<and> pm_maxIWant m' = pm_maxIWant m \<and>
     (\<forall>t k d. loc_grows m m' js t k d) \<and>
     (\<forall>j \<in> set js. partialKindFor (job_topic j) \<noteq> None)"

lemma grows_refl: "manager_inv R m \<Longrightarrow> grows R m m []"
  by (simp add: grows_def loc_grows_def)

lemma loc_grows_trans:
  "loc_grows m m1 js t k d \<Longrightarrow> loc_grows m1 m2 js' t k d \<Longrightarrow> loc_grows m m2 (js @ js') t k d"
  unfolding loc_grows_def by auto

lemma grows_trans:
  assumes "grows R m m1 js" and "grows R m1 m2 js'" shows "grows R m m2 (js @ js')"
  using assms loc_grows_trans [of m m1 js _ _ _ m2 js'] unfolding grows_def by auto

lemma grows_quiet:
  "manager_inv R m' \<Longrightarrow> vstate m' = vstate m \<Longrightarrow> pm_floor m' = pm_floor m \<Longrightarrow>
     pm_maxPeers m' = pm_maxPeers m \<Longrightarrow> pm_maxIWant m' = pm_maxIWant m \<Longrightarrow> grows R m m' []"
  by (simp add: grows_def loc_grows_def)

lemma grows_inv: "grows R m m' js \<Longrightarrow> manager_inv R m'"
  by (simp add: grows_def)

lemma grows_floor: "grows R m m' js \<Longrightarrow> below_floor m' = below_floor m"
  by (rule below_floor_cong) (simp add: grows_def)

text \<open>Storing a bucket of a group just looked up, its validated votes unchanged.\<close>

lemma grows_set_bucket:
  assumes "manager_inv R m" and "pm_group m t k = Some g" and "group_ok R m t k g"
    and "bk_data b = d" and "bucket_inv (pm_maxPeers m) (pm_maxIWant m) (g_committeeSize g) b"
    and "validated b = validated (bucket_of g d)"
    and "validating b = validating (bucket_of g d) \<union> set (pending js t k d)"
    and "distinct (pending js t k d)" and "set (pending js t k d) \<inter> validating (bucket_of g d) = {}"
    and "\<forall>j \<in> set js. job_topic j = t \<and> job_group j = k \<and> job_data j = d"
  shows "grows R m (set_group t k (set_bucket d b g) m) js"
proof -
  have ok: "group_ok R m t k (set_bucket d b g)"
    by (rule group_ok_set_bucket [OF assms(3-5)])
  have other: "pending js t' k' d' = []" if "\<not> (t' = t \<and> k' = k \<and> d' = d)" for t' k' d'
    using assms(10) that by (auto simp: pending_def filter_empty_conv)
  have kind: "partialKindFor t \<noteq> None" using assms(3) by (simp add: group_ok_def)
  have "loc_grows m (set_group t k (set_bucket d b g) m) js t' k' d'" for t' k' d'
  proof (cases "t' = t \<and> k' = k \<and> d' = d")
    case True
    then show ?thesis
      using assms(6-9)
      by (simp add: loc_grows_def vstate_set_bucket [OF assms(2)] vstate_bucket_of [OF assms(2)])
  next
    case False
    then show ?thesis
      using other [OF False] by (simp add: loc_grows_def vstate_set_bucket [OF assms(2)] False)
  qed
  then show ?thesis
    using manager_inv_set_group [OF assms(1) ok] assms(10) kind unfolding grows_def by auto
qed

lemma getOrCreateGroup_grows:
  assumes "manager_inv R m" and "getOrCreateGroup R m t k = (r, m1)"
    and "partialKindFor t = Some (kind, sub)" and "\<not> below_floor m kind k"
  shows "grows R m m1 []"
  using getOrCreateGroup_inv(1-5) [OF assms] by (intro grows_quiet)

lemma recv_metadata_grows:
  assumes "bitmap_ok B" and "manager_inv R m" and "partialKindFor t = Some (kind, sub)"
    and "\<not> below_floor m kind k" and "recv_metadata B R p t k md (m, pst) = (e, m', pst')"
  shows "grows R m m' []"
proof -
  obtain r m1 where r: "getOrCreateGroup R m t k = (r, m1)" by fastforce
  note ginv = getOrCreateGroup_inv [OF assms(2) r assms(3,4)]
  have g1: "grows R m m1 []" by (rule getOrCreateGroup_grows [OF assms(2) r assms(3,4)])
  show ?thesis
  proof (cases r)
    case (Inl e')
    then show ?thesis using g1 r assms(5) by (simp add: recv_metadata_def)
  next
    case (Inr g)
    note g = ginv(6) [OF Inr]
    let ?d = "md_AttestationData md" and ?n = "g_committeeSize g"
    obtain bps b where pb: "peer_of (bucket_of g ?d) p ?n = (bps, b)" by fastforce
    let ?bps = "bps\<lparr>available := bm_Or B (available bps) (md_Available md),
                     pendingWant := bm_Or B (pendingWant bps) (md_Requests md)\<rparr>"
    have m': "m' = set_group t k (set_bucket ?d (set_peer p ?bps b) g) m1"
      using assms(5) r Inr pb by (simp add: recv_metadata_def)
    note bi = bucket_of_inv [OF ginv(1), of t k g ?d]
    note pi = peer_of_inv [OF bi(2) pb]
    have w: "width_ok ?n ?bps"
      using pi(2) g bitmap_spec.length_jn [OF assms(1) [unfolded bitmap_ok_def]]
      by (simp add: width_ok_def)
    have "grows R m1 m' []"
      unfolding m'
    proof (rule grows_set_bucket [OF ginv(1)])
      show "bucket_inv (pm_maxPeers m1) (pm_maxIWant m1) ?n (set_peer p ?bps b)"
        using pi(1) g w by (intro bucket_inv_set_peer) simp_all
      show "bk_data (set_peer p ?bps b) = ?d" using pi(4) g bi(1) by simp
      show "validated (set_peer p ?bps b) = validated (bucket_of g ?d)" using pi(4) g by simp
      show "validating (set_peer p ?bps b) = validating (bucket_of g ?d) \<union> set (pending [] t k ?d)"
        using pi(4) g by simp
    qed (use g in simp_all)
    from grows_trans [OF g1 this] show ?thesis by simp
  qed
qed

lemma recv_metadatas_grows:
  assumes "bitmap_ok B" and "manager_inv R m" and "partialKindFor t = Some (kind, sub)"
    and "\<not> below_floor m kind k" and "recv_metadatas B R p t k mds (m, pst) = (e, m', pst')"
  shows "grows R m m' []"
  using assms(2,4,5)
proof (induction mds arbitrary: m pst)
  case Nil
  then show ?case by (simp add: grows_refl)
next
  case (Cons md mds)
  obtain e1 m1 ps1 where h: "recv_metadata B R p t k md (m, pst) = (e1, m1, ps1)"
    by (cases "recv_metadata B R p t k md (m, pst)") auto
  have g: "grows R m m1 []"
    by (rule recv_metadata_grows [OF assms(1) Cons.prems(1) assms(3) Cons.prems(2) h])
  show ?case
  proof (cases e1)
    case (Some x)
    then show ?thesis using g h Cons.prems(3) by simp
  next
    case None
    then have rest: "recv_metadatas B R p t k mds (m1, ps1) = (e, m', pst')"
      using h Cons.prems(3) by simp
    have "grows R m1 m' []"
      using Cons.IH [OF grows_inv [OF g] _ rest] Cons.prems(2) grows_floor [OF g] by simp
    from grows_trans [OF g this] show ?thesis by simp
  qed
qed

lemma bad_index_None:
  "bad_index n idxs = None \<Longrightarrow> \<forall>pos \<in> set (map uint idxs). 0 \<le> pos \<and> pos < n"
  by (auto simp: bad_index_def find_None_iff)

lemma recv_batch_grows:
  assumes "bitmap_ok B" and "manager_inv R m" and "partialKindFor t = Some (kind, sub)"
    and "\<not> below_floor m kind k" and "recv_batch B R p t k batch (m, jobs) = (e, m', jobs')"
  shows "\<exists>js. jobs' = jobs @ js \<and> grows R m m' js"
proof -
  obtain r m1 where r: "getOrCreateGroup R m t k = (r, m1)" by fastforce
  note ginv = getOrCreateGroup_inv [OF assms(2) r assms(3,4)]
  have g1: "grows R m m1 []" by (rule getOrCreateGroup_grows [OF assms(2) r assms(3,4)])
  let ?idxs = "ba_AttestorIndices batch" and ?sigs = "ba_Signatures batch" and ?d = "ba_AttestationData batch"
  consider (early) "m' = m1" "jobs' = jobs"
    | (store) g where "r = Inr g" "length ?idxs = length ?sigs" "bad_index (g_committeeSize g) ?idxs = None"
    using assms(5) r
    by (auto simp: recv_batch_def split: sum.splits if_splits option.splits)
  then show ?thesis
  proof cases
    case early
    then show ?thesis using g1 by (intro exI [of _ "[]"]) simp
  next
    case (store g)
    note g = ginv(6) [OF store(1)]
    let ?n = "g_committeeSize g" and ?ps = "map uint ?idxs"
    note pos = bad_index_None [OF store(3)]
    obtain bps b where pb: "peer_of (bucket_of g ?d) p ?n = (bps, b)" by fastforce
    note bi = bucket_of_inv [OF ginv(1) conjunct1 [OF conjunct2 [OF g]], of ?d]
    note pi = peer_of_inv [OF bi(2) pb]
    obtain new b1 where ar: "addReceived b ?ps ?sigs [] = Some (new, b1)"
      using addReceived_exact [of ?ps ?sigs b "[]"] store(2) by auto
    have le: "length ?ps \<le> length ?sigs" using store(2) by simp
    note ai = addReceived_inv [OF pi(1) le pos ar]
    let ?bps = "bps\<lparr>available := foldl (bm_Set B) (available bps) ?ps\<rparr>"
    let ?b2 = "set_peer p ?bps b1"
    let ?j = "\<lparr>job_class = verifyClassFor t, job_group = k, job_topic = t, job_data = bk_data ?b2, job_fresh = new\<rparr>"
    let ?js = "if new = [] then [] else [?j]"
    have out: "m' = set_group t k (set_bucket ?d ?b2 g) m1" "jobs' = jobs @ ?js"
      using assms(5) r store pb ar by (auto simp: recv_batch_def Let_def split: if_splits)
    have "0 < ?n" using g unfolding group_ok_def by blast
    then have n0: "0 \<le> ?n" by simp
    have wid: "length (available bps) = length (newCommitteeBitmap ?n)" using pi(2) by (simp add: width_ok_def)
    then have inr: "\<forall>q \<in> set ?ps. 0 \<le> q \<and> q < bits (available bps)"
      using pos bits_newCommitteeBitmap [OF n0] by fastforce
    have w: "width_ok ?n ?bps"
      using pi(2) bitmap_spec.length_st_list [OF assms(1) [unfolded bitmap_ok_def] inr]
      by (simp add: width_ok_def)
    have data1: "bk_data b1 = ?d" using ai(8) pi(4) bi(1) by simp
    then have data: "bk_data ?b2 = ?d" by simp
    have pend: "pending ?js t k ?d = new" by (auto simp: pending_def data1)
    have "grows R m1 m' ?js"
      unfolding out(1)
    proof (rule grows_set_bucket [OF ginv(1)])
      show "bucket_inv (pm_maxPeers m1) (pm_maxIWant m1) ?n ?b2"
        using ai(1) w by (intro bucket_inv_set_peer)
      show "validated ?b2 = validated (bucket_of g ?d)" using ai(5) pi(4) by simp
      show "validating ?b2 = validating (bucket_of g ?d) \<union> set (pending ?js t k ?d)"
        unfolding pend using ai(4) pi(4) by simp
      show "distinct (pending ?js t k ?d)" unfolding pend by (rule ai(2))
      show "set (pending ?js t k ?d) \<inter> validating (bucket_of g ?d) = {}"
        unfolding pend using ai(6) pi(4) by simp
      show "\<forall>j \<in> set ?js. job_topic j = t \<and> job_group j = k \<and> job_data j = ?d"
        using data by simp
    qed (use g data in simp_all)
    from grows_trans [OF g1 this] show ?thesis using out(2) by (intro exI [of _ ?js]) simp
  qed
qed

lemma recv_batches_grows:
  assumes "bitmap_ok B" and "manager_inv R m" and "partialKindFor t = Some (kind, sub)"
    and "\<not> below_floor m kind k" and "recv_batches B R p t k bs (m, jobs) = (e, m', jobs')"
  shows "\<exists>js. jobs' = jobs @ js \<and> grows R m m' js"
  using assms(2,4,5)
proof (induction bs arbitrary: m jobs)
  case Nil
  then show ?case by (simp add: grows_refl)
next
  case (Cons b bs)
  obtain e1 m1 jobs1 where h: "recv_batch B R p t k b (m, jobs) = (e1, m1, jobs1)"
    by (cases "recv_batch B R p t k b (m, jobs)") auto
  obtain js where js: "jobs1 = jobs @ js" and g: "grows R m m1 js"
    using recv_batch_grows [OF assms(1) Cons.prems(1) assms(3) Cons.prems(2) h] by blast
  show ?case
  proof (cases e1)
    case (Some x)
    then show ?thesis using js g h Cons.prems(3) by auto
  next
    case None
    then have rest: "recv_batches B R p t k bs (m1, jobs1) = (e, m', jobs')"
      using h Cons.prems(3) by simp
    obtain js' where js': "jobs' = jobs1 @ js'" and g': "grows R m1 m' js'"
      using Cons.IH [OF grows_inv [OF g] _ rest] Cons.prems(2) grows_floor [OF g] by auto
    show ?thesis using js js' grows_trans [OF g g'] by auto
  qed
qed

lemma recv_locked_grows:
  assumes "bitmap_ok B" and "manager_inv R m" and "partialKindFor t = Some (kind, sub)"
    and "recv_locked B R p t k kind mds bs m pst = (e, m', pst', js)"
  shows "grows R m m' js"
proof (cases "below_floor m kind k")
  case True
  then show ?thesis using assms(4) grows_refl [OF assms(2)] by (simp add: recv_locked_def)
next
  case False
  obtain e1 m1 ps1 where h: "recv_metadatas B R p t k mds (m, pst) = (e1, m1, ps1)"
    by (cases "recv_metadatas B R p t k mds (m, pst)") auto
  have g: "grows R m m1 []" by (rule recv_metadatas_grows [OF assms(1-3) False h])
  show ?thesis
  proof (cases e1)
    case (Some x)
    then show ?thesis using assms(4) False h g by (simp add: recv_locked_def)
  next
    case None
    obtain e2 m2 js2 where h2: "recv_batches B R p t k bs (m1, []) = (e2, m2, js2)"
      by (cases "recv_batches B R p t k bs (m1, [])") auto
    have out: "m' = m2" "js = js2" using assms(4) False h None h2 by (simp_all add: recv_locked_def)
    have "\<not> below_floor m1 kind k" using False grows_floor [OF g] by simp
    from recv_batches_grows [OF assms(1) grows_inv [OF g] assms(3) this h2]
    have "grows R m1 m2 js2" by simp
    from grows_trans [OF g this] show ?thesis by (simp add: out)
  qed
qed

lemma onIncomingRPC_cases:
  assumes "onIncomingRPC B E R p rpc m pst = (e, m', pst', js)"
  obtains (rejected) "e \<noteq> None" "m' = m" "pst' = pst" "js = []"
    | (locked) kind sub mds bs where "partialKindFor (rpc_TopicID rpc) = Some (kind, sub)"
        "recv_locked B R p (rpc_TopicID rpc) (groupKeyFromID (rpc_GroupID rpc)) kind mds bs m pst =
           (e, m', pst', js)"
proof (cases "partialKindFor (rpc_TopicID rpc)")
  case None
  then show thesis using assms rejected by (auto simp: onIncomingRPC_def)
next
  case (Some kk)
  obtain kind sub where kk: "kk = (kind, sub)" by fastforce
  let ?c = "if rpc_PartsMetadata rpc = [] then Some [] else dec_ctrl E (rpc_PartsMetadata rpc)"
  let ?d = "if rpc_PartialMessage rpc = [] then Some [] else dec_data E (rpc_PartialMessage rpc)"
  show thesis
  proof (cases ?c)
    case c: None
    have "(Some BadControlEnvelope, m, pst, []) = (e, m', pst', js)"
      using assms unfolding onIncomingRPC_def Let_def Some kk option.case prod.case c .
    then show thesis using rejected by blast
  next
    case c: (Some mds)
    show thesis
    proof (cases ?d)
      case d: None
      have "(Some BadDataEnvelope, m, pst, []) = (e, m', pst', js)"
        using assms unfolding onIncomingRPC_def Let_def Some kk option.case prod.case c d .
      then show thesis using rejected by blast
    next
      case d: (Some bs)
      have "recv_locked B R p (rpc_TopicID rpc) (groupKeyFromID (rpc_GroupID rpc)) kind mds bs m pst =
          (e, m', pst', js)"
        using assms unfolding onIncomingRPC_def Let_def Some kk option.case prod.case c d .
      then show thesis by (rule locked [OF Some [unfolded kk]])
    qed
  qed
qed

lemma onIncomingRPC_grows:
  assumes "bitmap_ok B" and "manager_inv R m" and "onIncomingRPC B E R p rpc m pst = (e, m', pst', js)"
  shows "grows R m m' js"
  using assms(3)
proof (cases rule: onIncomingRPC_cases)
  case rejected
  then show ?thesis using grows_refl [OF assms(2)] by simp
next
  case (locked kind sub mds bs)
  then show ?thesis using recv_locked_grows [OF assms(1,2)] by blast
qed

section \<open>The publish tick\<close>

text \<open>A tick changes counters and peer states of a group, nothing that is held or validated.\<close>

definition served :: "int \<Rightarrow> int \<Rightarrow> partialGroup \<Rightarrow> partialGroup \<Rightarrow> bool" where
  "served mp mi g g' \<longleftrightarrow>
     g_kind g' = g_kind g \<and> g_subnet g' = g_subnet g \<and> g_committeeSize g' = g_committeeSize g \<and>
     g_sealed g' = g_sealed g \<and> buckets_ok mp mi g' \<and> vstate_group g' = vstate_group g"

lemma served_refl: "buckets_ok mp mi g \<Longrightarrow> served mp mi g g"
  by (simp add: served_def)

lemma served_trans: "served mp mi g g1 \<Longrightarrow> served mp mi g1 g2 \<Longrightarrow> served mp mi g g2"
  by (simp add: served_def)

lemma served_ok: "served mp mi g g' \<Longrightarrow> buckets_ok mp mi g'"
  by (simp add: served_def)

lemma served_set_bucket:
  assumes "buckets_ok mp mi g" and "g_buckets g d = Some b" and "bk_data b' = bk_data b"
    and "bucket_inv mp mi (g_committeeSize g) b'"
    and "validating b' = validating b" and "validated b' = validated b"
  shows "served mp mi g (set_bucket d b' g)"
proof -
  have "bk_data b = d" using assms(1,2) by (simp add: buckets_ok_def)
  then have "buckets_ok mp mi (set_bucket d b' g)"
    using assms(1,3,4) by (auto simp: buckets_ok_def set_bucket_def)
  then show ?thesis
    using assms(2,5,6) by (auto simp: served_def set_bucket_def vstate_group_def fun_eq_iff)
qed

lemma iwant_bucket_served:
  assumes "buckets_ok (pm_maxPeers m) (pm_maxIWant m) g"
  shows "served (pm_maxPeers m) (pm_maxIWant m) g (fst (iwant_bucket B m ord pst (g, want) key))"
proof (cases "g_buckets g key")
  case None
  then show ?thesis using served_refl [OF assms] by (simp add: iwant_bucket_def)
next
  case (Some b)
  let ?n = "g_committeeSize g" and ?mi = "pm_maxIWant m"
  obtain b' w where s: "selectIWantTargets B ?mi ?n (io_peers ord key) pst b = (b', w)" by fastforce
  have a: "asked ?mi ?n b b'"
    using selectIWantTargets_asked [of ?mi ?n b B "io_peers ord key" pst] s by simp
  have inv: "bucket_inv (pm_maxPeers m) ?mi ?n b" using assms Some by (simp add: buckets_ok_def)
  have "served (pm_maxPeers m) ?mi g (set_bucket key b' g)"
    using served_set_bucket [OF assms Some _ asked_inv [OF inv a]] a by (simp add: asked_def)
  then show ?thesis using Some s by (simp add: iwant_bucket_def)
qed

lemma iwant_buckets_served:
  assumes "buckets_ok (pm_maxPeers m) (pm_maxIWant m) g"
  shows "served (pm_maxPeers m) (pm_maxIWant m) g (fst (foldl (iwant_bucket B m ord pst) (g, want) keys))"
  using assms
proof (induction keys arbitrary: g want)
  case Nil
  then show ?case by (simp add: served_refl)
next
  case (Cons key keys)
  obtain g1 want1 where h: "iwant_bucket B m ord pst (g, want) key = (g1, want1)" by fastforce
  have s: "served (pm_maxPeers m) (pm_maxIWant m) g g1"
    using iwant_bucket_served [OF Cons.prems, of B ord pst want key] h by simp
  show ?case
    using served_trans [OF s Cons.IH [OF served_ok [OF s], of want1]] h by simp
qed

lemma encodeBatch_total:
  assumes "bucket_inv mp mi n b" and "set ps \<subseteq> validated b"
  shows "encodeBatch b ps \<noteq> None"
proof -
  have "mapO (\<lambda>pos. map_option pe_Signature (attestations b pos)) ps \<noteq> None"
  proof (rule mapO_total)
    fix pos assume "pos \<in> set ps"
    then have "pos \<in> dom (attestations b)" using bucket_inv_validated [OF assms(1)] assms(2) by blast
    then show "map_option pe_Signature (attestations b pos) \<noteq> None" by auto
  qed
  then show ?thesis by (auto simp: encodeBatch_def)
qed

lemma serve_bucket_served:
  assumes "bitmap_ok B" and "buckets_ok (pm_maxPeers m) (pm_maxIWant m) g"
  shows "\<exists>g' bs' mds'. serve_bucket B m grp rq want p ps (g, bs, mds) key = Some (g', bs', mds') \<and>
           served (pm_maxPeers m) (pm_maxIWant m) g g'"
proof (cases "g_buckets g key")
  case None
  then show ?thesis using served_refl [OF assms(2)] by (simp add: serve_bucket_def)
next
  case (Some b0)
  let ?n = "g_committeeSize g" and ?mp = "pm_maxPeers m" and ?mi = "pm_maxIWant m"
  have inv0: "bucket_inv ?mp ?mi ?n b0" using assms(2) Some by (simp add: buckets_ok_def)
  obtain bps b1 where pb: "peer_of b0 p ?n = (bps, b1)" by fastforce
  note pi = peer_of_inv [OF inv0 pb]
  let ?claim = "if rq then claimToSend B ?mp b1 bps (gossipPeer ps) else ([], b1, bps)"
  obtain positions b2 bps2 where c: "?claim = (positions, b2, bps2)" by (cases ?claim) auto
  have cl: "bucket_inv ?mp ?mi ?n b2 \<and> width_ok ?n bps2 \<and> set positions \<subseteq> validated b2 \<and>
      validating b2 = validating b1 \<and> validated b2 = validated b1 \<and> bk_data b2 = bk_data b1"
  proof (cases rq)
    case True
    then have cs: "claimToSend B ?mp b1 bps (gossipPeer ps) = (positions, b2, bps2)" using c by simp
    show ?thesis
      using claimToSend_inv [OF assms(1) pi(1,2) cs] claimToSend_exact(3,4,6) [OF assms(1) pi(1,2) cs]
      by auto
  next
    case False
    then show ?thesis using c pi(1,2) by simp
  qed
  let ?b3 = "set_peer p (bps2\<lparr>pendingWant := newCommitteeBitmap ?n\<rparr>) b2"
  have inv3: "bucket_inv ?mp ?mi ?n ?b3" using cl by (intro bucket_inv_set_peer) (simp_all add: width_ok_def)
  have s: "served ?mp ?mi g (set_bucket key ?b3 g)"
    using served_set_bucket [OF assms(2) Some _ inv3] cl pi(4) by simp
  have enc: "encodeBatch b2 positions \<noteq> None" using encodeBatch_total cl by blast
  have "\<exists>bs' mds'. serve_bucket B m grp rq want p ps (g, bs, mds) key = Some (set_bucket key ?b3 g, bs', mds')"
    using enc by (auto simp: serve_bucket_def Let_def Some pb c)
  with s show ?thesis by blast
qed

lemma serve_buckets_served:
  assumes "bitmap_ok B" and "buckets_ok (pm_maxPeers m) (pm_maxIWant m) g"
  shows "\<exists>g' bs' mds'. foldO (serve_bucket B m grp rq want p ps) keys (g, bs, mds) = Some (g', bs', mds') \<and>
           served (pm_maxPeers m) (pm_maxIWant m) g g'"
  using assms(2)
proof (induction keys arbitrary: g bs mds)
  case Nil
  then show ?case by (simp add: served_refl)
next
  case (Cons key keys)
  obtain g1 bs1 mds1 where h: "serve_bucket B m grp rq want p ps (g, bs, mds) key = Some (g1, bs1, mds1)"
    "served (pm_maxPeers m) (pm_maxIWant m) g g1"
    using serve_bucket_served [OF assms(1) Cons.prems] by blast
  obtain g2 bs2 mds2 where "foldO (serve_bucket B m grp rq want p ps) keys (g1, bs1, mds1) = Some (g2, bs2, mds2)"
    "served (pm_maxPeers m) (pm_maxIWant m) g1 g2"
    using Cons.IH [OF served_ok [OF h(2)]] by blast
  then show ?case using h served_trans by auto
qed

lemma serve_peers_served:
  assumes "bitmap_ok B" and "buckets_ok (pm_maxPeers m) (pm_maxIWant m) g"
  shows "\<exists>g' pst' out'. serve_peers B E m grp ord rq acc want order (g, pst, out) = Some (g', pst', out') \<and>
           served (pm_maxPeers m) (pm_maxIWant m) g g'"
  using assms(2)
proof (induction order arbitrary: g pst out)
  case Nil
  then show ?case by (simp add: served_refl)
next
  case (Cons p order)
  show ?case
  proof (cases "pst p")
    case None
    then show ?thesis using Cons.IH [OF Cons.prems] by simp
  next
    case (Some ps)
    obtain g1 bs mds where h: "foldO (serve_bucket B m grp (rq p) (want p) p ps) (io_served_buckets ord p)
        (g, [], []) = Some (g1, bs, mds)" and s: "served (pm_maxPeers m) (pm_maxIWant m) g g1"
      using serve_buckets_served [OF assms(1) Cons.prems] by blast
    let ?a = "make_action E bs mds" and ?pst = "if gossipPeer ps then pst(p := None) else pst"
    have rest: "\<exists>g' pst' out'. serve_peers B E m grp ord rq acc want order (g1, ?pst, out1) = Some (g', pst', out') \<and>
        served (pm_maxPeers m) (pm_maxIWant m) g g'" for out1
      using Cons.IH [OF served_ok [OF s], of ?pst out1] served_trans [OF s] by blast
    show ?thesis
      using rest [of out] rest [of "out @ [(p, ?a)]"] s
      by (auto simp: Some h Let_def simp del: fun_upd_apply)
  qed
qed

lemma group_ok_buckets_ok: "group_ok R m t k g \<Longrightarrow> buckets_ok (pm_maxPeers m) (pm_maxIWant m) g"
  by (simp add: group_ok_def)

lemma publishActions_grows:
  assumes "bitmap_ok B" and "manager_inv R m"
  shows "\<exists>m' pst' out. publishActions B E m t k ord pst rq acc = Some (m', pst', out) \<and> grows R m m' []"
proof (cases "pm_group m t k")
  case None
  then show ?thesis using grows_refl [OF assms(2)] by (simp add: publishActions_def)
next
  case (Some g)
  let ?mp = "pm_maxPeers m" and ?mi = "pm_maxIWant m"
  note ok = manager_inv_group [OF assms(2) Some]
  show ?thesis
  proof (cases "g_sealed g \<or> dom (g_buckets g) = {}")
    case True
    then show ?thesis using grows_refl [OF assms(2)] Some by (simp add: publishActions_def)
  next
    case False
    obtain g1 want where w: "foldl (iwant_bucket B m ord pst) (g, \<lambda>_ _. []) (io_buckets ord) = (g1, want)"
      by fastforce
    have s1: "served ?mp ?mi g g1"
      using iwant_buckets_served [OF group_ok_buckets_ok [OF ok], of B ord pst "\<lambda>_ _. []" "io_buckets ord"] w
      by simp
    obtain g2 pst' out where sp: "serve_peers B E m k ord rq acc want (io_served ord) (g1, pst, []) =
        Some (g2, pst', out)" and s2: "served ?mp ?mi g1 g2"
      using serve_peers_served [OF assms(1) served_ok [OF s1]] by blast
    have s: "served ?mp ?mi g g2" by (rule served_trans [OF s1 s2])
    have ok2: "group_ok R m t k g2"
      using ok s by (simp add: group_ok_def served_def)
    have "vstate (set_group t k g2 m) t' k' d' = vstate m t' k' d'" for t' k' d'
    proof (cases "t' = t \<and> k' = k")
      case True
      have "vstate_group g2 d' = vstate_group g d'" using s by (simp add: served_def)
      then show ?thesis using True Some by (simp add: vstate_def vstate_group_def)
    next
      case False
      then show ?thesis by (auto simp: vstate_def)
    qed
    then have "vstate (set_group t k g2 m) = vstate m" by (intro ext)
    then have "grows R m (set_group t k g2 m) []"
      using manager_inv_set_group [OF assms(2) ok2] by (intro grows_quiet) simp_all
    moreover have "publishActions B E m t k ord pst rq acc = Some (set_group t k g2 m, pst', out)"
      unfolding publishActions_def Some option.case if_not_P [OF False] w Let_def prod.case sp by simp
    ultimately show ?thesis by blast
  qed
qed

section \<open>Own votes, promotion, sealing, pruning\<close>

lemma publishLocal_effect:
  assumes "manager_inv R m" and "partialKindFor t = Some (kind, sub)" and "\<not> below_floor m kind k"
    and "0 \<le> pos" and "pos < res_CommitteeSize R kind sub k"
    and "publishLocal R m t k pos sg d = Some m'"
  shows "manager_inv R m'" and "pm_floor m' = pm_floor m"
    and "vstate m' t' k' d' =
      (if t' = t \<and> k' = k \<and> d' = d \<and> pos \<notin> fst (vstate m t k d)
       then (fst (vstate m t k d), insert pos (snd (vstate m t k d))) else vstate m t' k' d')"
proof -
  obtain r m1 where r: "getOrCreateGroup R m t k = (r, m1)" by fastforce
  then obtain g where Inr: "r = Inr g" using assms(6) by (cases r) (auto simp: publishLocal_def)
  note ginv = getOrCreateGroup_inv [OF assms(1) r assms(2,3)]
  note g = ginv(6) [OF Inr]
  let ?b = "bucket_of g d"
  have m': "m' = set_group t k (set_bucket d (storeLocal ?b pos sg) g) m1"
    using assms(6) r Inr by (simp add: publishLocal_def)
  note bi = bucket_of_inv [OF ginv(1) conjunct1 [OF conjunct2 [OF g]], of d]
  have gk: "partialKindFor t = Some (g_kind g, g_subnet g)"
    "g_committeeSize g = res_CommitteeSize R (g_kind g) (g_subnet g) k"
    using g unfolding group_ok_def by blast+
  have "g_kind g = kind" "g_subnet g = sub" using gk(1) assms(2) by simp_all
  then have width: "g_committeeSize g = res_CommitteeSize R kind sub k" using gk(2) by simp
  have inv: "bucket_inv (pm_maxPeers m1) (pm_maxIWant m1) (g_committeeSize g) (storeLocal ?b pos sg)"
    using assms(4,5) width by (intro storeLocal_inv [OF bi(2)]) simp_all
  have data: "bk_data (storeLocal ?b pos sg) = d" using bi(1) by (simp add: storeLocal_def)
  show "manager_inv R m'"
    unfolding m' using g inv data by (intro manager_inv_set_group ginv(1) group_ok_set_bucket) simp_all
  show "pm_floor m' = pm_floor m" using ginv(3) by (simp add: m')
  have dom: "validating ?b \<union> validated ?b = dom (attestations ?b)"
    using bi(2) unfolding bucket_inv_def by blast
  have st: "(validating (storeLocal ?b pos sg), validated (storeLocal ?b pos sg)) =
      (if pos \<notin> validating ?b then (validating ?b, insert pos (validated ?b))
       else (validating ?b, validated ?b))"
    using dom by (auto simp: storeLocal_def)
  have old: "vstate m t k d = (validating ?b, validated ?b)"
    using vstate_bucket_of [of m1 t k g d] g ginv(2) by simp
  have upd: "vstate m' t' k' d' = (if t' = t \<and> k' = k \<and> d' = d
      then (validating (storeLocal ?b pos sg), validated (storeLocal ?b pos sg)) else vstate m t' k' d')"
    unfolding m' ginv(2) [symmetric] using g by (intro vstate_set_bucket) simp
  show "vstate m' t' k' d' =
      (if t' = t \<and> k' = k \<and> d' = d \<and> pos \<notin> fst (vstate m t k d)
       then (fst (vstate m t k d), insert pos (snd (vstate m t k d))) else vstate m t' k' d')"
    unfolding upd st old fst_conv snd_conv using old by (cases "pos \<in> validating ?b") auto
qed

lemma markValidated_effect:
  assumes "manager_inv R m" and "markValidated R sink at t k d ps m = (m', promoted, recs)"
  shows "manager_inv R m'" and "pm_floor m' = pm_floor m" and "distinct promoted"
    and "set promoted = set ps \<inter> fst (vstate m t k d)"
    and "vstate m' t' k' d' =
      (if t' = t \<and> k' = k \<and> d' = d
       then (fst (vstate m t k d) - set ps, snd (vstate m t k d) \<union> set promoted)
       else vstate m t' k' d')"
    and "length recs = (if sink then length promoted else 0)"
proof -
  let ?goal = "manager_inv R m' \<and> pm_floor m' = pm_floor m \<and> distinct promoted \<and>
     set promoted = set ps \<inter> fst (vstate m t k d) \<and>
     (\<forall>t' k' d'. vstate m' t' k' d' =
       (if t' = t \<and> k' = k \<and> d' = d
        then (fst (vstate m t k d) - set ps, snd (vstate m t k d) \<union> set promoted)
        else vstate m t' k' d')) \<and> length recs = (if sink then length promoted else 0)"
  have ?goal
  proof (cases "\<exists>g b. pm_group m t k = Some g \<and> g_buckets g d = Some b")
    case False
    then have "m' = m \<and> promoted = [] \<and> recs = [] \<and> vstate m t k d = ({}, {})"
      using assms(2) by (auto simp: markValidated_def vstate_def split: option.splits)
    then show ?thesis using assms(1) by simp
  next
    case True
    then obtain g b where g: "pm_group m t k = Some g" and b: "g_buckets g d = Some b" by blast
    obtain b' new where p: "promote b ps = (b', new)" by fastforce
    note ok = manager_inv_group [OF assms(1) g]
    have bok: "bk_data b = d" "bucket_inv (pm_maxPeers m) (pm_maxIWant m) (g_committeeSize g) b"
      using ok b unfolding group_ok_def buckets_ok_def by blast+
    note pi = promote_inv [OF bok(2) p]
    have out: "m' = set_group t k (set_bucket d b' g) m" "promoted = new"
      "length recs = (if sink then length promoted else 0)"
      using assms(2) g b p by (auto simp: markValidated_def)
    have vs: "vstate m t k d = (validating b, validated b)" using g b by (simp add: vstate_def)
    have "manager_inv R m'"
      unfolding out using ok pi(1,6) bok(1) by (intro manager_inv_set_group assms(1) group_ok_set_bucket) simp_all
    then show ?thesis
      using pi(2-5) vs out(3) by (simp add: out(1,2) vstate_set_bucket [OF g])
  qed
  then show "manager_inv R m'" "pm_floor m' = pm_floor m" "distinct promoted"
    "set promoted = set ps \<inter> fst (vstate m t k d)"
    "vstate m' t' k' d' =
      (if t' = t \<and> k' = k \<and> d' = d
       then (fst (vstate m t k d) - set ps, snd (vstate m t k d) \<union> set promoted)
       else vstate m t' k' d')"
    "length recs = (if sink then length promoted else 0)"
    by blast+
qed

lemma seal_effect:
  assumes "manager_inv R m"
  shows "manager_inv R (seal m kind grp)" and "vstate (seal m kind grp) = vstate m"
proof -
  have "group_ok R (seal m kind grp) t k g'" if sl: "pm_group (seal m kind grp) t k = Some g'" for t k g'
  proof -
    obtain g where g: "pm_group m t k = Some g"
      and g': "g' = (if swept kind grp k g then g\<lparr>g_sealed := True\<rparr> else g)"
      using sl by (auto simp: pm_group_seal)
    have "group_ok R m t k g'"
    proof -
      have "buckets_ok mp mi g' = buckets_ok mp mi g" for mp mi by (simp add: g' buckets_ok_def)
      then show ?thesis using manager_inv_group [OF assms g] by (simp add: g' group_ok_def)
    qed
    then show ?thesis using group_ok_cong [of "seal m kind grp" m] by simp
  qed
  then show "manager_inv R (seal m kind grp)" using assms by (simp add: manager_inv_def)
  show "vstate (seal m kind grp) = vstate m"
    by (auto simp: vstate_def fun_eq_iff pm_group_seal split: option.split)
qed

lemma prune_effect:
  assumes "manager_inv R m"
  shows "manager_inv R (prune m kind grp)"
    and "\<not> below_floor (prune m kind grp) kind' k \<Longrightarrow> partialKindFor t = Some (kind', sub) \<Longrightarrow>
         vstate (prune m kind grp) t k d = vstate m t k d"
proof -
  have "group_ok R (prune m kind grp) t k g" if "pm_group (prune m kind grp) t k = Some g" for t k g
  proof -
    have g: "pm_group m t k = Some g" "\<not> swept kind grp k g"
      using that by (auto simp: pm_group_prune split: option.splits if_splits)
    note ok = manager_inv_group [OF assms g(1)]
    have "\<not> below_floor (prune m kind grp) (g_kind g) k"
      using ok g(2) by (auto simp: group_ok_def below_floor_prune swept_def)
    then show ?thesis using ok by (simp add: group_ok_def)
  qed
  then show "manager_inv R (prune m kind grp)" using assms by (simp add: manager_inv_def)
  assume alive: "\<not> below_floor (prune m kind grp) kind' k" and kind: "partialKindFor t = Some (kind', sub)"
  have "pm_group (prune m kind grp) t k = pm_group m t k"
  proof (cases "pm_group m t k")
    case (Some g)
    have "g_kind g = kind'" using manager_inv_group [OF assms Some] kind by (simp add: group_ok_def)
    then show ?thesis using alive Some by (auto simp: pm_group_prune below_floor_prune swept_def)
  qed (simp add: pm_group_prune)
  then show "vstate (prune m kind grp) t k d = vstate m t k d" by (simp add: vstate_def)
qed

section \<open>The state machine\<close>

text \<open>
  \<open>ps_jobs\<close> are the submitted items whose callback has not run; \<open>ps_arrived\<close> is the history of
  the synthesized arrivals: topic, group key, attestation data and position.
\<close>

record psys =
  ps_mgr :: partialManager
  ps_jobs :: "verify_job list"
  ps_arrived :: "(string \<times> int \<times> bytes \<times> int) list"

definition arrivals_of :: "verify_job \<Rightarrow> int list \<Rightarrow> (string \<times> int \<times> bytes \<times> int) list" where
  "arrivals_of j promoted = map (\<lambda>pos. (job_topic j, job_group j, job_data j, pos)) promoted"

inductive pstep :: "bitmap_ops \<Rightarrow> envelope_codec \<Rightarrow> PartialResolver \<Rightarrow> psys \<Rightarrow> psys \<Rightarrow> bool"
  for B :: bitmap_ops and E :: envelope_codec and R :: PartialResolver where
  rpc: "onIncomingRPC B E R sender rpc (ps_mgr s) pst = (e, m, pst', js) \<Longrightarrow>
    pstep B E R s (s\<lparr>ps_mgr := m, ps_jobs := ps_jobs s @ js\<rparr>)"
| verified: "ps_jobs s = js @ j # js' \<Longrightarrow>
    markValidated R sink at (job_topic j) (job_group j) (job_data j) (job_fresh j) (ps_mgr s) =
      (m, promoted, recs) \<Longrightarrow>
    pstep B E R s (s\<lparr>ps_mgr := m, ps_jobs := js @ js',
                    ps_arrived := ps_arrived s @ arrivals_of j promoted\<rparr>)"
| own: "partialKindFor t = Some (kind, sub) \<Longrightarrow> \<not> below_floor (ps_mgr s) kind k \<Longrightarrow>
    0 \<le> pos \<Longrightarrow> pos < res_CommitteeSize R kind sub k \<Longrightarrow>
    publishLocal R (ps_mgr s) t k pos sg d = Some m \<Longrightarrow>
    pstep B E R s (s\<lparr>ps_mgr := m\<rparr>)"
| tick: "publishActions B E (ps_mgr s) t k ord pst rq acc = Some (m, pst', out) \<Longrightarrow>
    pstep B E R s (s\<lparr>ps_mgr := m\<rparr>)"
| seals: "pstep B E R s (s\<lparr>ps_mgr := seal (ps_mgr s) kind k\<rparr>)"
| prunes: "pstep B E R s (s\<lparr>ps_mgr := prune (ps_mgr s) kind k\<rparr>)"

definition pinit :: "partialManager \<Rightarrow> psys" where
  "pinit m = \<lparr>ps_mgr = m, ps_jobs = [], ps_arrived = []\<rparr>"

inductive preach :: "bitmap_ops \<Rightarrow> envelope_codec \<Rightarrow> PartialResolver \<Rightarrow> partialManager \<Rightarrow> psys \<Rightarrow> bool"
  for B :: bitmap_ops and E :: envelope_codec and R :: PartialResolver and m0 :: partialManager where
  start: "preach B E R m0 (pinit m0)"
| step: "preach B E R m0 s \<Longrightarrow> pstep B E R s s' \<Longrightarrow> preach B E R m0 s'"

text \<open>
  The global invariant: above the floor, the validating positions of a bucket are exactly those of
  the outstanding items, each in one item once; an arrival is validated and happened once.
\<close>

definition alive :: "partialManager \<Rightarrow> string \<Rightarrow> int \<Rightarrow> bool" where
  "alive m t k \<longleftrightarrow> (\<exists>kind sub. partialKindFor t = Some (kind, sub) \<and> \<not> below_floor m kind k)"

definition loc_ok :: "psys \<Rightarrow> string \<Rightarrow> int \<Rightarrow> bytes \<Rightarrow> bool" where
  "loc_ok s t k d \<longleftrightarrow> (alive (ps_mgr s) t k \<longrightarrow>
     distinct (pending (ps_jobs s) t k d) \<and>
     set (pending (ps_jobs s) t k d) = fst (vstate (ps_mgr s) t k d) \<and>
     fst (vstate (ps_mgr s) t k d) \<inter> snd (vstate (ps_mgr s) t k d) = {} \<and>
     (\<forall>pos. (t, k, d, pos) \<in> set (ps_arrived s) \<longrightarrow> pos \<in> snd (vstate (ps_mgr s) t k d)))"

definition psys_inv :: "PartialResolver \<Rightarrow> psys \<Rightarrow> bool" where
  "psys_inv R s \<longleftrightarrow> manager_inv R (ps_mgr s) \<and> (\<forall>t k d. loc_ok s t k d) \<and> distinct (ps_arrived s)"

lemma dead_vstate:
  assumes "manager_inv R m" and "\<not> alive m t k" shows "vstate m t k d = ({}, {})"
proof (cases "pm_group m t k")
  case (Some g)
  from manager_inv_group [OF assms(1) this] have "alive m t k" by (auto simp: group_ok_def alive_def)
  then show ?thesis using assms(2) by blast
qed (simp add: vstate_def)

lemma alive_cong: "pm_floor m' = pm_floor m \<Longrightarrow> alive m' t k = alive m t k"
  by (simp add: alive_def below_floor_def)

lemma psys_inv_grows:
  assumes "psys_inv R s" and "grows R (ps_mgr s) m js"
  shows "psys_inv R (s\<lparr>ps_mgr := m, ps_jobs := ps_jobs s @ js\<rparr>)"
proof -
  let ?s = "s\<lparr>ps_mgr := m, ps_jobs := ps_jobs s @ js\<rparr>"
  have fl: "pm_floor m = pm_floor (ps_mgr s)" using assms(2) by (simp add: grows_def)
  have "loc_ok ?s t k d" for t k d
  proof -
    have lg: "loc_grows (ps_mgr s) m js t k d" using assms(2) by (simp add: grows_def)
    have inv: "manager_inv R m" by (rule grows_inv [OF assms(2)])
    have ok: "loc_ok s t k d" using assms(1) by (simp add: psys_inv_def)
    have disj: "fst (vstate m t k d) \<inter> snd (vstate m t k d) = {}"
    proof (cases "\<exists>g b. pm_group m t k = Some g \<and> g_buckets g d = Some b")
      case True
      then obtain g b where gb: "pm_group m t k = Some g" "g_buckets g d = Some b" by blast
      have "bucket_inv (pm_maxPeers m) (pm_maxIWant m) (g_committeeSize g) b"
        using manager_inv_group [OF inv gb(1)] gb(2) unfolding group_ok_def buckets_ok_def by blast
      then show ?thesis using gb by (simp add: vstate_def bucket_inv_def)
    qed (auto simp: vstate_def split: option.split)
    show ?thesis
      using lg ok disj alive_cong [OF fl, of t k] by (auto simp: loc_ok_def loc_grows_def)
  qed
  then show ?thesis using assms grows_inv [OF assms(2)] by (simp add: psys_inv_def)
qed

lemma psys_inv_verified:
  assumes "psys_inv R s" and "ps_jobs s = js @ j # js'"
    and "markValidated R sink at (job_topic j) (job_group j) (job_data j) (job_fresh j) (ps_mgr s) =
      (m, promoted, recs)"
  shows "psys_inv R (s\<lparr>ps_mgr := m, ps_jobs := js @ js', ps_arrived := ps_arrived s @ arrivals_of j promoted\<rparr>)"
proof -
  let ?s = "s\<lparr>ps_mgr := m, ps_jobs := js @ js', ps_arrived := ps_arrived s @ arrivals_of j promoted\<rparr>"
  let ?t = "job_topic j" and ?k = "job_group j" and ?d = "job_data j"
  have inv: "manager_inv R (ps_mgr s)" and locs: "loc_ok s t k d" for t k d
    using assms(1) by (simp_all add: psys_inv_def)
  note ef = markValidated_effect [OF inv assms(3)]
  have here: "loc_ok s ?t ?k ?d" by (rule locs)
  have al: "alive m t k = alive (ps_mgr s) t k" for t k by (rule alive_cong [OF ef(2)])
  have pend: "pending (ps_jobs s) t k d = pending js t k d @
      (if ?t = t \<and> ?k = k \<and> ?d = d then job_fresh j else []) @ pending js' t k d" for t k d
    by (simp add: assms(2) pending_Cons)
  have fresh: "set promoted \<subseteq> fst (vstate (ps_mgr s) ?t ?k ?d)" using ef(4) by blast
  have dead: "promoted = []" if "\<not> alive (ps_mgr s) ?t ?k"
    using fresh dead_vstate [OF inv that] by simp
  have "loc_ok ?s t k d" for t k d
  proof (cases "t = ?t \<and> k = ?k \<and> d = ?d")
    case False
    have "vstate m t k d = vstate (ps_mgr s) t k d" using ef(5) [of t k d] False by (simp split: if_splits)
    moreover have "pending (js @ js') t k d = pending (ps_jobs s) t k d" using pend [of t k d] False by auto
    moreover have "(t, k, d, pos) \<in> set (ps_arrived ?s) \<longleftrightarrow> (t, k, d, pos) \<in> set (ps_arrived s)" for pos
      using False by (auto simp: arrivals_of_def)
    ultimately show ?thesis using locs [of t k d] al [of t k] by (simp add: loc_ok_def)
  next
    case True
    let ?v = "vstate (ps_mgr s) ?t ?k ?d"
    have st: "vstate m ?t ?k ?d = (fst ?v - set (job_fresh j), snd ?v \<union> set promoted)"
      using ef(5) [of ?t ?k ?d] by simp
    have "distinct (pending (js @ js') ?t ?k ?d) \<and>
        set (pending (js @ js') ?t ?k ?d) = fst (vstate m ?t ?k ?d) \<and>
        fst (vstate m ?t ?k ?d) \<inter> snd (vstate m ?t ?k ?d) = {} \<and>
        (\<forall>pos. (?t, ?k, ?d, pos) \<in> set (ps_arrived ?s) \<longrightarrow> pos \<in> snd (vstate m ?t ?k ?d))"
      if a: "alive (ps_mgr s) ?t ?k"
    proof -
      have ok: "distinct (pending (ps_jobs s) ?t ?k ?d)" "set (pending (ps_jobs s) ?t ?k ?d) = fst ?v"
        "fst ?v \<inter> snd ?v = {}" "\<forall>pos. (?t, ?k, ?d, pos) \<in> set (ps_arrived s) \<longrightarrow> pos \<in> snd ?v"
        using here a by (simp_all add: loc_ok_def)
      have p: "pending (ps_jobs s) ?t ?k ?d = pending js ?t ?k ?d @ job_fresh j @ pending js' ?t ?k ?d"
        using pend [of ?t ?k ?d] by simp
      show ?thesis
        using ok(1,3,4) ok(2) [symmetric] ef(4) unfolding p st by (auto simp: arrivals_of_def)
    qed
    then show ?thesis using True al [of ?t ?k] by (simp add: loc_ok_def)
  qed
  moreover have "distinct (ps_arrived s @ arrivals_of j promoted)"
  proof -
    have "distinct (arrivals_of j promoted)"
      using ef(3) by (auto simp: arrivals_of_def distinct_map inj_on_def)
    moreover have "(?t, ?k, ?d, pos) \<notin> set (ps_arrived s)" if p: "pos \<in> set promoted" for pos
    proof (cases "alive (ps_mgr s) ?t ?k")
      case True
      have "pos \<in> fst (vstate (ps_mgr s) ?t ?k ?d)" using fresh p by blast
      then show ?thesis using here True unfolding loc_ok_def by blast
    next
      case False
      then show ?thesis using dead p by simp
    qed
    ultimately show ?thesis using assms(1) by (auto simp: psys_inv_def arrivals_of_def)
  qed
  ultimately show ?thesis using ef(1) by (simp add: psys_inv_def)
qed

lemma psys_inv_own:
  assumes "psys_inv R s" and "partialKindFor t = Some (kind, sub)" and "\<not> below_floor (ps_mgr s) kind k"
    and "0 \<le> pos" and "pos < res_CommitteeSize R kind sub k"
    and "publishLocal R (ps_mgr s) t k pos sg d = Some m"
  shows "psys_inv R (s\<lparr>ps_mgr := m\<rparr>)"
proof -
  have inv: "manager_inv R (ps_mgr s)" and locs: "loc_ok s t k d" for t k d
    using assms(1) by (simp_all add: psys_inv_def)
  note ef = publishLocal_effect [OF inv assms(2-6)]
  have "loc_ok (s\<lparr>ps_mgr := m\<rparr>) t' k' d'" for t' k' d'
  proof -
    have al: "alive m t' k' = alive (ps_mgr s) t' k'" by (rule alive_cong [OF ef(2)])
    show ?thesis
    proof (cases "t' = t \<and> k' = k \<and> d' = d \<and> pos \<notin> fst (vstate (ps_mgr s) t k d)")
      case True
      then have "vstate m t' k' d' =
          (fst (vstate (ps_mgr s) t' k' d'), insert pos (snd (vstate (ps_mgr s) t' k' d')))"
        using ef(3) [of t' k' d'] by simp
      then show ?thesis using locs [of t' k' d'] al True by (auto simp: loc_ok_def)
    next
      case False
      have "vstate m t' k' d' = vstate (ps_mgr s) t' k' d'"
        using ef(3) [of t' k' d'] unfolding if_not_P [OF False] .
      then show ?thesis using locs [of t' k' d'] al by (simp add: loc_ok_def)
    qed
  qed
  then show ?thesis using assms(1) ef(1) by (simp add: psys_inv_def)
qed

lemma psys_inv_prune:
  assumes "psys_inv R s"
  shows "psys_inv R (s\<lparr>ps_mgr := prune (ps_mgr s) kind k\<rparr>)"
proof -
  let ?m = "prune (ps_mgr s) kind k"
  have inv: "manager_inv R (ps_mgr s)" and locs: "loc_ok s t k d" for t k d
    using assms(1) by (simp_all add: psys_inv_def)
  have "loc_ok (s\<lparr>ps_mgr := ?m\<rparr>) t' k' d'" for t' k' d'
  proof (cases "alive ?m t' k'")
    case True
    then obtain kind' sub where kk: "partialKindFor t' = Some (kind', sub)" "\<not> below_floor ?m kind' k'"
      by (auto simp: alive_def)
    have "alive (ps_mgr s) t' k'" using kk by (auto simp: alive_def below_floor_prune)
    moreover have "vstate ?m t' k' d' = vstate (ps_mgr s) t' k' d'"
      by (rule prune_effect(2) [OF inv kk(2,1)])
    ultimately show ?thesis using locs [of t' k' d'] by (simp add: loc_ok_def)
  qed (simp add: loc_ok_def)
  then show ?thesis using assms prune_effect(1) [OF inv] by (simp add: psys_inv_def)
qed

lemma psys_inv_seal:
  assumes "psys_inv R s"
  shows "psys_inv R (s\<lparr>ps_mgr := seal (ps_mgr s) kind k\<rparr>)"
proof -
  have inv: "manager_inv R (ps_mgr s)" using assms by (simp add: psys_inv_def)
  have "grows R (ps_mgr s) (seal (ps_mgr s) kind k) []"
    using seal_effect [OF inv] by (intro grows_quiet) simp_all
  from psys_inv_grows [OF assms this] show ?thesis by simp
qed

lemma pstep_inv:
  assumes "bitmap_ok B" and "psys_inv R s" and "pstep B E R s s'"
  shows "psys_inv R s'"
  using assms(3)
proof cases
  case (rpc sender rpc pst e m pst' js)
  have "manager_inv R (ps_mgr s)" using assms(2) by (simp add: psys_inv_def)
  from psys_inv_grows [OF assms(2) onIncomingRPC_grows [OF assms(1) this rpc(2)]] rpc(1)
  show ?thesis by simp
next
  case (verified js j js' sink at m promoted recs)
  then show ?thesis using psys_inv_verified [OF assms(2)] by blast
next
  case (own t kind sub k pos sg d m)
  then show ?thesis using psys_inv_own [OF assms(2)] by blast
next
  case (tick t k ord pst rq acc m pst' out)
  have "manager_inv R (ps_mgr s)" using assms(2) by (simp add: psys_inv_def)
  then have "grows R (ps_mgr s) m []"
    using publishActions_grows [OF assms(1), of R "ps_mgr s" E t k ord pst rq acc] tick(2) by auto
  from psys_inv_grows [OF assms(2) this] tick(1) show ?thesis by simp
next
  case (seals kind k)
  then show ?thesis using psys_inv_seal [OF assms(2)] by blast
next
  case (prunes kind k)
  then show ?thesis using psys_inv_prune [OF assms(2)] by blast
qed

definition fresh_manager :: "partialManager \<Rightarrow> bool" where
  "fresh_manager m \<longleftrightarrow> pm_groups m = Map.empty \<and> 0 \<le> pm_maxPeers m \<and> 0 \<le> pm_maxIWant m"

lemma newPartialManager_fresh: "0 \<le> D \<Longrightarrow> newPartialManager opts D = Some m \<Longrightarrow> fresh_manager m"
  by (auto simp: newPartialManager_def fresh_manager_def split: if_splits)

lemma preach_inv:
  assumes "bitmap_ok B" and "fresh_manager m0" and "preach B E R m0 s"
  shows "psys_inv R s"
  using assms(3)
proof induction
  case start
  have "pm_group m0 = (\<lambda>t k. None)" using assms(2) by (simp add: pm_group_def fresh_manager_def fun_eq_iff)
  then show ?case using assms(2)
    by (simp add: psys_inv_def pinit_def manager_inv_def loc_ok_def vstate_def fresh_manager_def)
next
  case (step s s')
  then show ?case using pstep_inv [OF assms(1)] by blast
qed

lemma preach_manager_inv:
  "bitmap_ok B \<Longrightarrow> fresh_manager m0 \<Longrightarrow> preach B E R m0 s \<Longrightarrow> manager_inv R (ps_mgr s)"
  using preach_inv by (auto simp: psys_inv_def)

end
