(* ===== verification/Resolver.thy ===== *)
theory Resolver
  imports PartialSystem PlanView
begin

text \<open>
  The schedule-backed identity resolver of the partial transport (src/driver/partial.go): the
  committee widths, the validator and host behind a position, and the mapping of the run's
  parameters onto a node's options.  \<open>None\<close> is a panic of the plan accessors it calls.
\<close>

section \<open>Parameters and resolver\<close>

record PartialParams =
  pp_PublishInterval :: dur
  pp_MaxPeersPerAttestation :: int
  pp_MaxIWantPerPosition :: int
  pp_AttestationDataSize :: int
  pp_SignatureSize :: int
  pp_DisableMetadataGossip :: bool

definition committee :: "Assignment \<Rightarrow> int \<Rightarrow> int \<Rightarrow> AttesterRef list option" where
  "committee a subnet grp =
     (if grp < 0 \<or> int (length (a_Slots a)) \<le> grp then Some []
      else (let sp = a_Slots a ! nat grp; ci = slices_Index (sp_SubnetOf sp) subnet
            in if ci < 0 then Some [] else go_index (sp_Committees sp) ci))"

definition resolver_CommitteeSize :: "Assignment \<Rightarrow> Kind \<Rightarrow> int \<Rightarrow> int \<Rightarrow> int option" where
  "resolver_CommitteeSize a kind subnet grp =
     (case kind of
        KindAttestation \<Rightarrow> map_option (\<lambda>c. int (length c)) (committee a subnet grp)
      | KindFinalityVote \<Rightarrow> FinalityCellSize a subnet grp
      | _ \<Rightarrow> Some 0)"

definition resolver_Identity :: "Assignment \<Rightarrow> Kind \<Rightarrow> int \<Rightarrow> int \<Rightarrow> int \<Rightarrow> (int \<times> int) option" where
  "resolver_Identity a kind subnet grp position =
     (case kind of
        KindAttestation \<Rightarrow>
          map_option
            (\<lambda>c. case find (\<lambda>r. ref_Position r = position) c of
                   None \<Rightarrow> (-1, -1) | Some r \<Rightarrow> (ref_Val r, ref_Node r))
            (committee a subnet grp)
      | KindFinalityVote \<Rightarrow>
          map_option (\<lambda>v. if 0 \<le> v then (v, HostOf a v) else (-1, -1))
            (FinalityValAt a subnet grp position)
      | _ \<Rightarrow> Some (-1, -1))"

text \<open>The interface value the node receives; a panic has no value to return.\<close>

definition NewPartialResolver :: "Assignment \<Rightarrow> PartialResolver" where
  "NewPartialResolver a =
     \<lparr>res_CommitteeSize = (\<lambda>kind subnet grp. the (resolver_CommitteeSize a kind subnet grp)),
      res_Identity = (\<lambda>kind subnet grp position. the (resolver_Identity a kind subnet grp position))\<rparr>"

definition NodeOpts :: "PartialParams \<Rightarrow> 64 word \<Rightarrow> PartialResolver option \<Rightarrow> PartialOpts" where
  "NodeOpts pp seed resolver =
     \<lparr>po_PublishInterval = pp_PublishInterval pp,
      po_MaxPeersPerAttestation = pp_MaxPeersPerAttestation pp,
      po_MaxIWantPerPosition = pp_MaxIWantPerPosition pp,
      po_DisableMetadataGossip = pp_DisableMetadataGossip pp,
      po_Seed = seed, po_Resolver = resolver\<rparr>"

definition dataSize :: "PartialParams \<Rightarrow> int" where
  "dataSize pp = (if pp_AttestationDataSize pp > 0 then pp_AttestationDataSize pp else PartialAttDataSize)"

definition sigSize :: "PartialParams \<Rightarrow> int" where
  "sigSize pp = (if pp_SignatureSize pp > 0 then pp_SignatureSize pp else PartialSignatureSize)"

section \<open>Well-formed plans\<close>

text \<open>
  What the generator guarantees of a slot: one committee per entry of \<open>SubnetOf\<close>, distinct subnets,
  and each member numbered by its place in its committee, with its subnet, no validator twice.
\<close>

definition wf_committee :: "int \<Rightarrow> AttesterRef list \<Rightarrow> bool" where
  "wf_committee subnet c \<longleftrightarrow> distinct (map ref_Val c) \<and>
     (\<forall>i < length c. ref_Position (c ! i) = int i \<and> ref_Subnet (c ! i) = subnet)"

definition wf_slot :: "SlotPlan \<Rightarrow> bool" where
  "wf_slot sp \<longleftrightarrow> distinct (sp_SubnetOf sp) \<and> length (sp_Committees sp) = length (sp_SubnetOf sp) \<and>
     (\<forall>ci < length (sp_Committees sp). wf_committee (sp_SubnetOf sp ! ci) (sp_Committees sp ! ci))"

definition wf_plan :: "Assignment \<Rightarrow> bool" where
  "wf_plan a \<longleftrightarrow> wf_finality a \<and> wf_hosting a \<and> (\<forall>sp \<in> set (a_Slots a). wf_slot sp)"

lemma find_position:
  assumes "wf_committee subnet c" and "0 \<le> p" and "p < int (length c)"
  shows "find (\<lambda>r. ref_Position r = p) c = Some (c ! nat p)"
proof -
  have "find (\<lambda>r. ref_Position r = p) c \<noteq> None"
    using assms by (auto simp: find_None_iff wf_committee_def set_conv_nth intro!: exI [of _ "nat p"])
  then obtain r where r: "find (\<lambda>r. ref_Position r = p) c = Some r" by blast
  then obtain i where i: "i < length c" "r = c ! i" "ref_Position r = p"
    by (auto simp: find_Some_iff)
  then have "int i = p" using assms(1) by (simp add: wf_committee_def)
  then show ?thesis using r i(2) by auto
qed

lemma find_no_position:
  assumes "wf_committee subnet c" and "\<not> (0 \<le> p \<and> p < int (length c))"
  shows "find (\<lambda>r. ref_Position r = p) c = None"
  using assms by (auto simp: find_None_iff wf_committee_def set_conv_nth)

lemma slices_Index_distinct:
  assumes "distinct xs" and "i < length xs"
  shows "slices_Index xs (xs ! i) = int i"
proof -
  have "0 \<le> slices_Index xs (xs ! i)" using assms(2) by (simp add: slices_Index_def)
  note nth = slices_Index_nth [OF refl this]
  then have "nat (slices_Index xs (xs ! i)) = i"
    using assms nth_eq_iff_index_eq [OF assms(1)] by (simp add: nat_less_iff \<open>0 \<le> slices_Index xs (xs ! i)\<close>)
  then show ?thesis using \<open>0 \<le> slices_Index xs (xs ! i)\<close> by simp
qed

text \<open>In a well-formed plan a lookup is the committee of the subnet, or empty.\<close>

lemma committee_wf:
  assumes "wf_plan a"
  obtains c where "committee a subnet grp = Some c" and "wf_committee subnet c"
proof (cases "grp < 0 \<or> int (length (a_Slots a)) \<le> grp \<or> slices_Index (sp_SubnetOf (a_Slots a ! nat grp)) subnet < 0")
  case True
  then have "committee a subnet grp = Some []" by (auto simp: committee_def Let_def)
  then show thesis using that by (simp add: wf_committee_def)
next
  case False
  let ?sp = "a_Slots a ! nat grp" and ?ci = "slices_Index (sp_SubnetOf (a_Slots a ! nat grp)) subnet"
  have "nat grp < length (a_Slots a)" using False by linarith
  then have "?sp \<in> set (a_Slots a)" by simp
  then have wf: "wf_slot ?sp" using assms by (simp add: wf_plan_def)
  note ci = slices_Index_nth [OF refl, of "sp_SubnetOf ?sp" subnet]
  have "0 \<le> ?ci" using False by linarith
  then have len: "nat ?ci < length (sp_Committees ?sp)"
    using wf ci(1) by (simp add: wf_slot_def nat_less_iff)
  then have "wf_committee subnet (sp_Committees ?sp ! nat ?ci)"
    using wf ci(2) False by (auto simp: wf_slot_def)
  moreover have "committee a subnet grp = Some (sp_Committees ?sp ! nat ?ci)"
    using False len by (simp add: committee_def Let_def)
  ultimately show thesis using that by blast
qed

lemma committee_of_slot:
  assumes "wf_plan a" and "s < length (a_Slots a)" and "ci < length (sp_Committees (a_Slots a ! s))"
    and "i < length (sp_Committees (a_Slots a ! s) ! ci)"
  defines "r \<equiv> sp_Committees (a_Slots a ! s) ! ci ! i"
  shows "committee a (ref_Subnet r) (int s) = Some (sp_Committees (a_Slots a ! s) ! ci)"
    and "ref_Position r = int i"
proof -
  let ?sp = "a_Slots a ! s"
  have wf: "wf_slot ?sp" using assms(1,2) by (simp add: wf_plan_def)
  then have c: "wf_committee (sp_SubnetOf ?sp ! ci) (sp_Committees ?sp ! ci)"
    using assms(3) by (simp add: wf_slot_def)
  then show "ref_Position r = int i" using assms(4) by (simp add: r_def wf_committee_def)
  have "ref_Subnet r = sp_SubnetOf ?sp ! ci" using c assms(4) by (simp add: r_def wf_committee_def)
  then have "slices_Index (sp_SubnetOf ?sp) (ref_Subnet r) = int ci"
    using wf assms(3) by (simp add: slices_Index_distinct wf_slot_def)
  then show "committee a (ref_Subnet r) (int s) = Some (sp_Committees ?sp ! ci)"
    using assms(2,3) by (simp add: committee_def Let_def)
qed

text \<open>A node's attestation duty is a seat of its committee.\<close>

lemma attest_duty_committee:
  assumes "wf_plan a" and "s < length (a_Slots a)" and "d \<in> set (slot_attest_duties (a_Slots a ! s) node)"
  obtains c i where "committee a (ad_Subnet d) (int s) = Some c" and "i < length c" and "ad_Position d = int i"
    and "ref_Val (c ! i) = ad_Val d" and "ref_Node (c ! i) = node"
proof -
  let ?sp = "a_Slots a ! s"
  obtain r where r: "r \<in> set (concat (sp_Committees ?sp))" "ref_Node r = node"
    "d = \<lparr>ad_Subnet = ref_Subnet r, ad_Val = ref_Val r, ad_Position = ref_Position r\<rparr>"
    using assms(3) by (auto simp: slot_attest_duties_def)
  from r(1) obtain c where c: "c \<in> set (sp_Committees ?sp)" "r \<in> set c" by auto
  then obtain ci i where i: "ci < length (sp_Committees ?sp)" "i < length (sp_Committees ?sp ! ci)"
    "r = sp_Committees ?sp ! ci ! i"
    by (metis in_set_conv_nth)
  from committee_of_slot [OF assms(1,2) i(1,2), folded i(3)] i r that show thesis by simp
qed

section \<open>The contract of a resolver\<close>

text \<open>
  What the transport's consumers need of a resolver: inside the width of a group, different
  positions have different identities.
\<close>

locale resolver_spec =
  fixes width :: "Kind \<Rightarrow> int \<Rightarrow> int \<Rightarrow> int" and ident :: "Kind \<Rightarrow> int \<Rightarrow> int \<Rightarrow> int \<Rightarrow> int \<times> int"
  assumes ident_inj: "0 \<le> g \<Longrightarrow> 0 \<le> p \<Longrightarrow> p < width k s g \<Longrightarrow> 0 \<le> q \<Longrightarrow> q < width k s g \<Longrightarrow>
    ident k s g p = ident k s g q \<Longrightarrow> p = q"
begin

lemma distinct_idents:
  "0 \<le> g \<Longrightarrow> distinct ps \<Longrightarrow> set ps \<subseteq> {0..<width k s g} \<Longrightarrow> distinct (map (ident k s g) ps)"
proof -
  assume h: "0 \<le> g" "distinct ps" "set ps \<subseteq> {0..<width k s g}"
  have "p = q" if "p \<in> set ps" "q \<in> set ps" "ident k s g p = ident k s g q" for p q
  proof -
    have "0 \<le> p" "p < width k s g" "0 \<le> q" "q < width k s g" using h(3) that(1,2) by auto
    then show ?thesis using ident_inj [OF h(1)] that(3) by blast
  qed
  then show "distinct (map (ident k s g) ps)" using h(2) by (auto simp: distinct_map inj_on_def)
qed

end

locale plan =
  fixes a :: Assignment
  assumes wf: "wf_plan a"
begin

lemma attestation_identity:
  assumes "committee a s g = Some c" and "0 \<le> p" and "p < int (length c)"
  shows "resolver_Identity a KindAttestation s g p = Some (ref_Val (c ! nat p), ref_Node (c ! nat p))"
proof -
  have "wf_committee s c" using committee_wf [OF wf, of s g] assms(1) by auto
  then show ?thesis using assms find_position by (simp add: resolver_Identity_def)
qed

lemma finality_identity:
  assumes "0 \<le> g" and "FinalityCellSize a s g = Some n" and "0 \<le> p" and "p < n"
  obtains v where "FinalityValAt a s g p = Some v" and "0 \<le> v"
    and "v < int (length (a_FinalitySubnetOf a))"
    and "resolver_Identity a KindFinalityVote s g p = Some (v, HostOf a v)"
proof -
  have wff: "wf_finality a" using wf by (simp add: wf_plan_def)
  obtain r where r: "group_round a g = Some r" using group_round_eq [OF wff assms(1)] by blast
  let ?cell = "cell_upto a s r (length (a_FinalitySubnetOf a))"
  have in_range: "0 \<le> s \<and> s < rank_subnets a \<and> n = int (length ?cell)"
    using FinalityCellSize_eq [OF wff assms(1) r, of s] assms(2-4) by (auto split: if_splits)
  let ?v = "?cell ! nat p"
  have v: "FinalityValAt a s g p = Some (int ?v)"
    using FinalityValAt_eq [OF wff assms(1) r, of s p] in_range assms(3,4) by simp
  moreover have "?v < length (a_FinalitySubnetOf a)"
    using nth_cell_upto_in_cell(2) [of "nat p" a s r "length (a_FinalitySubnetOf a)"] in_range assms(3,4) by simp
  ultimately show thesis using that [OF v] by (simp add: resolver_Identity_def)
qed

end

sublocale plan \<subseteq> plan_resolver: resolver_spec
  "res_CommitteeSize (NewPartialResolver a)" "res_Identity (NewPartialResolver a)"
proof
  fix g p q s :: int and k :: Kind
  assume g: "0 \<le> g" and p: "0 \<le> p" "p < res_CommitteeSize (NewPartialResolver a) k s g"
    and q: "0 \<le> q" "q < res_CommitteeSize (NewPartialResolver a) k s g"
    and eq: "res_Identity (NewPartialResolver a) k s g p = res_Identity (NewPartialResolver a) k s g q"
  have wff: "wf_finality a" using wf by (simp add: wf_plan_def)
  have none: "k = KindAttestation \<or> k = KindFinalityVote"
    using p by (cases k) (simp_all add: NewPartialResolver_def resolver_CommitteeSize_def)
  then show "p = q"
  proof
    assume k: "k = KindAttestation"
    obtain c where c: "committee a s g = Some c" "wf_committee s c" by (rule committee_wf [OF wf])
    have len: "res_CommitteeSize (NewPartialResolver a) k s g = int (length c)"
      using c k by (simp add: NewPartialResolver_def resolver_CommitteeSize_def)
    have "ref_Val (c ! nat p) = ref_Val (c ! nat q)"
      using eq k attestation_identity [OF c(1)] p q len by (simp add: NewPartialResolver_def)
    moreover have "distinct (map ref_Val c)" using c(2) by (simp add: wf_committee_def)
    ultimately have "nat p = nat q"
      using p q len by (simp add: distinct_conv_nth) (metis nat_less_iff)
    then show "p = q" using p(1) q(1) by simp
  next
    assume k: "k = KindFinalityVote"
    obtain n where n: "FinalityCellSize a s g = Some n"
      using FinalityCellSize_eq [OF wff g] group_round_eq [OF wff g] by blast
    have len: "res_CommitteeSize (NewPartialResolver a) k s g = n"
      using n k by (simp add: NewPartialResolver_def resolver_CommitteeSize_def)
    obtain v where v: "FinalityValAt a s g p = Some v" "0 \<le> v" "v < int (length (a_FinalitySubnetOf a))"
      "resolver_Identity a KindFinalityVote s g p = Some (v, HostOf a v)"
      using finality_identity [OF g n p(1)] p(2) len by auto
    obtain w where w: "FinalityValAt a s g q = Some w"
      "resolver_Identity a KindFinalityVote s g q = Some (w, HostOf a w)"
      using finality_identity [OF g n q(1)] q(2) len by auto
    have "v = w" using eq k v(4) w(2) by (simp add: NewPartialResolver_def)
    then have "FinalityPosition a v = Some p" "FinalityPosition a v = Some q"
      using FinalityValAt_iff [OF wff g v(2,3)] v(1) w(1) by blast+
    then show "p = q" by simp
  qed
qed

context plan begin

text \<open>Different positions of a group have different identities, for the plan's own resolver.\<close>

lemma distinct_identities:
  "0 \<le> g \<Longrightarrow> distinct ps \<Longrightarrow> set ps \<subseteq> {0..<res_CommitteeSize (NewPartialResolver a) k s g} \<Longrightarrow>
     distinct (map (res_Identity (NewPartialResolver a) k s g) ps)"
  by (rule plan_resolver.distinct_idents)

end

lemma example_plan_wf_plan: "wf_plan example_plan"
  unfolding wf_plan_def using example_plan_wf
  by (simp add: wf_slot_def wf_committee_def example_plan_def less_Suc_eq all_conj_distrib numeral_eq_Suc)

interpretation example: plan example_plan
  by (rule plan.intro) (rule example_plan_wf_plan)

section \<open>Properties\<close>

text \<open>
  The receiver of a partial attestation recovers who cast it.  In a well-formed plan every
  attestation duty of a node sits inside the width of its committee, and the resolver maps its
  (subnet, slot, position) back to exactly the duty's validator and the node that owes it.
\<close>

theorem resolver_recovers_attester:
  assumes "wf_plan a" and "s < length (a_Slots a)"
    and "d \<in> set (slot_attest_duties (a_Slots a ! s) node)"
  shows "\<exists>n. resolver_CommitteeSize a KindAttestation (ad_Subnet d) (int s) = Some n \<and>
    0 \<le> ad_Position d \<and> ad_Position d < n \<and>
    resolver_Identity a KindAttestation (ad_Subnet d) (int s) (ad_Position d) = Some (ad_Val d, node)"
proof -
  obtain c i where c: "committee a (ad_Subnet d) (int s) = Some c" "i < length c" "ad_Position d = int i"
    "ref_Val (c ! i) = ad_Val d" "ref_Node (c ! i) = node"
    by (rule attest_duty_committee [OF assms])
  from plan.attestation_identity [OF plan.intro [OF assms(1)] c(1), of "int i"] c show ?thesis
    by (simp add: resolver_CommitteeSize_def)
qed

theorem resolver_recovers_attester_witness:
  "resolver_Identity example_plan KindAttestation 0 0 1 = Some (3, 1)"
proof -
  let ?d = "\<lparr>ad_Subnet = 0, ad_Val = 3, ad_Position = 1\<rparr>"
  have "?d \<in> set (slot_attest_duties (a_Slots example_plan ! 0) 1)"
    by (simp add: slot_attest_duties_def example_plan_def)
  moreover have "0 < length (a_Slots example_plan)" by (simp add: example_plan_def)
  ultimately have "\<exists>n. resolver_CommitteeSize example_plan KindAttestation 0 0 = Some n \<and> 1 < n \<and>
      resolver_Identity example_plan KindAttestation 0 0 1 = Some (3, 1)"
    using resolver_recovers_attester [OF example_plan_wf_plan, of 0 ?d 1] by simp
  then show ?thesis by blast
qed

text \<open>
  The receiver of a partial finality vote recovers who cast it.  Every finality vote a node
  owes in a round sits inside the width of its (subnet, round) cell, and the resolver maps its
  position back to exactly that validator and the node that hosts it.
\<close>

theorem resolver_recovers_finality_voter:
  assumes "wf_plan a" and "0 \<le> node" and "node < numNodes a" and "0 \<le> slot"
    and "finalityVoteDuties a node slot = Some ds" and "d \<in> set ds"
  shows "\<exists>n. resolver_CommitteeSize a KindFinalityVote (ad_Subnet d) slot = Some n \<and>
    0 \<le> ad_Position d \<and> ad_Position d < n \<and>
    resolver_Identity a KindFinalityVote (ad_Subnet d) slot (ad_Position d) = Some (ad_Val d, node)"
proof -
  have wf: "wf_finality a" "wf_hosting a" using assms(1) by (simp_all add: wf_plan_def)
  obtain vs where vs: "finalityVoteDuties a node slot = Some (map (duty_of a) vs)"
    "set vs = {v. 0 \<le> v \<and> v < int (length (a_FinalitySubnetOf a)) \<and> HostOf a v = node \<and>
                  group_round a slot = Some (val_round a (nat v))}"
    by (rule finalityVoteDuties_eq [OF wf assms(2-4)])
  then obtain v where v: "d = duty_of a v" "v \<in> set vs" using assms(5,6) by auto
  then have vr: "0 \<le> v" "v < int (length (a_FinalitySubnetOf a))" "HostOf a v = node"
    "group_round a slot = Some (val_round a (nat v))"
    unfolding vs(2) by blast+
  let ?s = "a_FinalitySubnetOf a ! nat v" and ?r = "val_round a (nat v)"
  let ?cell = "cell_upto a ?s ?r (length (a_FinalitySubnetOf a))"
  have vn: "nat v < length (a_FinalitySubnetOf a)" using vr by simp
  have cell: "in_cell a ?s ?r (nat v)" by (simp add: in_cell_def)
  have sub: "0 \<le> ?s" "?s < rank_subnets a"
    using subnet_nonneg [OF wf(1) vn] subnet_less_rank_subnets [OF vn] by auto
  have sz: "FinalityCellSize a ?s slot = Some (int (length ?cell))"
    using FinalityCellSize_eq [OF wf(1) assms(4) vr(4), of ?s] sub by simp
  have pos: "ad_Position d = int (length (cell_upto a ?s ?r (nat v)))" "ad_Subnet d = ?s" "ad_Val d = v"
    by (simp_all add: v(1) duty_of_def rank_of_def)
  have "FinalityPosition a v = Some (ad_Position d)"
    using FinalityPosition_eq [OF wf(1) vn] vr(1) by (simp add: v(1) duty_of_def)
  then have "FinalityValAt a ?s slot (ad_Position d) = Some v"
    using FinalityValAt_iff [OF wf(1) assms(4) vr(1,2)] vr(4) by blast
  then have "resolver_Identity a KindFinalityVote (ad_Subnet d) slot (ad_Position d) = Some (v, node)"
    using pos(2) vr(1,3) by (simp add: resolver_Identity_def)
  moreover have "length (cell_upto a ?s ?r (nat v)) < length ?cell" by (rule nth_cell_upto(1) [OF vn cell])
  ultimately show ?thesis using sz pos by (simp add: resolver_CommitteeSize_def)
qed

theorem resolver_recovers_finality_voter_witness:
  "resolver_Identity example_plan KindFinalityVote 1 1 0 = Some (3, 1)"
proof -
  have n: "(1::int) < numNodes example_plan" by (simp add: numNodes_def example_plan_def)
  have d: "finalityVoteDuties example_plan 1 1 =
      Some [\<lparr>ad_Subnet = 0, ad_Val = 1, ad_Position = 0\<rparr>, \<lparr>ad_Subnet = 1, ad_Val = 3, ad_Position = 0\<rparr>]"
    by code_simp
  from resolver_recovers_finality_voter [OF example_plan_wf_plan _ n _ d,
      of "\<lparr>ad_Subnet = 1, ad_Val = 3, ad_Position = 0\<rparr>"]
  show ?thesis by auto
qed


text \<open>A run over the example plan: the slot's two committee members, in one batch.\<close>

definition plan_batch :: BatchedAttestation where
  "plan_batch = \<lparr>ba_AttestationData = [7], ba_AttestorIndices = [1, 0], ba_Signatures = [[1], [2]]\<rparr>"

definition plan_codec :: envelope_codec where
  "plan_codec = \<lparr>enc_ctrl = (\<lambda>mds. Some [1]), dec_ctrl = (\<lambda>bs. Some []),
     enc_data = (\<lambda>bs. Some [2]), dec_data = (\<lambda>bs. Some [plan_batch])\<rparr>"

definition plan_mgr :: partialManager where
  "plan_mgr = \<lparr>pm_interval = 20000000, pm_maxPeers = 16, pm_maxIWant = 10, pm_disableGossip = False,
     pm_groups = Map.empty, pm_floor = Map.empty\<rparr>"

definition plan_rpc_result ::
  "partial_error option \<times> partialManager \<times> (string \<rightharpoonup> partialPeerState) \<times> verify_job list" where
  "plan_rpc_result = onIncomingRPC byte_bitmaps plan_codec (NewPartialResolver example_plan) ''p''
     \<lparr>rpc_TopicID = AttestationTopic 0, rpc_GroupID = groupKeyBytes 0, rpc_PartsMetadata = [],
      rpc_PartialMessage = [9]\<rparr> plan_mgr Map.empty"

definition plan_verified :: "partialManager \<times> int list \<times> Received list" where
  "plan_verified = markValidated (NewPartialResolver example_plan) True 5 (AttestationTopic 0) 0 [7] [1, 0]
     (fst (snd plan_rpc_result))"


end
