(* ===== verification/RunnerState.thy ===== *)
theory RunnerState
  imports Wire PlanView Resolver
begin

text \<open>
  The state of one node's runner (src/driver/runner.go): its run-wide parameters, the per-slot and
  per-round records, and the effects its operations have on the node, the tracer and the clock.

  A pointer to a slot's or a round's state that a timer or a goroutine holds is that state passed
  to the operation and returned from it; a \<open>sync.Once\<close> is a flag; \<open>time.AfterFunc(time.Until(t), f)\<close>
  is the effect \<open>At t\<close> with the task \<open>f\<close>, \<open>go f()\<close> is \<open>Spawn\<close>, and a call that runs the task on the
  spot is \<open>Call\<close>.  Timers are kept by the tasks they run.  Instants are nanoseconds; the zero
  \<open>time.Time\<close> is the first instant of year 1.
\<close>

section \<open>Parameters\<close>

record DecoupledParams =
  dc_K :: int
  dc_FCVoteOffset :: dur
  dc_FCAggFraction :: int
  dc_Segregated :: bool
  dc_RoundAggFraction :: int

record EPBSParams =
  ep_ConsensusBlockSize :: int
  ep_PayloadOffset :: dur
  ep_PayloadJitter :: dur
  ep_PTCDue :: dur

record RunnerConfig =
  rc_Attest :: bool
  rc_Sync :: bool
  rc_NumNodes :: int
  rc_BlockSize :: int
  rc_Offset :: dur
  rc_Jitter :: dur
  rc_SlotDuration :: dur
  rc_AttestationDue :: dur
  rc_AggregateDue :: dur
  rc_Prep :: dur
  rc_Seed :: "64 word"
  rc_Decoupled :: "DecoupledParams option"
  rc_Partial :: "PartialParams option"
  rc_EPBS :: "EPBSParams option"

definition zero_time :: instant where
  "zero_time = -62135596800000000000"

section \<open>Per-slot and per-round state\<close>

record slotState =
  deadline :: instant
  attestationDuties :: "AttestDuty list"
  acVoteDuties :: "ACVoteDuty list"
  attestationSubnetsSubscribed :: "int set"
  dialed :: "int list"
  dialReady :: "bool option"
  dropDialDone :: bool
  blockSeen :: bool
  blockSeenAt :: instant
  blockSeenOrigin :: int
  payloadSeen :: bool
  payloadSeenAt :: instant
  alreadyVoted :: bool
  votedForSlotBlock :: bool
  syncSubnet :: int
  syncMember :: bool
  syncAlreadyVoted :: bool
  syncVotedForSlotBlock :: bool
  custody :: "int list"
  haveColumn :: "int set"
  columnsComplete :: bool
  columnsCompleteAt :: instant
  aggSubnets :: "int list"
  aggEmitDone :: bool
  syncAggSubnets :: "int list"
  syncAggEmitDone :: bool
  ptcDuties :: "PTCDuty list"
  ptcEmitDone :: bool

definition new_slotState :: "instant \<Rightarrow> slotState" where
  "new_slotState due = \<lparr>deadline = due, attestationDuties = [], acVoteDuties = [],
     attestationSubnetsSubscribed = {}, dialed = [], dialReady = None, dropDialDone = False,
     blockSeen = False, blockSeenAt = zero_time, blockSeenOrigin = 0, payloadSeen = False,
     payloadSeenAt = zero_time, alreadyVoted = False, votedForSlotBlock = False, syncSubnet = 0,
     syncMember = False, syncAlreadyVoted = False, syncVotedForSlotBlock = False, custody = [],
     haveColumn = {}, columnsComplete = False, columnsCompleteAt = zero_time, aggSubnets = [],
     aggEmitDone = False, syncAggSubnets = [], syncAggEmitDone = False, ptcDuties = [],
     ptcEmitDone = False\<rparr>"

record finalityState =
  duties :: "AttestDuty list"
  ownSubnet :: int
  voteDialed :: "int list"
  voteDone :: bool
  aggregateSubnets :: "int list"
  aggregateSubscribed :: "string list"
  aggregateDialed :: "int list"
  aggregateDone :: bool
  dropDone :: bool

record NodeRunner =
  r_num :: int
  r_view :: View
  r_numNodes :: int
  r_blockSize :: int
  r_offset :: dur
  r_jitter :: dur
  r_attest :: bool
  r_sync :: bool
  r_decoupled :: bool
  r_epbs :: "EPBSParams option"
  r_slotDur :: dur
  r_blockDue :: dur
  r_aggDue :: dur
  r_prep :: dur
  r_seed :: "64 word"
  r_stablePeers :: "int set"
  r_finalityRoundSize :: int
  r_fcVoteOffset :: dur
  r_fcAggFraction :: int
  r_segregated :: bool
  r_roundAggFraction :: int
  r_partial :: bool
  r_attDataSize :: int
  r_sigSize :: int
  r_round0Done :: bool
  r_slots :: "int \<rightharpoonup> slotState"
  r_finals :: "int \<rightharpoonup> finalityState"

section \<open>Effects\<close>

datatype task =
    EmitGated int | EmitSync int | BlockDeadline int | EmitAggregate int | EmitSyncContribution int
  | EmitPTCVote int | DropDials int | DialDuties int | EndSlot int
  | PublishBlock instant int | PublishConsensusBlock instant int | PublishExecutionPayload instant int
  | PrejoinFinality int | Round0Warmup | EmitFinalityVotes int | EmitFinalityAggregate int
  | DropFinality int | SealFinality int

datatype effect =
    Publish string bytes
  | OnPublish MsgID bool instant
  | OnReceive int MsgID instant
  | JoinTopic string
  | SubscribeTopic string
  | UnsubscribeTopic string
  | Dial "int list"
  | Disconnect "int list"
  | PublishLocalPartial string int int bytes bytes
  | FanoutPartial string int "int list" "bytes list" bytes
  | SealPartial Kind int
  | PrunePartial Kind int
  | At instant task
  | Spawn task
  | Call task
  | StopTimer task

section \<open>Construction\<close>

datatype runner_panic =
    NoConsensusBlockSize | PTCWithoutEPBS | PTCWithoutDue | AggregatorsWithoutDue
  | SyncAggregatorsWithoutDue | BadAggregationFraction | PartialWithoutPhase | PartialWithoutNodeOpts

definition base_runner :: "int \<Rightarrow> View \<Rightarrow> int list \<Rightarrow> RunnerConfig \<Rightarrow> NodeRunner" where
  "base_runner num view basePeers cfg =
     \<lparr>r_num = num, r_view = view, r_numNodes = rc_NumNodes cfg, r_blockSize = rc_BlockSize cfg,
      r_offset = rc_Offset cfg, r_jitter = rc_Jitter cfg, r_attest = rc_Attest cfg,
      r_sync = rc_Sync cfg, r_decoupled = False, r_epbs = rc_EPBS cfg,
      r_slotDur = rc_SlotDuration cfg, r_blockDue = rc_AttestationDue cfg,
      r_aggDue = rc_AggregateDue cfg, r_prep = rc_Prep cfg, r_seed = rc_Seed cfg,
      r_stablePeers = set basePeers, r_finalityRoundSize = 0, r_fcVoteOffset = 0,
      r_fcAggFraction = 0, r_segregated = False, r_roundAggFraction = 0, r_partial = False,
      r_attDataSize = 0, r_sigSize = 0, r_round0Done = False,
      r_slots = Map.empty, r_finals = Map.empty\<rparr>"

definition with_decoupled :: "DecoupledParams option \<Rightarrow> NodeRunner \<Rightarrow> NodeRunner" where
  "with_decoupled dc r = (case dc of None \<Rightarrow> r
     | Some d \<Rightarrow> r\<lparr>r_decoupled := True, r_finalityRoundSize := dc_K d, r_fcVoteOffset := dc_FCVoteOffset d,
         r_fcAggFraction := dc_FCAggFraction d, r_segregated := dc_Segregated d,
         r_roundAggFraction := dc_RoundAggFraction d\<rparr>)"

definition with_partial :: "PartialParams option \<Rightarrow> NodeRunner \<Rightarrow> NodeRunner" where
  "with_partial pp r = (case pp of None \<Rightarrow> r
     | Some p \<Rightarrow> r\<lparr>r_partial := True, r_attDataSize := dataSize p, r_sigSize := sigSize p\<rparr>)"

text \<open>The checks of \<open>NewRunner\<close>, in order; the first that fails panics.\<close>

definition runner_check :: "View \<Rightarrow> bool \<Rightarrow> RunnerConfig \<Rightarrow> runner_panic option" where
  "runner_check view nodeHasPartial cfg =
     (let ptc = (\<exists>d \<in> set (v_PTCDuties view). d \<noteq> []) in
      if (case rc_EPBS cfg of None \<Rightarrow> False | Some ep \<Rightarrow> ep_ConsensusBlockSize ep \<le> 0)
      then Some NoConsensusBlockSize
      else if ptc \<and> rc_EPBS cfg = None then Some PTCWithoutEPBS
      else if ptc \<and> (case rc_EPBS cfg of None \<Rightarrow> False | Some ep \<Rightarrow> ep_PTCDue ep \<le> 0) then Some PTCWithoutDue
      else if rc_AggregateDue cfg \<le> 0 \<and> rc_Attest cfg \<and> v_HasAggregators view then Some AggregatorsWithoutDue
      else if rc_AggregateDue cfg \<le> 0 \<and> rc_Sync cfg \<and> v_HasSyncAggregators view
      then Some SyncAggregatorsWithoutDue
      else if (case rc_Decoupled cfg of None \<Rightarrow> False
               | Some dc \<Rightarrow> v_HasFinalityAggregators view \<and>
                   (let frac = (if dc_Segregated dc then dc_RoundAggFraction dc else dc_FCAggFraction dc)
                    in frac \<le> 0 \<or> 100 \<le> frac))
      then Some BadAggregationFraction
      else if rc_Partial cfg \<noteq> None \<and> \<not> rc_Attest cfg \<and> rc_Decoupled cfg = None then Some PartialWithoutPhase
      else if rc_Partial cfg \<noteq> None \<and> \<not> nodeHasPartial then Some PartialWithoutNodeOpts
      else None)"

definition NewRunner ::
  "int \<Rightarrow> View \<Rightarrow> int list \<Rightarrow> bool \<Rightarrow> RunnerConfig \<Rightarrow> runner_panic + NodeRunner" where
  "NewRunner num view basePeers nodeHasPartial cfg =
     (case runner_check view nodeHasPartial cfg of
        Some e \<Rightarrow> Inl e
      | None \<Rightarrow> Inr (with_partial (rc_Partial cfg) (with_decoupled (rc_Decoupled cfg)
                      (base_runner num view basePeers cfg))))"

text \<open>The subscriptions of \<open>Prepare\<close>, and the warm-up it starts.\<close>

definition Prepare :: "NodeRunner \<Rightarrow> effect list" where
  "Prepare r =
     (let v = r_view r in
      (if r_attest r
       then (if v_HasAggregators v then [SubscribeTopic AggregateTopic] else []) @
            map (\<lambda>s. SubscribeTopic (AttestationTopic s)) (v_SubscribedSubnets v)
       else []) @
      (if 0 < v_NumColumns v then map (\<lambda>c. SubscribeTopic (ColumnTopic c)) (v_CustodyColumns v) else []) @
      (if r_sync r
       then SubscribeTopic SyncContributionTopic #
            (if v_SyncMember v then [SubscribeTopic (SyncMessageTopic (v_SyncSubnet v))] else [])
       else []) @
      (if r_epbs r \<noteq> None then [SubscribeTopic PTCVoteTopic] else []) @
      (if r_decoupled r
       then [SubscribeTopic AvailabilityVoteTopic, SubscribeTopic FinalityAggregateTopic] @
            (if v_FinalityMember v then [SubscribeTopic (FinalityVoteTopic (v_FinalitySubnet v))] else []) @
            [Spawn Round0Warmup]
       else []))"

end
