(* ===== verification/Randomness.thy ===== *)
theory Randomness
  imports RunnerState
begin

unbundle bit_operations_syntax

text \<open>
  The runner's seeded draws (src/driver/runner.go): the PCG stream keys, the publish jitter and the
  shuffled dial orders.  The generator is \<open>math/rand/v2\<close>: \<open>rng_lib\<close> carries what a fresh
  \<open>rand.New(rand.NewPCG(seed, stream))\<close> returns for its first \<open>Int64N\<close>, and the index it draws at
  each step of a \<open>Shuffle\<close>, whose loop is written out.  \<open>rng_ok\<close> is the documented range of both.
\<close>

section \<open>The generator\<close>

record rng_lib =
  rng_Int64N :: "64 word \<Rightarrow> 64 word \<Rightarrow> int \<Rightarrow> int"
  rng_draw :: "64 word \<Rightarrow> 64 word \<Rightarrow> nat \<Rightarrow> nat \<Rightarrow> nat"

definition rng_ok :: "rng_lib \<Rightarrow> bool" where
  "rng_ok L \<longleftrightarrow> (\<forall>seed stream n. 0 < n \<longrightarrow> 0 \<le> rng_Int64N L seed stream n \<and> rng_Int64N L seed stream n < n) \<and>
     (\<forall>seed stream n i. rng_draw L seed stream n i \<le> i)"

definition swap :: "nat \<Rightarrow> nat \<Rightarrow> 'a list \<Rightarrow> 'a list" where
  "swap i j xs = xs[i := xs ! j, j := xs ! i]"

fun shuffle_down :: "(nat \<Rightarrow> nat) \<Rightarrow> nat \<Rightarrow> 'a list \<Rightarrow> 'a list" where
  "shuffle_down draw 0 xs = xs"
| "shuffle_down draw (Suc i) xs = shuffle_down draw i (swap (Suc i) (draw (Suc i)) xs)"

definition rand_Shuffle :: "rng_lib \<Rightarrow> 64 word \<Rightarrow> 64 word \<Rightarrow> 'a list \<Rightarrow> 'a list" where
  "rand_Shuffle L seed stream xs = shuffle_down (rng_draw L seed stream (length xs)) (length xs - 1) xs"

lemma mset_shuffle_down:
  "\<forall>i. draw i \<le> i \<Longrightarrow> n < length xs \<Longrightarrow> mset (shuffle_down draw n xs) = mset xs"
proof (induction n arbitrary: xs)
  case (Suc n)
  have j: "draw (Suc n) < length xs" using Suc.prems by (meson order_le_less_trans)
  have "mset (swap (Suc n) (draw (Suc n)) xs) = mset xs"
    unfolding swap_def using Suc.prems(2) j by (intro mset_swap) auto
  moreover have "length (swap (Suc n) (draw (Suc n)) xs) = length xs" by (simp add: swap_def)
  ultimately show ?case using Suc by simp
qed simp

lemma mset_rand_Shuffle [simp]: "rng_ok L \<Longrightarrow> mset (rand_Shuffle L seed stream xs) = mset xs"
  by (cases xs) (simp_all add: rand_Shuffle_def rng_ok_def mset_shuffle_down)

lemma set_rand_Shuffle [simp]: "rng_ok L \<Longrightarrow> set (rand_Shuffle L seed stream xs) = set xs"
  by (metis mset_rand_Shuffle set_mset_mset)

section \<open>Stream keys\<close>

definition jitterStream :: "64 word" where "jitterStream = 1152921504606846976"
definition dialStream :: "64 word" where "dialStream = 2305843009213693952"
definition finalityDialStream :: "64 word" where "finalityDialStream = 3458764513820540928"
definition payloadJitterStream :: "64 word" where "payloadJitterStream = 4611686018427387904"

definition stream_key :: "64 word \<Rightarrow> int \<Rightarrow> int \<Rightarrow> 64 word" where
  "stream_key salt a b = salt OR push_bit 32 (word_of_int a) OR word_of_int b"

lemma small_bit:
  assumes "0 \<le> x" and "x < 2 ^ k" and "bit (x :: int) n"
  shows "n < k"
proof (rule ccontr)
  assume "\<not> n < k"
  moreover have "take_bit k x = x" using assms by (simp add: take_bit_int_eq_self)
  ultimately show False using assms(3) by (metis bit_take_bit_iff)
qed

lemma high_bit: "bit (k * 2 ^ 60 :: int) n \<Longrightarrow> 60 \<le> n"
  by (metis bit_push_bit_iff_int push_bit_eq_mult)

lemma stream_key_value:
  assumes "0 \<le> k" "k < 8" and a: "0 \<le> a" "a < 2 ^ 28" and b: "0 \<le> b" "b < 2 ^ 32"
  shows "uint (stream_key (word_of_int (k * 2 ^ 60)) a b) = k * 2 ^ 60 + a * 2 ^ 32 + b"
proof -
  let ?s = "word_of_int (k * 2 ^ 60) :: 64 word" and ?a = "push_bit 32 (word_of_int a) :: 64 word"
  let ?b = "word_of_int b :: 64 word"
  have bb: "bit ?b n \<Longrightarrow> n < 32" for n using small_bit [OF b] by (simp add: bit_word_of_int_iff)
  have ba: "bit ?a n \<Longrightarrow> 32 \<le> n \<and> n < 60" for n
    using small_bit [OF a, of "n - 32"] by (auto simp: bit_push_bit_iff bit_word_of_int_iff)
  have bs: "bit ?s n \<Longrightarrow> 60 \<le> n" for n unfolding bit_word_of_int_iff using high_bit by blast
  have "?s AND ?a = 0" by (rule bit_word_eqI) (use ba bs in \<open>auto simp: bit_and_iff, fastforce\<close>)
  moreover have "(?s OR ?a) AND ?b = 0"
    by (rule bit_word_eqI) (use ba bs bb in \<open>auto simp: bit_and_iff bit_or_iff, fastforce+\<close>)
  ultimately have "stream_key ?s a b = ?s + ?a + ?b"
    by (simp add: stream_key_def disjunctive_add_eq_or or.assoc)
  also have "\<dots> = word_of_int (k * 2 ^ 60 + a * 2 ^ 32 + b)"
    by (simp add: push_bit_eq_mult)
  finally have "uint (stream_key ?s a b) = (k * 2 ^ 60 + a * 2 ^ 32 + b) mod 2 ^ LENGTH(64)"
    by (simp only: uint_word_of_int)
  also have "\<dots> = k * 2 ^ 60 + a * 2 ^ 32 + b" using assms by (intro mod_pos_pos_trivial) auto
  finally show ?thesis .
qed

lemma stream_salts:
  "jitterStream = word_of_int (1 * 2 ^ 60)" "dialStream = word_of_int (2 * 2 ^ 60)"
  "finalityDialStream = word_of_int (3 * 2 ^ 60)" "payloadJitterStream = word_of_int (4 * 2 ^ 60)"
  by (simp_all add: jitterStream_def dialStream_def finalityDialStream_def payloadJitterStream_def)

lemma radix_div: "0 \<le> x \<Longrightarrow> x < m \<Longrightarrow> (k * m + x) div m = (k :: int)"
  by (metis add.right_neutral div_mult_self3 div_pos_pos_trivial order_le_less_trans order_less_irrefl)

lemma radix_inject:
  fixes k a b :: int
  assumes "0 \<le> a" "a < 2 ^ 28" "0 \<le> b" "b < 2 ^ 32" "0 \<le> a'" "a' < 2 ^ 28" "0 \<le> b'" "b' < 2 ^ 32"
    and "k * 2 ^ 60 + a * 2 ^ 32 + b = k' * 2 ^ 60 + a' * 2 ^ 32 + b'"
  shows "k = k' \<and> a = a' \<and> b = b'"
proof -
  have x: "0 \<le> a * 2 ^ 32 + b" "a * 2 ^ 32 + b < 2 ^ 60" "0 \<le> a' * 2 ^ 32 + b'" "a' * 2 ^ 32 + b' < 2 ^ 60"
    using assms(1-8) by simp_all
  have "(k * 2 ^ 60 + (a * 2 ^ 32 + b)) div 2 ^ 60 = (k' * 2 ^ 60 + (a' * 2 ^ 32 + b')) div 2 ^ 60"
    using assms(9) by (simp only: add.assoc)
  then have k: "k = k'" by (simp only: radix_div x)
  with assms(9) have ab: "a * 2 ^ 32 + b = a' * 2 ^ 32 + b'" by simp
  then have "(a * 2 ^ 32 + b) div 2 ^ 32 = (a' * 2 ^ 32 + b') div 2 ^ 32" by (simp only:)
  then have "a = a'" by (simp only: radix_div assms(3,4,7,8))
  with ab k show ?thesis by simp
qed

lemma salt_form:
  assumes "s \<in> {jitterStream, dialStream, finalityDialStream, payloadJitterStream}"
  obtains k where "s = word_of_int (k * 2 ^ 60)" "0 \<le> k" "k < 8"
proof -
  from assms consider "s = jitterStream" | "s = dialStream" | "s = finalityDialStream" | "s = payloadJitterStream"
    by blast
  then show thesis by cases (use stream_salts that [of 1] that [of 2] that [of 3] that [of 4] in simp_all)
qed

text \<open>
  No two draws share a stream.  The four purposes' keys are pairwise different, and within a
  purpose two keys agree only for the same pair of identifiers, as long as the first fits 28 bits
  and the second 32: beyond that the first would run into the purpose's own bits.
\<close>

theorem streams_injective:
  assumes "{s, s'} \<subseteq> {jitterStream, dialStream, finalityDialStream, payloadJitterStream}"
    and "{a, a'} \<subseteq> {0..<2 ^ 28}" and "{b, b'} \<subseteq> {0..<2 ^ 32}"
    and "stream_key s a b = stream_key s' a' b'"
  shows "s = s' \<and> a = a' \<and> b = b'"
proof -
  obtain k where k: "s = word_of_int (k * 2 ^ 60)" "0 \<le> k" "k < 8" using assms(1) salt_form [of s] by blast
  obtain k' where k': "s' = word_of_int (k' * 2 ^ 60)" "0 \<le> k'" "k' < 8" using assms(1) salt_form [of s'] by blast
  from assms(4) have "k * 2 ^ 60 + a * 2 ^ 32 + b = k' * 2 ^ 60 + a' * 2 ^ 32 + b'"
    using stream_key_value [OF k(2,3), of a b] stream_key_value [OF k'(2,3), of a' b'] assms(2,3)
    by (simp only: k(1) k'(1) insert_subset atLeastLessThan_iff)
  with radix_inject [of a b a' b' k k'] assms(2,3) have "k = k' \<and> a = a' \<and> b = b'"
    by (simp only: insert_subset atLeastLessThan_iff)
  then show ?thesis by (simp only: k(1) k'(1))
qed

theorem streams_injective_witness:
  "stream_key jitterStream 3 7 \<noteq> stream_key payloadJitterStream 3 7"
  using streams_injective [of jitterStream payloadJitterStream 3 3 7 7]
  by (auto simp: jitterStream_def payloadJitterStream_def)

section \<open>Publish instants\<close>

definition blockPublishAt :: "rng_lib \<Rightarrow> NodeRunner \<Rightarrow> int \<Rightarrow> dur" where
  "blockPublishAt L r slot =
     (if r_jitter r > 0
      then r_offset r + rng_Int64N L (r_seed r) (stream_key jitterStream (r_num r) slot) (r_jitter r)
      else r_offset r)"

definition payloadPublishAt :: "rng_lib \<Rightarrow> NodeRunner \<Rightarrow> EPBSParams \<Rightarrow> int \<Rightarrow> dur" where
  "payloadPublishAt L r ep slot =
     (let at = blockPublishAt L r slot + ep_PayloadOffset ep in
      if ep_PayloadJitter ep > 0
      then at + rng_Int64N L (r_seed r) (stream_key payloadJitterStream (r_num r) slot) (ep_PayloadJitter ep)
      else at)"

section \<open>Shuffled subscribers\<close>

definition shuffledSubscribers :: "rng_lib \<Rightarrow> NodeRunner \<Rightarrow> int \<Rightarrow> int \<Rightarrow> int list option" where
  "shuffledSubscribers L r slot subnet =
     map_option (rand_Shuffle L (r_seed r) (stream_key dialStream slot subnet))
       (go_index (v_Subscribers (r_view r)) subnet)"

definition shuffledFinalitySubscribers :: "rng_lib \<Rightarrow> NodeRunner \<Rightarrow> int \<Rightarrow> int \<Rightarrow> int list option" where
  "shuffledFinalitySubscribers L r n subnet =
     map_option (rand_Shuffle L (r_seed r) (stream_key finalityDialStream n subnet))
       (go_index (v_FinalitySubscribers (r_view r)) subnet)"

text \<open>
  The choice of two peers to dial, shared by the attestation fan-out and the finality pre-join: never
  the node itself, a long-lived peer or one already picked.
\<close>

fun dialTwo :: "NodeRunner \<Rightarrow> int list \<Rightarrow> int list \<Rightarrow> int set \<Rightarrow> int list \<times> int set" where
  "dialTwo r [] got picked = (got, picked)"
| "dialTwo r (p # ps) got picked =
     (if length got \<ge> 2 then (got, picked)
      else if p = r_num r \<or> p \<in> r_stablePeers r \<or> p \<in> picked then dialTwo r ps got picked
      else dialTwo r ps (got @ [p]) (insert p picked))"

definition extra :: "NodeRunner \<Rightarrow> int set \<Rightarrow> int \<Rightarrow> bool" where
  "extra r picked p \<longleftrightarrow> p \<noteq> r_num r \<and> p \<notin> r_stablePeers r \<and> p \<notin> picked"

text \<open>It takes the first two of the eligible peers, each once.\<close>

lemma dialTwo_spec:
  assumes "length got \<le> 2"
  shows "\<exists>new. dialTwo r ps got picked = (got @ new, picked \<union> set new) \<and>
    distinct new \<and> (\<forall>p \<in> set new. p \<in> set ps \<and> extra r picked p) \<and>
    length (got @ new) = min 2 (length got + card {p \<in> set ps. extra r picked p})"
  using assms
proof (induction ps arbitrary: got picked)
  case Nil
  then show ?case by (intro exI [of _ "[]"]) simp
next
  case (Cons p ps)
  consider (full) "length got \<ge> 2" | (skip) "length got < 2" "\<not> extra r picked p"
    | (take) "length got < 2" "extra r picked p" by linarith
  then show ?case
  proof cases
    case full
    then show ?thesis using Cons.prems by (intro exI [of _ "[]"]) simp
  next
    case skip
    then have "{q \<in> set (p # ps). extra r picked q} = {q \<in> set ps. extra r picked q}" by auto
    with skip Cons.IH [OF Cons.prems, of picked] show ?thesis by (auto simp: extra_def)
  next
    case take
    then have "length (got @ [p]) \<le> 2" by simp
    from Cons.IH [OF this, of "insert p picked"] obtain new where
      new: "dialTwo r ps (got @ [p]) (insert p picked) = ((got @ [p]) @ new, insert p picked \<union> set new)"
        "distinct new" "\<forall>q \<in> set new. q \<in> set ps \<and> extra r (insert p picked) q"
        "length ((got @ [p]) @ new) = min 2 (length (got @ [p]) + card {q \<in> set ps. extra r (insert p picked) q})"
      by blast
    have "{q \<in> set (p # ps). extra r picked q} = insert p {q \<in> set ps. extra r (insert p picked) q}"
      using take by (auto simp: extra_def)
    then have "card {q \<in> set (p # ps). extra r picked q} = Suc (card {q \<in> set ps. extra r (insert p picked) q})"
      by (simp add: extra_def)
    then show ?thesis using new take by (intro exI [of _ "p # new"]) (auto simp: extra_def)
  qed
qed

end
