(* ===== verification/Coupling.thy ===== *)
theory Coupling
  imports RunnerState
begin

text \<open>
  The coupling of block arrival and vote emission (src/driver/coupling.go and the coupling half of
  src/driver/runner.go): the emit decision, the claims of the slot's attestation and sync votes by
  the early path and by the deadline, the custody gate, and the emitters.

  Each operation acts on one slot's state and returns it with its effects; \<open>now\<close> is what
  \<open>time.Now\<close> reads.  Whether the node's \<open>Join\<close> of a topic succeeds is the argument \<open>joins\<close>.
\<close>

section \<open>The decision\<close>

definition emitDecision :: "bool \<Rightarrow> instant \<Rightarrow> instant \<Rightarrow> dur \<Rightarrow> instant \<times> bool" where
  "emitDecision seen processed due prep =
     (if seen \<and> processed + prep \<le> due then (processed + prep, True) else (due, False))"

definition laterOf :: "instant \<Rightarrow> instant \<Rightarrow> instant" where
  "laterOf a b = (if b > a then b else a)"

section \<open>Emitters\<close>

definition votedOrigin :: "slotState \<Rightarrow> int" where
  "votedOrigin ss = (if votedForSlotBlock ss then blockSeenOrigin ss else -1)"

text \<open>The positions of each foreign duty subnet, in duty order.\<close>

definition fanout_positions :: "(AttestDuty \<Rightarrow> bool) \<Rightarrow> AttestDuty list \<Rightarrow> int \<Rightarrow> int list" where
  "fanout_positions own ds subnet =
     map ad_Position (filter (\<lambda>d. \<not> own d \<and> ad_Subnet d = subnet) ds)"

text \<open>\<open>order\<close> is the order in which the \<open>range\<close> over the fanout map visits the subnets.\<close>

definition emitPartial ::
  "codec \<Rightarrow> NodeRunner \<Rightarrow> int list \<Rightarrow> int \<Rightarrow> slotState \<Rightarrow> int \<Rightarrow> bool \<Rightarrow> instant \<Rightarrow> effect list" where
  "emitPartial C r order slot ss vOrigin vBlock at =
     (let sig = MakePartialSignature (nat (r_sigSize r));
          own = (\<lambda>d. ad_Subnet d \<in> attestationSubnetsSubscribed ss) in
      concat (map (\<lambda>d.
        OnPublish (AttestID slot (ad_Subnet d) (ad_Val d) (r_num r)) vBlock at #
        (if own d
         then [PublishLocalPartial (AttestationTopic (ad_Subnet d)) slot (ad_Position d) sig
                 (MakePartialAttData C slot (ad_Subnet d) vOrigin (r_attDataSize r))]
         else [])) (attestationDuties ss)) @
      map (\<lambda>subnet. let positions = fanout_positions own (attestationDuties ss) subnet in
        FanoutPartial (AttestationTopic subnet) slot positions (replicate (length positions) sig)
          (MakePartialAttData C slot subnet vOrigin (r_attDataSize r))) order)"

definition emit ::
  "codec \<Rightarrow> NodeRunner \<Rightarrow> (string \<Rightarrow> bool) \<Rightarrow> int list \<Rightarrow> int \<Rightarrow> slotState \<Rightarrow> instant \<Rightarrow> effect list" where
  "emit C r joins order slot ss at =
     (let vBlock = votedForSlotBlock ss; vOrigin = votedOrigin ss in
      if r_partial r then emitPartial C r order slot ss vOrigin vBlock at
      else concat (map (\<lambda>d.
        let topic = AttestationTopic (ad_Subnet d) in
        JoinTopic topic #
        (if joins topic
         then (let msg = MakeAttestation C slot (ad_Subnet d) (ad_Val d) (r_num r) vOrigin
               in [OnPublish (AttestID slot (ad_Subnet d) (ad_Val d) (r_num r)) vBlock at,
                   Publish topic (Payload msg)])
         else [])) (attestationDuties ss)))"

definition emitACVote :: "codec \<Rightarrow> NodeRunner \<Rightarrow> int \<Rightarrow> slotState \<Rightarrow> instant \<Rightarrow> effect list" where
  "emitACVote C r slot ss at =
     (let vBlock = votedForSlotBlock ss; vOrigin = votedOrigin ss in
      concat (map (\<lambda>d.
        let msg = MakeACVote C slot (acd_Val d) (r_num r) vOrigin
        in [OnPublish (ACVoteID slot (acd_Val d) (r_num r)) vBlock at,
            Publish AvailabilityVoteTopic (Payload msg)]) (acVoteDuties ss)))"

definition emitGated ::
  "codec \<Rightarrow> NodeRunner \<Rightarrow> (string \<Rightarrow> bool) \<Rightarrow> int list \<Rightarrow> int \<Rightarrow> slotState \<Rightarrow> instant \<Rightarrow> effect list" where
  "emitGated C r joins order slot ss at =
     (if r_decoupled r then emitACVote C r slot ss at else emit C r joins order slot ss at)"

definition emitSyncMessage ::
  "codec \<Rightarrow> NodeRunner \<Rightarrow> (string \<Rightarrow> bool) \<Rightarrow> int \<Rightarrow> slotState \<Rightarrow> instant \<Rightarrow> effect list" where
  "emitSyncMessage C r joins slot ss at =
     (let voteHead = syncVotedForSlotBlock ss;
          vOrigin = (if voteHead then blockSeenOrigin ss else -1);
          topic = SyncMessageTopic (syncSubnet ss) in
      JoinTopic topic #
      (if joins topic
       then (let msg = MakeSyncMessage C slot (syncSubnet ss) (r_num r) vOrigin
             in [OnPublish (SyncMessageID slot (syncSubnet ss) (r_num r)) voteHead at,
                 Publish topic (Payload msg)])
       else []))"

definition emitAggregate :: "codec \<Rightarrow> NodeRunner \<Rightarrow> int \<Rightarrow> slotState \<Rightarrow> instant \<Rightarrow> slotState \<times> effect list" where
  "emitAggregate C r slot ss at =
     (if aggEmitDone ss then (ss, [])
      else (ss\<lparr>aggEmitDone := True\<rparr>,
            concat (map (\<lambda>subnet.
              let msg = MakeAggregate C slot subnet (r_num r)
              in [OnPublish (AggregateID slot subnet (r_num r)) False at,
                  Publish (Topic msg) (Payload msg)]) (aggSubnets ss))))"

definition emitSyncContribution ::
  "codec \<Rightarrow> NodeRunner \<Rightarrow> int \<Rightarrow> slotState \<Rightarrow> instant \<Rightarrow> slotState \<times> effect list" where
  "emitSyncContribution C r slot ss at =
     (if syncAggEmitDone ss then (ss, [])
      else (ss\<lparr>syncAggEmitDone := True\<rparr>,
            concat (map (\<lambda>subnet.
              let msg = MakeSyncContribution C slot subnet (r_num r)
              in [OnPublish (SyncContributionID slot subnet (r_num r)) False at,
                  Publish (Topic msg) (Payload msg)]) (syncAggSubnets ss))))"

definition payloadPresent :: "slotState \<Rightarrow> bool" where
  "payloadPresent ss \<longleftrightarrow> payloadSeen ss \<and> card (haveColumn ss) = length (custody ss)"

definition emitPTCVote :: "codec \<Rightarrow> NodeRunner \<Rightarrow> int \<Rightarrow> slotState \<Rightarrow> instant \<Rightarrow> slotState \<times> effect list" where
  "emitPTCVote C r slot ss at =
     (if ptcEmitDone ss then (ss, [])
      else (ss\<lparr>ptcEmitDone := True\<rparr>,
            if \<not> blockSeen ss then []
            else concat (map (\<lambda>d.
              let msg = MakePTCVote C slot (ptcd_Val d) (r_num r) (payloadPresent ss)
              in [OnPublish (PTCVoteID slot (ptcd_Val d) (r_num r)) (payloadPresent ss) at,
                  Publish PTCVoteTopic (Payload msg)]) (ptcDuties ss))))"

section \<open>Claims\<close>

text \<open>\<open>time.Until(emitAt) > 0\<close> waits for the instant; otherwise the vote is emitted at once.\<close>

definition tryEarlyEmit :: "NodeRunner \<Rightarrow> int \<Rightarrow> instant \<Rightarrow> slotState \<Rightarrow> slotState \<times> effect list" where
  "tryEarlyEmit r slot now ss =
     (if \<not> r_attest r \<and> \<not> r_decoupled r then (ss, [])
      else if alreadyVoted ss then (ss, [])
      else (let ready = blockSeen ss \<and> columnsComplete ss;
                processed = laterOf (blockSeenAt ss) (columnsCompleteAt ss);
                (emitAt, voteBlock) = emitDecision ready processed (deadline ss) (r_prep r)
            in if \<not> voteBlock then (ss, [])
               else (ss\<lparr>alreadyVoted := True, votedForSlotBlock := True\<rparr>,
                     if now < emitAt then [At emitAt (EmitGated slot)] else [Spawn (EmitGated slot)])))"

definition trySyncEmit :: "NodeRunner \<Rightarrow> int \<Rightarrow> instant \<Rightarrow> slotState \<Rightarrow> slotState \<times> effect list" where
  "trySyncEmit r slot now ss =
     (if \<not> r_sync r \<or> \<not> syncMember ss then (ss, [])
      else if syncAlreadyVoted ss then (ss, [])
      else (let (emitAt, voteHead) = emitDecision (blockSeen ss) (blockSeenAt ss) (deadline ss) (r_prep r)
            in if \<not> voteHead then (ss, [])
               else (ss\<lparr>syncAlreadyVoted := True, syncVotedForSlotBlock := True\<rparr>,
                     if now < emitAt then [At emitAt (EmitSync slot)] else [Call (EmitSync slot)])))"

text \<open>The deadline's two critical sections: the prior-head vote, and the sync member's.\<close>

definition deadline_vote :: "NodeRunner \<Rightarrow> int \<Rightarrow> slotState \<Rightarrow> slotState \<times> effect list" where
  "deadline_vote r slot ss =
     (if (r_attest r \<or> r_decoupled r) \<and> \<not> alreadyVoted ss
      then (ss\<lparr>alreadyVoted := True, votedForSlotBlock := False\<rparr>, [Call (EmitGated slot)])
      else (ss, []))"

definition deadline_sync :: "NodeRunner \<Rightarrow> int \<Rightarrow> slotState \<Rightarrow> slotState \<times> effect list" where
  "deadline_sync r slot ss =
     (if r_sync r \<and> syncMember ss \<and> \<not> syncAlreadyVoted ss
      then (ss\<lparr>syncAlreadyVoted := True, syncVotedForSlotBlock := False\<rparr>, [Call (EmitSync slot)])
      else (ss, []))"

definition onBlockDeadline :: "NodeRunner \<Rightarrow> int \<Rightarrow> slotState \<Rightarrow> slotState \<times> effect list" where
  "onBlockDeadline r slot ss =
     (let (ss1, e1) = deadline_vote r slot ss;
          (ss2, e2) = deadline_sync r slot ss1
      in (ss2, e1 @ e2))"

text \<open>The state half of the handlers: what is recorded before the votes are attempted.\<close>

definition see_block :: "int \<Rightarrow> instant \<Rightarrow> slotState \<Rightarrow> slotState" where
  "see_block origin at ss =
     (if blockSeen ss then ss
      else ss\<lparr>blockSeen := True, blockSeenAt := at, blockSeenOrigin := origin\<rparr>)"

definition slot_block :: "NodeRunner \<Rightarrow> int \<Rightarrow> instant \<Rightarrow> int \<Rightarrow> instant \<Rightarrow> slotState \<Rightarrow> slotState \<times> effect list" where
  "slot_block r slot now origin at ss =
     (let (ss1, e1) = tryEarlyEmit r slot now (see_block origin at ss);
          (ss2, e2) = trySyncEmit r slot now ss1
      in (ss2, e1 @ e2))"

text \<open>A column's critical section; the flag says that it completed an unsatisfied gate.\<close>

definition record_column :: "int \<Rightarrow> instant \<Rightarrow> slotState \<Rightarrow> slotState \<times> bool" where
  "record_column col at ss =
     (if col \<in> haveColumn ss then (ss, False)
      else (let ss1 = ss\<lparr>haveColumn := insert col (haveColumn ss)\<rparr> in
            if columnsComplete ss1 then (ss1, False)
            else if card (haveColumn ss1) = length (custody ss1)
            then (ss1\<lparr>columnsComplete := True, columnsCompleteAt := at\<rparr>, True)
            else (ss1, False)))"

definition slot_column :: "NodeRunner \<Rightarrow> int \<Rightarrow> instant \<Rightarrow> int \<Rightarrow> instant \<Rightarrow> slotState \<Rightarrow> slotState \<times> effect list" where
  "slot_column r slot now col at ss =
     (let (ss1, complete) = record_column col at ss in
      if complete then tryEarlyEmit r slot now ss1 else (ss1, []))"

definition slot_payload :: "instant \<Rightarrow> slotState \<Rightarrow> slotState" where
  "slot_payload at ss =
     (if payloadSeen ss then ss else ss\<lparr>payloadSeen := True, payloadSeenAt := at\<rparr>)"

definition slot_columns_complete :: "instant \<Rightarrow> slotState \<Rightarrow> slotState" where
  "slot_columns_complete at ss =
     (if columnsComplete ss then ss else ss\<lparr>columnsComplete := True, columnsCompleteAt := at\<rparr>)"

definition slot_custody_held :: "slotState \<Rightarrow> slotState" where
  "slot_custody_held ss = ss\<lparr>haveColumn := haveColumn ss \<union> set (custody ss)\<rparr>"

text \<open>Looking the slot up: a slot that is not registered, or pruned, is ignored.\<close>

definition on_slot :: "NodeRunner \<Rightarrow> int \<Rightarrow> (slotState \<Rightarrow> slotState \<times> effect list) \<Rightarrow> NodeRunner \<times> effect list" where
  "on_slot r slot f =
     (case r_slots r slot of
        None \<Rightarrow> (r, [])
      | Some ss \<Rightarrow> (let (ss', e) = f ss in (r\<lparr>r_slots := (r_slots r)(slot \<mapsto> ss')\<rparr>, e)))"

definition onBlockProcessed :: "NodeRunner \<Rightarrow> instant \<Rightarrow> int \<Rightarrow> int \<Rightarrow> instant \<Rightarrow> NodeRunner \<times> effect list" where
  "onBlockProcessed r now slot origin at = on_slot r slot (slot_block r slot now origin at)"

definition onColumnProcessed :: "NodeRunner \<Rightarrow> instant \<Rightarrow> int \<Rightarrow> int \<Rightarrow> instant \<Rightarrow> NodeRunner \<times> effect list" where
  "onColumnProcessed r now slot col at = on_slot r slot (slot_column r slot now col at)"

definition onPayloadProcessed :: "NodeRunner \<Rightarrow> int \<Rightarrow> instant \<Rightarrow> NodeRunner \<times> effect list" where
  "onPayloadProcessed r slot at = on_slot r slot (\<lambda>ss. (slot_payload at ss, []))"

definition markColumnsComplete :: "NodeRunner \<Rightarrow> int \<Rightarrow> instant \<Rightarrow> NodeRunner \<times> effect list" where
  "markColumnsComplete r slot at = on_slot r slot (\<lambda>ss. (slot_columns_complete at ss, []))"

definition markCustodyHeld :: "NodeRunner \<Rightarrow> int \<Rightarrow> NodeRunner \<times> effect list" where
  "markCustodyHeld r slot = on_slot r slot (\<lambda>ss. (slot_custody_held ss, []))"

text \<open>A decoded receipt: the node's own loopback is skipped, everything else is traced.\<close>

definition onReceive :: "NodeRunner \<Rightarrow> instant \<Rightarrow> Received \<Rightarrow> NodeRunner \<times> effect list" where
  "onReceive r now rec =
     (if rec_origin rec = r_num r then (r, [])
      else (let slot = id_slot (rec_id rec);
                (r', e) =
                  (case rec_kind rec of
                     KindBlock \<Rightarrow> onBlockProcessed r now slot (id_origin (rec_id rec)) (rec_at rec)
                   | KindConsensusBlock \<Rightarrow> onBlockProcessed r now slot (id_origin (rec_id rec)) (rec_at rec)
                   | KindColumn \<Rightarrow> onColumnProcessed r now slot (id_subnet (rec_id rec)) (rec_at rec)
                   | KindExecutionPayload \<Rightarrow> onPayloadProcessed r slot (rec_at rec)
                   | _ \<Rightarrow> (r, []))
            in (r', OnReceive (r_num r) \<lparr>mid_kind = rec_kind rec, mid_ident = rec_id rec\<rparr> (rec_at rec) # e)))"

section \<open>The proposer's publishes\<close>

definition burst_columns :: "codec \<Rightarrow> NodeRunner \<Rightarrow> int \<Rightarrow> instant \<Rightarrow> effect list" where
  "burst_columns C r slot now =
     concat (map (\<lambda>col.
       let cmsg = MakeColumn C slot col (r_num r)
       in [OnPublish (ColumnID slot col (r_num r)) False now, Publish (Topic cmsg) (Payload cmsg)])
       [0..v_NumColumns (r_view r) - 1])"

definition publishBlock :: "codec \<Rightarrow> NodeRunner \<Rightarrow> instant \<Rightarrow> Message \<Rightarrow> NodeRunner \<times> effect list" where
  "publishBlock C r now msg =
     (let slot = Slot msg;
          (r1, e1) = (if 0 < v_NumColumns (r_view r)
                      then (let (r', e') = markColumnsComplete r slot now in (r', burst_columns C r slot now @ e'))
                      else (r, []));
          (r2, e2) = onBlockProcessed r1 now slot (r_num r) now
      in (r2, [OnPublish (BlockID slot (r_num r)) False now, Publish (Topic msg) (Payload msg)] @ e1 @ e2))"

definition publishConsensusBlock :: "codec \<Rightarrow> NodeRunner \<Rightarrow> EPBSParams \<Rightarrow> instant \<Rightarrow> int \<Rightarrow> NodeRunner \<times> effect list" where
  "publishConsensusBlock C r ep now slot =
     (let msg = MakeConsensusBlock C slot (r_num r) (nat (ep_ConsensusBlockSize ep));
          (r1, e1) = onBlockProcessed r now slot (r_num r) now
      in (r1, [OnPublish (ConsensusBlockID slot (r_num r)) False now, Publish (Topic msg) (Payload msg)] @ e1))"

definition publishExecutionPayload :: "codec \<Rightarrow> NodeRunner \<Rightarrow> instant \<Rightarrow> int \<Rightarrow> NodeRunner \<times> effect list" where
  "publishExecutionPayload C r now slot =
     (let msg = MakeExecutionPayload C slot (r_num r) (nat (r_blockSize r));
          (r1, e1) = onPayloadProcessed r slot now;
          (r2, e2) = markCustodyHeld r1 slot
      in (r2, [OnPublish (ExecutionPayloadID slot (r_num r)) False now, Publish (Topic msg) (Payload msg)] @
              burst_columns C r slot now @ e1 @ e2))"

end
