(* ===== verification/VoteClaim.thy ===== *)
theory VoteClaim
  imports Coupling
begin

text \<open>
  The slot's two votes as claims.  Every handler of src/driver/runner.go is a sequence of critical
  sections of the runner's lock; receive loop, timers and goroutines interleave these freely.  A
  vote is claimed in one of them and emitted by whoever claimed it.  The locale \<open>one_shot\<close> is what a
  claim promises, interpreted for the attestation (or AC) vote and for the sync vote; the second
  half of the theory relates the claimed decision to the arrivals.
\<close>

section \<open>Critical sections\<close>

datatype crit =
    SeeBlock int instant
  | RecordColumn int instant
  | SeePayload instant
  | MarkComplete instant
  | MarkHeld
  | TryVote instant
  | TrySync instant
  | DeadlineVote
  | DeadlineSync

fun crit_step :: "NodeRunner \<Rightarrow> int \<Rightarrow> crit \<Rightarrow> slotState \<Rightarrow> slotState \<times> effect list" where
  "crit_step r slot (SeeBlock origin at) ss = (see_block origin at ss, [])"
| "crit_step r slot (RecordColumn col at) ss = (fst (record_column col at ss), [])"
| "crit_step r slot (SeePayload at) ss = (slot_payload at ss, [])"
| "crit_step r slot (MarkComplete at) ss = (slot_columns_complete at ss, [])"
| "crit_step r slot MarkHeld ss = (slot_custody_held ss, [])"
| "crit_step r slot (TryVote now) ss = tryEarlyEmit r slot now ss"
| "crit_step r slot (TrySync now) ss = trySyncEmit r slot now ss"
| "crit_step r slot DeadlineVote ss = deadline_vote r slot ss"
| "crit_step r slot DeadlineSync ss = deadline_sync r slot ss"

fun run :: "('e \<Rightarrow> 's \<Rightarrow> 's \<times> effect list) \<Rightarrow> 'e list \<Rightarrow> 's \<Rightarrow> 's \<times> effect list" where
  "run step [] s = (s, [])"
| "run step (e # es) s =
     (let (s1, x) = step e s; (s2, y) = run step es s1 in (s2, x @ y))"

lemma run_append:
  "run step (es @ fs) s =
     (let (s1, x) = run step es s; (s2, y) = run step fs s1 in (s2, x @ y))"
  by (induction es arbitrary: s) (simp_all add: split_beta Let_def)

lemma run_fst_invariant:
  assumes "\<And>e s. P s \<Longrightarrow> P (fst (step e s))" "P s"
  shows "P (fst (run step es s))"
  using assms(2) by (induction es arbitrary: s) (simp_all add: split_beta Let_def assms(1))

text \<open>The handlers are such sequences.\<close>

lemma slot_block_crit:
  "slot_block r slot now origin at ss =
     run (crit_step r slot) [SeeBlock origin at, TryVote now, TrySync now] ss"
  by (simp add: slot_block_def split_beta Let_def)

lemma slot_column_crit:
  "slot_column r slot now col at ss =
     run (crit_step r slot)
       (RecordColumn col at # (if snd (record_column col at ss) then [TryVote now] else [])) ss"
  by (simp add: slot_column_def split_beta Let_def)

lemma onBlockDeadline_crit:
  "onBlockDeadline r slot ss = run (crit_step r slot) [DeadlineVote, DeadlineSync] ss"
  by (simp add: onBlockDeadline_def split_beta Let_def)

section \<open>One-shot claims\<close>

text \<open>
  \<open>claimed\<close> never falls, a step emits exactly when it claims, and the decision is frozen with the
  claim.
\<close>

locale one_shot =
  fixes step :: "'e \<Rightarrow> 's \<Rightarrow> 's \<times> effect list"
    and claimed :: "'s \<Rightarrow> bool"
    and choice :: "'s \<Rightarrow> bool"
    and emits :: "effect \<Rightarrow> bool"
  assumes keeps: "claimed s \<Longrightarrow> claimed (fst (step e s))"
    and frozen: "claimed s \<Longrightarrow> choice (fst (step e s)) = choice s"
    and count: "length (filter emits (snd (step e s))) = of_bool (claimed (fst (step e s)) \<and> \<not> claimed s)"
begin

lemma run_keeps: "claimed s \<Longrightarrow> claimed (fst (run step es s))"
  by (rule run_fst_invariant) (rule keeps)

lemma run_frozen: "claimed s \<Longrightarrow> choice (fst (run step es s)) = choice s"
proof (induction es arbitrary: s)
  case (Cons e es)
  show ?case using Cons.IH [OF keeps [OF Cons.prems]] frozen [OF Cons.prems]
    by (simp add: split_beta Let_def)
qed simp

lemma run_count:
  "length (filter emits (snd (run step es s))) = of_bool (claimed (fst (run step es s)) \<and> \<not> claimed s)"
proof (induction es arbitrary: s)
  case (Cons e es)
  have "length (filter emits (snd (run step (e # es) s))) =
      of_bool (claimed (fst (step e s)) \<and> \<not> claimed s) +
      of_bool (claimed (fst (run step es (fst (step e s)))) \<and> \<not> claimed (fst (step e s)))"
    using Cons.IH [of "fst (step e s)"] count [of e s] by (simp add: split_beta Let_def)
  also have "\<dots> = of_bool (claimed (fst (run step es (fst (step e s)))) \<and> \<not> claimed s)"
    using keeps [of s e] run_keeps [of "fst (step e s)" es] by auto
  finally show ?case by (simp add: split_beta Let_def)
qed simp

lemma at_most_one: "length (filter emits (snd (run step es s))) \<le> 1"
  by (simp add: run_count)

lemma exactly_one:
  assumes "\<not> claimed s" and inv: "\<And>e s. I s \<Longrightarrow> I (fst (step e s))" "I s"
    and e: "e \<in> set es" "\<And>s. I s \<Longrightarrow> claimed (fst (step e s))"
  shows "length (filter emits (snd (run step es s))) = 1"
proof -
  obtain xs ys where es: "es = xs @ e # ys" using e(1) by (metis split_list)
  have "I (fst (run step xs s))" by (rule run_fst_invariant) (auto intro: inv)
  then have "claimed (fst (run step es s))"
    using run_keeps [OF e(2)] by (simp add: es run_append split_beta Let_def)
  with assms(1) show ?thesis by (simp add: run_count)
qed

end

text \<open>What carries the vote: the task now, later or on the spot.\<close>

fun carries :: "task \<Rightarrow> effect \<Rightarrow> bool" where
  "carries t (At _ u) \<longleftrightarrow> u = t"
| "carries t (Spawn u) \<longleftrightarrow> u = t"
| "carries t (Call u) \<longleftrightarrow> u = t"
| "carries t _ \<longleftrightarrow> False"

lemmas crit_defs =
  see_block_def record_column_def slot_payload_def slot_columns_complete_def slot_custody_held_def
  tryEarlyEmit_def trySyncEmit_def deadline_vote_def deadline_sync_def

interpretation vote: one_shot "crit_step r slot" alreadyVoted votedForSlotBlock "carries (EmitGated slot)"
  for r slot
proof
  fix s e
  show "alreadyVoted s \<Longrightarrow> alreadyVoted (fst (crit_step r slot e s))"
    by (cases e) (auto simp: crit_defs split_beta Let_def)
  show "alreadyVoted s \<Longrightarrow> votedForSlotBlock (fst (crit_step r slot e s)) = votedForSlotBlock s"
    by (cases e) (auto simp: crit_defs split_beta Let_def)
  show "length (filter (carries (EmitGated slot)) (snd (crit_step r slot e s))) =
      of_bool (alreadyVoted (fst (crit_step r slot e s)) \<and> \<not> alreadyVoted s)"
    by (cases e) (auto simp: crit_defs split_beta Let_def)
qed

interpretation sync_vote: one_shot "crit_step r slot" syncAlreadyVoted syncVotedForSlotBlock
  "carries (EmitSync slot)" for r slot
proof
  fix s e
  show "syncAlreadyVoted s \<Longrightarrow> syncAlreadyVoted (fst (crit_step r slot e s))"
    by (cases e) (auto simp: crit_defs split_beta Let_def)
  show "syncAlreadyVoted s \<Longrightarrow>
      syncVotedForSlotBlock (fst (crit_step r slot e s)) = syncVotedForSlotBlock s"
    by (cases e) (auto simp: crit_defs split_beta Let_def)
  show "length (filter (carries (EmitSync slot)) (snd (crit_step r slot e s))) =
      of_bool (syncAlreadyVoted (fst (crit_step r slot e s)) \<and> \<not> syncAlreadyVoted s)"
    by (cases e) (auto simp: crit_defs split_beta Let_def)
qed

lemma crit_keeps_member [simp]: "syncMember (fst (crit_step r slot e ss)) = syncMember ss"
  by (cases e) (auto simp: crit_defs split_beta Let_def)

section \<open>Arrivals\<close>

text \<open>
  What reaches the slot, each with the time its handler runs: the block, a column, the payload, and
  the proposer's own publishes (the tails of \<open>publishBlock\<close> and \<open>publishExecutionPayload\<close>).
\<close>

datatype arrival =
    Block int instant
  | Column int instant
  | PayloadIn instant
  | OwnBlock
  | OwnPayload

fun arrive :: "NodeRunner \<Rightarrow> int \<Rightarrow> instant \<times> arrival \<Rightarrow> slotState \<Rightarrow> slotState \<times> effect list" where
  "arrive r slot (now, Block origin at) ss = slot_block r slot now origin at ss"
| "arrive r slot (now, Column col at) ss = slot_column r slot now col at ss"
| "arrive r slot (now, PayloadIn at) ss = (slot_payload at ss, [])"
| "arrive r slot (now, OwnBlock) ss =
     slot_block r slot now (r_num r) now
       (if 0 < v_NumColumns (r_view r) then slot_columns_complete now ss else ss)"
| "arrive r slot (now, OwnPayload) ss = (slot_custody_held (slot_payload now ss), [])"

lemma arrive_crit: "\<exists>cs. arrive r slot (now, a) ss = run (crit_step r slot) cs ss"
proof (cases a)
  case (Block origin at)
  show ?thesis unfolding Block arrive.simps by (rule exI) (rule slot_block_crit)
next
  case (Column col at)
  show ?thesis unfolding Column arrive.simps by (rule exI) (rule slot_column_crit)
next
  case (PayloadIn at)
  then show ?thesis by (auto intro: exI [of _ "[SeePayload at]"])
next
  case OwnBlock
  then show ?thesis
    by (auto simp: slot_block_crit split_beta Let_def
        intro: exI [of _ "(if 0 < v_NumColumns (r_view r) then [MarkComplete now] else []) @
                          [SeeBlock (r_num r) now, TryVote now, TrySync now]"])
next
  case OwnPayload
  then show ?thesis by (auto intro: exI [of _ "[SeePayload now, MarkHeld]"])
qed

lemma arrive_is_crit:
  obtains cs where "arrive r slot e ss = run (crit_step r slot) cs ss"
  using arrive_crit [of r slot "fst e" "snd e" ss] by auto

lemma arrive_keeps_vote:
  "alreadyVoted ss \<Longrightarrow> alreadyVoted (fst (arrive r slot e ss)) \<and>
     votedForSlotBlock (fst (arrive r slot e ss)) = votedForSlotBlock ss"
  by (rule arrive_is_crit [of r slot e ss]) (simp only: vote.run_keeps vote.run_frozen simp_thms)

lemma arrive_keeps_sync:
  "syncAlreadyVoted ss \<Longrightarrow> syncAlreadyVoted (fst (arrive r slot e ss)) \<and>
     syncVotedForSlotBlock (fst (arrive r slot e ss)) = syncVotedForSlotBlock ss"
  by (rule arrive_is_crit [of r slot e ss]) (simp only: sync_vote.run_keeps sync_vote.run_frozen simp_thms)

text \<open>
  The abstract reading of a slot's arrivals: when its block first came, and when its custody became
  complete; \<open>have\<close> is what is held so far of the \<open>custody\<close> columns, \<open>all\<close> says that publishing the block
  is publishing every column.
\<close>

fun first_block :: "(instant \<times> arrival) list \<Rightarrow> instant option" where
  "first_block [] = None"
| "first_block ((now, Block origin at) # es) = Some at"
| "first_block ((now, OwnBlock) # es) = Some now"
| "first_block (e # es) = first_block es"

fun complete_at :: "bool \<Rightarrow> int list \<Rightarrow> int set \<Rightarrow> (instant \<times> arrival) list \<Rightarrow> instant option" where
  "complete_at all cust have [] = None"
| "complete_at all cust have ((now, Column col at) # es) =
     (if col \<in> have then complete_at all cust have es
      else if card (insert col have) = length cust then Some at
      else complete_at all cust (insert col have) es)"
| "complete_at all cust have ((now, OwnBlock) # es) =
     (if all then Some now else complete_at all cust have es)"
| "complete_at all cust have ((now, OwnPayload) # es) = complete_at all cust (have \<union> set cust) es"
| "complete_at all cust have (e # es) = complete_at all cust have es"

fun in_time :: "dur \<Rightarrow> instant \<Rightarrow> instant option \<Rightarrow> bool" where
  "in_time prep due (Some t) \<longleftrightarrow> t + prep \<le> due"
| "in_time prep due None \<longleftrightarrow> False"

fun both :: "instant option \<Rightarrow> instant option \<Rightarrow> instant option" where
  "both (Some a) (Some b) = Some (max a b)"
| "both _ _ = None"

definition block_time :: "slotState \<Rightarrow> (instant \<times> arrival) list \<Rightarrow> instant option" where
  "block_time ss es = (if blockSeen ss then Some (blockSeenAt ss) else first_block es)"

definition custody_time :: "NodeRunner \<Rightarrow> slotState \<Rightarrow> (instant \<times> arrival) list \<Rightarrow> instant option" where
  "custody_time r ss es =
     (if columnsComplete ss then Some (columnsCompleteAt ss)
      else complete_at (0 < v_NumColumns (r_view r)) (custody ss) (haveColumn ss) es)"

text \<open>The two attempts leave what has arrived alone.\<close>

definition arrived :: "slotState \<Rightarrow> instant \<times> bool \<times> instant \<times> int list \<times> int set \<times> bool \<times> instant \<times> bool \<times>
    bool \<times> PTCDuty list \<times> bool" where
  "arrived ss = (deadline ss, syncMember ss, blockSeenAt ss, custody ss, haveColumn ss, columnsComplete ss,
     columnsCompleteAt ss, blockSeen ss, payloadSeen ss, ptcDuties ss, ptcEmitDone ss)"

lemma arrived_tryEarlyEmit: "arrived (fst (tryEarlyEmit r slot now ss)) = arrived ss"
  by (auto simp: tryEarlyEmit_def arrived_def split_beta Let_def)

lemma arrived_trySyncEmit: "arrived (fst (trySyncEmit r slot now ss)) = arrived ss"
  by (auto simp: trySyncEmit_def arrived_def split_beta Let_def)

lemma arrived_slot_block: "arrived (fst (slot_block r slot now origin at ss)) = arrived (see_block origin at ss)"
  by (simp add: slot_block_def split_beta Let_def arrived_tryEarlyEmit arrived_trySyncEmit)

lemma arrived_slot_column: "arrived (fst (slot_column r slot now col at ss)) = arrived (fst (record_column col at ss))"
  by (simp add: slot_column_def split_beta Let_def arrived_tryEarlyEmit)

text \<open>What \<open>arrive\<close> records, apart from the votes.\<close>

fun record_arrival :: "NodeRunner \<Rightarrow> instant \<times> arrival \<Rightarrow> slotState \<Rightarrow> slotState" where
  "record_arrival r (now, Block origin at) ss = see_block origin at ss"
| "record_arrival r (now, Column col at) ss = fst (record_column col at ss)"
| "record_arrival r (now, PayloadIn at) ss = slot_payload at ss"
| "record_arrival r (now, OwnBlock) ss =
     see_block (r_num r) now (if 0 < v_NumColumns (r_view r) then slot_columns_complete now ss else ss)"
| "record_arrival r (now, OwnPayload) ss = slot_custody_held (slot_payload now ss)"

lemma arrived_arrive: "arrived (fst (arrive r slot e ss)) = arrived (record_arrival r e ss)"
  by (cases "(r, slot, e, ss)" rule: arrive.cases) (simp_all add: arrived_slot_block arrived_slot_column)

lemmas record_defs =
  see_block_def record_column_def slot_payload_def slot_columns_complete_def slot_custody_held_def

lemma arrived_record:
  "deadline (record_arrival r e ss) = deadline ss" "syncMember (record_arrival r e ss) = syncMember ss"
  "custody (record_arrival r e ss) = custody ss"
  by (cases "(r, e, ss)" rule: record_arrival.cases; simp add: record_defs Let_def)+

lemma arrive_deadline [simp]: "deadline (fst (arrive r slot e ss)) = deadline ss"
  and arrive_member [simp]: "syncMember (fst (arrive r slot e ss)) = syncMember ss"
  and arrive_custody [simp]: "custody (fst (arrive r slot e ss)) = custody ss"
  using arrived_arrive [of r slot e ss] arrived_record [of r e ss] by (simp_all add: arrived_def)

lemma block_time_cong: "arrived ss = arrived ss' \<Longrightarrow> block_time ss es = block_time ss' es"
  by (simp add: arrived_def block_time_def)

lemma custody_time_cong: "arrived ss = arrived ss' \<Longrightarrow> custody_time r ss es = custody_time r ss' es"
  by (simp add: arrived_def custody_time_def)

lemma block_time_record: "block_time (record_arrival r e ss) es = block_time ss (e # es)"
  by (cases "(r, e, ss)" rule: record_arrival.cases) (simp_all add: record_defs block_time_def Let_def)

lemma custody_time_record: "custody_time r (record_arrival r e ss) es = custody_time r ss (e # es)"
  by (cases "(r, e, ss)" rule: record_arrival.cases) (simp_all add: record_defs custody_time_def Let_def)

lemma block_time_step: "block_time (fst (arrive r slot e ss)) es = block_time ss (e # es)"
  using block_time_cong [OF arrived_arrive] block_time_record by metis

lemma custody_time_step: "custody_time r (fst (arrive r slot e ss)) es = custody_time r ss (e # es)"
  using custody_time_cong [OF arrived_arrive] custody_time_record by metis

section \<open>The decision\<close>

text \<open>When the slot's block vote becomes possible: never, or when the later of the two is in.\<close>

definition ready_at :: "NodeRunner \<Rightarrow> slotState \<Rightarrow> (instant \<times> arrival) list \<Rightarrow> instant option" where
  "ready_at r ss es = both (block_time ss es) (custody_time r ss es)"

text \<open>The relations between claims and arrivals that every handler keeps before the deadline.\<close>

definition vote_ok :: "NodeRunner \<Rightarrow> slotState \<Rightarrow> bool" where
  "vote_ok r ss \<longleftrightarrow> (alreadyVoted ss \<longleftrightarrow> in_time (r_prep r) (deadline ss) (ready_at r ss [])) \<and>
     (alreadyVoted ss \<longrightarrow> votedForSlotBlock ss)"

definition sync_ok :: "NodeRunner \<Rightarrow> slotState \<Rightarrow> bool" where
  "sync_ok r ss \<longleftrightarrow> (syncAlreadyVoted ss \<longleftrightarrow> in_time (r_prep r) (deadline ss) (block_time ss [])) \<and>
     (syncAlreadyVoted ss \<longrightarrow> syncVotedForSlotBlock ss)"

lemma laterOf_max: "laterOf a b = max a b"
  by (simp add: laterOf_def max_def)

lemma ready_at_Nil:
  "ready_at r ss [] = (if blockSeen ss \<and> columnsComplete ss
     then Some (laterOf (blockSeenAt ss) (columnsCompleteAt ss)) else None)"
  by (simp add: ready_at_def block_time_def custody_time_def laterOf_max)

lemma block_time_Nil: "block_time ss [] = (if blockSeen ss then Some (blockSeenAt ss) else None)"
  by (simp add: block_time_def)

lemma ready_at_step: "ready_at r (fst (arrive r slot e ss)) es = ready_at r ss (e # es)"
  by (simp add: ready_at_def block_time_step custody_time_step)

lemma ready_at_later: "ready_at r ss [] \<noteq> None \<Longrightarrow> ready_at r ss es = ready_at r ss []"
  by (auto simp: ready_at_def block_time_def custody_time_def split: if_splits)

lemma block_time_later: "block_time ss [] \<noteq> None \<Longrightarrow> block_time ss es = block_time ss []"
  by (auto simp: block_time_def)

lemma in_time_not_None: "in_time prep due t \<Longrightarrow> t \<noteq> None"
  by (cases t) simp_all

lemma tryEarlyEmit_ok:
  assumes "r_attest r \<or> r_decoupled r" and "\<not> alreadyVoted ss"
  shows "vote_ok r (fst (tryEarlyEmit r slot now ss))"
  using assms
  by (auto simp: vote_ok_def ready_at_Nil tryEarlyEmit_def emitDecision_def split_beta Let_def)

lemma trySyncEmit_ok:
  assumes "r_sync r" and "syncMember ss" and "\<not> syncAlreadyVoted ss"
  shows "sync_ok r (fst (trySyncEmit r slot now ss))"
  using assms
  by (auto simp: sync_ok_def block_time_Nil trySyncEmit_def emitDecision_def split_beta Let_def)

lemma vote_fields_trySyncEmit:
  "alreadyVoted (fst (trySyncEmit r slot now ss)) = alreadyVoted ss"
  "votedForSlotBlock (fst (trySyncEmit r slot now ss)) = votedForSlotBlock ss"
  by (auto simp: trySyncEmit_def split_beta Let_def)

lemma sync_fields_tryEarlyEmit:
  "syncAlreadyVoted (fst (tryEarlyEmit r slot now ss)) = syncAlreadyVoted ss"
  "syncVotedForSlotBlock (fst (tryEarlyEmit r slot now ss)) = syncVotedForSlotBlock ss"
  by (auto simp: tryEarlyEmit_def split_beta Let_def)

lemma vote_ok_cong:
  "arrived ss = arrived ss' \<Longrightarrow> alreadyVoted ss = alreadyVoted ss' \<Longrightarrow>
     votedForSlotBlock ss = votedForSlotBlock ss' \<Longrightarrow> vote_ok r ss = vote_ok r ss'"
  using block_time_cong [of ss ss' "[]"] custody_time_cong [of ss ss' r "[]"]
  by (simp add: vote_ok_def ready_at_def arrived_def)

lemma vote_ok_sync: "vote_ok r (fst (trySyncEmit r slot now ss)) = vote_ok r ss"
  by (rule vote_ok_cong) (simp_all add: arrived_trySyncEmit vote_fields_trySyncEmit)

lemma votes_record:
  "alreadyVoted (record_arrival r e ss) = alreadyVoted ss"
  "votedForSlotBlock (record_arrival r e ss) = votedForSlotBlock ss"
  "syncAlreadyVoted (record_arrival r e ss) = syncAlreadyVoted ss"
  "syncVotedForSlotBlock (record_arrival r e ss) = syncVotedForSlotBlock ss"
  by (cases "(r, e, ss)" rule: record_arrival.cases; simp add: record_defs Let_def)+

text \<open>An arrival that attempts no vote cannot have made one possible.\<close>

lemma arrive_cases_vote:
  obtains (tries) now where "fst (arrive r slot e ss) = fst (trySyncEmit r slot now (fst (tryEarlyEmit r slot now (record_arrival r e ss))))"
  | (tries_vote) now where "fst (arrive r slot e ss) = fst (tryEarlyEmit r slot now (record_arrival r e ss))"
      "block_time ss [e] = block_time ss []"
  | (records) "fst (arrive r slot e ss) = record_arrival r e ss" "ready_at r ss [e] = ready_at r ss []"
      "block_time ss [e] = block_time ss []"
proof -
  obtain now a where e: "e = (now, a)" by fastforce
  consider (blk) "(\<exists>origin at. a = Block origin at) \<or> a = OwnBlock" | (col) col at where "a = Column col at"
    | (pay) "(\<exists>at. a = PayloadIn at) \<or> a = OwnPayload"
    by (cases a) auto
  then show thesis
  proof cases
    case blk
    then show ?thesis using tries [of now] by (auto simp: e slot_block_def split_beta Let_def)
  next
    case col
    show ?thesis
    proof (cases "snd (record_column col at ss)")
      case True
      then show ?thesis
        using tries_vote [of now] by (simp add: e col slot_column_def block_time_def split_beta Let_def)
    next
      case False
      have b: "block_time ss [e] = block_time ss []" by (simp add: e col block_time_def)
      moreover have "custody_time r ss [e] = custody_time r ss []"
        using False by (auto simp: e col custody_time_def record_column_def Let_def split: if_splits)
      then have "ready_at r ss [e] = ready_at r ss []" by (simp only: ready_at_def b)
      moreover note this
      moreover have "fst (arrive r slot e ss) = record_arrival r e ss"
        using False by (simp add: e col slot_column_def split_beta Let_def)
      ultimately show ?thesis using records by blast
    qed
  next
    case pay
    then show ?thesis
      by (intro records) (auto simp: e ready_at_def block_time_def custody_time_def)
  qed
qed

lemma vote_ok_arrive:
  assumes phase: "r_attest r \<or> r_decoupled r" and ok: "vote_ok r ss"
  shows "vote_ok r (fst (arrive r slot e ss))"
proof (cases "alreadyVoted ss")
  case True
  let ?ss = "fst (arrive r slot e ss)"
  from True ok have "in_time (r_prep r) (deadline ss) (ready_at r ss [])" by (simp add: vote_ok_def)
  moreover from this have "ready_at r ?ss [] = ready_at r ss []"
    unfolding ready_at_step by (intro ready_at_later in_time_not_None)
  ultimately have "in_time (r_prep r) (deadline ?ss) (ready_at r ?ss [])" by simp
  with True ok arrive_keeps_vote [OF True, of r slot e] show ?thesis by (simp add: vote_ok_def)
next
  case False
  let ?ss1 = "record_arrival r e ss"
  have un: "\<not> alreadyVoted ?ss1" using False by (simp add: votes_record)
  show ?thesis
  proof (cases rule: arrive_cases_vote [of r slot e ss])
    case (tries now)
    then show ?thesis by (simp add: vote_ok_sync tryEarlyEmit_ok [OF phase un])
  next
    case (tries_vote now)
    then show ?thesis by (simp add: tryEarlyEmit_ok [OF phase un])
  next
    case records
    have "ready_at r ?ss1 [] = ready_at r ss [e]" by (simp only: ready_at_def block_time_record custody_time_record)
    then have "ready_at r ?ss1 [] = ready_at r ss []" by (simp only: records)
    with ok records(1) False show ?thesis by (simp add: vote_ok_def votes_record arrived_record)
  qed
qed

lemma sync_ok_arrive:
  assumes phase: "r_sync r" "syncMember ss" and ok: "sync_ok r ss"
  shows "sync_ok r (fst (arrive r slot e ss))"
proof (cases "syncAlreadyVoted ss")
  case True
  let ?ss = "fst (arrive r slot e ss)"
  from True ok have "in_time (r_prep r) (deadline ss) (block_time ss [])" by (simp add: sync_ok_def)
  moreover from this have "block_time ?ss [] = block_time ss []"
    unfolding block_time_step by (intro block_time_later in_time_not_None)
  ultimately have "in_time (r_prep r) (deadline ?ss) (block_time ?ss [])" by simp
  with True ok arrive_keeps_sync [OF True, of r slot e] show ?thesis by (simp add: sync_ok_def)
next
  case False
  let ?ss1 = "record_arrival r e ss"
  have un: "\<not> syncAlreadyVoted ?ss1" using False by (simp add: votes_record)
  have bt: "block_time ?ss1 [] = block_time ss [e]" by (rule block_time_record)
  show ?thesis
  proof (cases rule: arrive_cases_vote [of r slot e ss])
    case (tries now)
    have "syncMember (fst (tryEarlyEmit r slot now ?ss1))"
      using arrived_tryEarlyEmit [of r slot now ?ss1] phase(2) by (simp add: arrived_def arrived_record)
    with tries un show ?thesis by (simp add: trySyncEmit_ok [OF phase(1)] sync_fields_tryEarlyEmit)
  next
    case (tries_vote now)
    have "arrived (fst (arrive r slot e ss)) = arrived ?ss1" by (rule arrived_arrive)
    then have "block_time (fst (arrive r slot e ss)) [] = block_time ss []"
      using block_time_cong bt tries_vote(2) by metis
    moreover have "syncAlreadyVoted (fst (arrive r slot e ss)) = False"
      using tries_vote(1) un by (simp add: sync_fields_tryEarlyEmit)
    ultimately show ?thesis using ok False by (simp add: sync_ok_def)
  next
    case records
    with ok False bt show ?thesis by (simp add: sync_ok_def votes_record arrived_record)
  qed
qed

lemma run_vote_ok:
  assumes "r_attest r \<or> r_decoupled r" and "vote_ok r ss"
  shows "vote_ok r (fst (run (arrive r slot) es ss))"
  by (rule run_fst_invariant) (simp_all add: vote_ok_arrive assms)

lemma run_sync_ok:
  assumes "r_sync r" "syncMember ss" and "sync_ok r ss"
  shows "sync_ok r (fst (run (arrive r slot) es ss)) \<and> syncMember (fst (run (arrive r slot) es ss))"
  by (rule run_fst_invariant) (simp_all add: sync_ok_arrive assms)

lemma run_deadline: "deadline (fst (run (arrive r slot) es ss)) = deadline ss"
  by (induction es arbitrary: ss) (simp_all add: split_beta Let_def)

lemma run_ready_at: "ready_at r (fst (run (arrive r slot) es ss)) [] = ready_at r ss es"
  by (induction es arbitrary: ss) (simp_all add: split_beta Let_def ready_at_step)

lemma run_block_time: "block_time (fst (run (arrive r slot) es ss)) [] = block_time ss es"
  by (induction es arbitrary: ss) (simp_all add: split_beta Let_def block_time_step)

lemma run_keeps_vote:
  "alreadyVoted ss \<Longrightarrow> alreadyVoted (fst (run (arrive r slot) es ss)) \<and>
     votedForSlotBlock (fst (run (arrive r slot) es ss)) = votedForSlotBlock ss"
proof (induction es arbitrary: ss)
  case (Cons e es)
  from Cons.IH [of "fst (arrive r slot e ss)"] arrive_keeps_vote [OF Cons.prems, of r slot e]
  show ?case by (simp add: split_beta Let_def)
qed simp

lemma run_keeps_sync:
  "syncAlreadyVoted ss \<Longrightarrow> syncAlreadyVoted (fst (run (arrive r slot) es ss)) \<and>
     syncVotedForSlotBlock (fst (run (arrive r slot) es ss)) = syncVotedForSlotBlock ss"
proof (induction es arbitrary: ss)
  case (Cons e es)
  from Cons.IH [of "fst (arrive r slot e ss)"] arrive_keeps_sync [OF Cons.prems, of r slot e]
  show ?case by (simp add: split_beta Let_def)
qed simp

lemma deadline_fields:
  "alreadyVoted (fst (onBlockDeadline r slot ss)) \<longleftrightarrow> alreadyVoted ss \<or> r_attest r \<or> r_decoupled r"
  "votedForSlotBlock (fst (onBlockDeadline r slot ss)) \<longleftrightarrow>
     votedForSlotBlock ss \<and> (alreadyVoted ss \<or> \<not> (r_attest r \<or> r_decoupled r))"
  "syncAlreadyVoted (fst (onBlockDeadline r slot ss)) \<longleftrightarrow> syncAlreadyVoted ss \<or> r_sync r \<and> syncMember ss"
  "syncVotedForSlotBlock (fst (onBlockDeadline r slot ss)) \<longleftrightarrow>
     syncVotedForSlotBlock ss \<and> (syncAlreadyVoted ss \<or> \<not> (r_sync r \<and> syncMember ss))"
  by (auto simp: onBlockDeadline_def deadline_vote_def deadline_sync_def split_beta Let_def)

definition slot_opened :: "slotState \<Rightarrow> bool" where
  "slot_opened ss \<longleftrightarrow> \<not> alreadyVoted ss \<and> \<not> syncAlreadyVoted ss \<and> \<not> blockSeen ss"

lemma opened_vote_ok: "slot_opened ss \<Longrightarrow> vote_ok r ss"
  by (simp add: slot_opened_def vote_ok_def ready_at_Nil)

lemma opened_sync_ok: "slot_opened ss \<Longrightarrow> sync_ok r ss"
  by (simp add: slot_opened_def sync_ok_def block_time_Nil)

text \<open>A whole slot: arrivals, the deadline, stragglers.\<close>

definition slot_run ::
  "NodeRunner \<Rightarrow> int \<Rightarrow> (instant \<times> arrival) list \<Rightarrow> (instant \<times> arrival) list \<Rightarrow> slotState \<Rightarrow> slotState" where
  "slot_run r slot before after ss =
     fst (run (arrive r slot) after (fst (onBlockDeadline r slot (fst (run (arrive r slot) before ss)))))"

lemma slot_run_vote:
  assumes phase: "r_attest r \<or> r_decoupled r" and "slot_opened ss"
  shows "alreadyVoted (slot_run r slot before after ss) \<and>
    (votedForSlotBlock (slot_run r slot before after ss) \<longleftrightarrow>
       in_time (r_prep r) (deadline ss) (ready_at r ss before))"
proof -
  let ?ss1 = "fst (run (arrive r slot) before ss)"
  have "vote_ok r ?ss1" using phase assms(2) by (simp add: run_vote_ok opened_vote_ok)
  then have "(alreadyVoted ?ss1 \<longleftrightarrow> in_time (r_prep r) (deadline ss) (ready_at r ss before)) \<and>
      (alreadyVoted ?ss1 \<longrightarrow> votedForSlotBlock ?ss1)"
    by (simp add: vote_ok_def run_deadline run_ready_at)
  moreover have "alreadyVoted (fst (onBlockDeadline r slot ?ss1))" using phase by (simp add: deadline_fields)
  ultimately show ?thesis
    using run_keeps_vote [of "fst (onBlockDeadline r slot ?ss1)" r slot after] phase
    by (auto simp: slot_run_def deadline_fields)
qed

lemma slot_run_sync:
  assumes phase: "r_sync r" "syncMember ss" and "slot_opened ss"
  shows "syncAlreadyVoted (slot_run r slot before after ss) \<and>
    (syncVotedForSlotBlock (slot_run r slot before after ss) \<longleftrightarrow>
       in_time (r_prep r) (deadline ss) (block_time ss before))"
proof -
  let ?ss1 = "fst (run (arrive r slot) before ss)"
  have ok: "sync_ok r ?ss1" "syncMember ?ss1"
    using run_sync_ok [OF phase opened_sync_ok] assms(3) by blast+
  then have "(syncAlreadyVoted ?ss1 \<longleftrightarrow> in_time (r_prep r) (deadline ss) (block_time ss before)) \<and>
      (syncAlreadyVoted ?ss1 \<longrightarrow> syncVotedForSlotBlock ?ss1)"
    by (simp add: sync_ok_def run_deadline run_block_time)
  moreover have "syncAlreadyVoted (fst (onBlockDeadline r slot ?ss1))"
    using phase ok by (simp add: deadline_fields)
  ultimately show ?thesis
    using run_keeps_sync [of "fst (onBlockDeadline r slot ?ss1)" r slot after] phase ok
    by (auto simp: slot_run_def deadline_fields)
qed

lemma both_in_time: "in_time prep due (both a b) \<Longrightarrow> in_time prep due a"
  by (cases a; cases b) auto

text \<open>Who emits the claimed vote, and when.\<close>

lemma arrive_emits:
  assumes "x \<in> set (snd (arrive r slot e ss))" and "carries (EmitGated slot) x"
  shows "\<exists>p. ready_at r ss [e] = Some p \<and> p + r_prep r \<le> deadline ss \<and>
    (x = At (p + r_prep r) (EmitGated slot) \<and> fst e < p + r_prep r \<or> x = Spawn (EmitGated slot) \<and> p + r_prep r \<le> fst e)"
proof -
  let ?ss1 = "record_arrival r e ss"
  obtain now a where e: "e = (now, a)" by fastforce
  have "x \<in> set (snd (tryEarlyEmit r slot now ?ss1))"
    using assms
    by (cases a) (auto simp: e slot_block_def slot_column_def trySyncEmit_def split_beta Let_def split: if_splits)
  then have "\<exists>p. ready_at r ?ss1 [] = Some p \<and> p + r_prep r \<le> deadline ?ss1 \<and>
    (x = At (p + r_prep r) (EmitGated slot) \<and> now < p + r_prep r \<or> x = Spawn (EmitGated slot) \<and> p + r_prep r \<le> now)"
    by (auto simp: tryEarlyEmit_def emitDecision_def ready_at_Nil split_beta Let_def split: if_splits)
  moreover have "ready_at r ?ss1 [] = ready_at r ss [e]"
    by (simp only: ready_at_def block_time_record custody_time_record)
  ultimately show ?thesis by (simp add: arrived_record e)
qed

end
