(* ===== verification/VoteProps.thy ===== *)
theory VoteProps
  imports VoteClaim
begin

text \<open>The properties of the slot's votes, on the library of VoteClaim.\<close>

section \<open>A concrete slot\<close>

definition ex_cfg :: RunnerConfig where
  "ex_cfg = \<lparr>rc_Attest = True, rc_Sync = True, rc_NumNodes = 4, rc_BlockSize = 10, rc_Offset = 0, rc_Jitter = 0,
     rc_SlotDuration = 12000, rc_AttestationDue = 4000, rc_AggregateDue = 8000, rc_Prep = 100, rc_Seed = 7,
     rc_Decoupled = None, rc_Partial = None, rc_EPBS = None\<rparr>"

definition ex_runner :: NodeRunner where
  "ex_runner = base_runner 1 (zero_view\<lparr>v_NumColumns := 4\<rparr>) [] ex_cfg"

definition ex_slot :: slotState where
  "ex_slot = (new_slotState 4000)\<lparr>custody := [2, 3], syncMember := True,
     attestationDuties := [\<lparr>ad_Subnet = 5, ad_Val = 8, ad_Position = 0\<rparr>]\<rparr>"

lemma ex_phases: "r_attest ex_runner" "r_sync ex_runner" "syncMember ex_slot" "slot_opened ex_slot"
  by (simp_all add: ex_runner_def base_runner_def ex_cfg_def ex_slot_def new_slotState_def slot_opened_def)

section \<open>One vote\<close>

text \<open>
  C11: a slot's attestation (or availability) vote is emitted exactly once.  However the receive loop,
  the proposer's publishes, the deadline timer and stray goroutines interleave their critical
  sections, the vote is handed to the emitter at most once, and exactly once when the deadline's
  section is among them.
\<close>

theorem one_vote_per_slot:
  assumes "\<not> alreadyVoted ss"
  shows "length (filter (carries (EmitGated slot)) (snd (run (crit_step r slot) cs ss))) \<le> 1 \<and>
    ((r_attest r \<or> r_decoupled r) \<and> DeadlineVote \<in> set cs \<longrightarrow>
       length (filter (carries (EmitGated slot)) (snd (run (crit_step r slot) cs ss))) = 1)"
  using vote.at_most_one [of slot r cs ss] vote.exactly_one [of ss "\<lambda>_. True" r slot DeadlineVote cs] assms
  by (auto simp: deadline_vote_def)

theorem one_vote_per_slot_witness:
  "length (filter (carries (EmitGated 3))
     (snd (run (crit_step ex_runner 3) [SeeBlock 2 50, DeadlineVote, TryVote 4000, DeadlineVote] ex_slot))) = 1"
  using one_vote_per_slot [of ex_slot 3 ex_runner "[SeeBlock 2 50, DeadlineVote, TryVote 4000, DeadlineVote]"]
    ex_phases by (simp add: slot_opened_def)

text \<open>
  A sync committee member emits exactly one sync message per slot: at most one under every
  interleaving of the critical sections, and one when the deadline's section runs.
\<close>

theorem one_sync_message_per_slot:
  assumes "\<not> syncAlreadyVoted ss"
  shows "length (filter (carries (EmitSync slot)) (snd (run (crit_step r slot) cs ss))) \<le> 1 \<and>
    (r_sync r \<and> syncMember ss \<and> DeadlineSync \<in> set cs \<longrightarrow>
       length (filter (carries (EmitSync slot)) (snd (run (crit_step r slot) cs ss))) = 1)"
  using sync_vote.at_most_one [of slot r cs ss]
    sync_vote.exactly_one [of ss syncMember r slot DeadlineSync cs] assms
  by (auto simp: deadline_sync_def)

theorem one_sync_message_per_slot_witness:
  "length (filter (carries (EmitSync 3))
     (snd (run (crit_step ex_runner 3) [SeeBlock 2 50, DeadlineSync, TrySync 4000] ex_slot))) = 1"
  using one_sync_message_per_slot [of ex_slot 3 ex_runner "[SeeBlock 2 50, DeadlineSync, TrySync 4000]"]
    ex_phases by (simp add: slot_opened_def)

section \<open>The decision\<close>

text \<open>
  C3: the slot's vote refines its specification.  For every sequence of arrivals before the deadline
  and of stragglers after it, the vote is for the slot's block exactly when the first block and the
  completion of the node's custody were both processed before the deadline fired and the later of
  the two leaves the preparation delay before the deadline (a tie votes block); otherwise it is for
  the prior head, and stragglers never change it.
\<close>

theorem vote_decision:
  assumes "r_attest r \<or> r_decoupled r" and "slot_opened ss"
  shows "alreadyVoted (slot_run r slot before after ss) \<and>
    (votedForSlotBlock (slot_run r slot before after ss) \<longleftrightarrow>
       in_time (r_prep r) (deadline ss) (ready_at r ss before))"
  using assms by (rule slot_run_vote)

theorem vote_decision_witness:
  "votedForSlotBlock (slot_run ex_runner 3 [(61, Column 2 60), (71, Block 2 70), (81, Column 3 3900)] [] ex_slot) \<and>
   \<not> votedForSlotBlock (slot_run ex_runner 3 [(61, Column 2 60), (71, Block 2 70)] [(3901, Column 3 3900)] ex_slot)"
proof -
  have "in_time (r_prep ex_runner) (deadline ex_slot)
      (ready_at ex_runner ex_slot [(61, Column 2 60), (71, Block 2 70), (81, Column 3 3900)])" by code_simp
  moreover have "\<not> in_time (r_prep ex_runner) (deadline ex_slot)
      (ready_at ex_runner ex_slot [(61, Column 2 60), (71, Block 2 70)])" by code_simp
  ultimately show ?thesis using vote_decision [of ex_runner ex_slot 3] ex_phases by simp
qed

text \<open>
  The data-availability gate is what separates the attestation from the sync vote.  The sync
  vote is for the head exactly when the block alone was in with the preparation delay to spare,
  whatever the columns did; so a node whose attestation votes block also votes head.
\<close>

theorem sync_vote_ungated:
  assumes "r_sync r" and "syncMember ss" and "slot_opened ss"
  shows "syncAlreadyVoted (slot_run r slot before after ss) \<and>
    (syncVotedForSlotBlock (slot_run r slot before after ss) \<longleftrightarrow>
       in_time (r_prep r) (deadline ss) (block_time ss before)) \<and>
    (r_attest r \<and> votedForSlotBlock (slot_run r slot before after ss) \<longrightarrow>
       syncVotedForSlotBlock (slot_run r slot before after ss))"
  using slot_run_sync [OF assms] slot_run_vote [OF _ assms(3)] both_in_time by (metis ready_at_def)

theorem sync_vote_ungated_witness:
  "syncVotedForSlotBlock (slot_run ex_runner 3 [(71, Block 2 70)] [] ex_slot) \<and>
   \<not> votedForSlotBlock (slot_run ex_runner 3 [(71, Block 2 70)] [] ex_slot)"
proof -
  have "in_time (r_prep ex_runner) (deadline ex_slot) (block_time ex_slot [(71, Block 2 70)])" by code_simp
  moreover have "\<not> votedForSlotBlock (slot_run ex_runner 3 [(71, Block 2 70)] [] ex_slot)" by code_simp
  ultimately show ?thesis
    using sync_vote_ungated [of ex_runner ex_slot 3 "[(71, Block 2 70)]" "[]"] ex_phases by simp
qed

text \<open>
  An early vote leaves at its instant and never after the deadline.  Whatever an arrival hands to
  the emitter is due at the later of block and custody plus the preparation delay, which is at most
  the deadline: it is scheduled for exactly that instant when it lies ahead, and spawned at once
  when it has passed.
\<close>

theorem early_vote_instant:
  assumes "x \<in> set (snd (arrive r slot (now, a) ss))" and "carries (EmitGated slot) x"
  shows "\<exists>p. ready_at r ss [(now, a)] = Some p \<and> p + r_prep r \<le> deadline ss \<and>
    x = (if now < p + r_prep r then At (p + r_prep r) (EmitGated slot) else Spawn (EmitGated slot))"
  using arrive_emits [OF assms] by auto

theorem early_vote_instant_witness:
  "ready_at ex_runner (ex_slot\<lparr>custody := [], columnsComplete := True\<rparr>) [(71, Block 2 70)] = Some 70"
proof -
  let ?ss = "ex_slot\<lparr>custody := [], columnsComplete := True\<rparr>"
  have "At 170 (EmitGated 3) \<in> set (snd (arrive ex_runner 3 (71, Block 2 70) ?ss))" by code_simp
  from early_vote_instant [OF this] obtain p where p: "ready_at ex_runner ?ss [(71, Block 2 70)] = Some p"
    "At 170 (EmitGated 3) = (if 71 < p + r_prep ex_runner then At (p + r_prep ex_runner) (EmitGated 3)
       else Spawn (EmitGated 3))" by auto
  moreover have "r_prep ex_runner = 100" by (simp add: ex_runner_def base_runner_def ex_cfg_def)
  ultimately show ?thesis by (simp split: if_splits)
qed

end
