(* ===== verification/Emission.thy ===== *)
theory Emission
  imports VoteProps
begin

text \<open>
  What the emitters of src/driver/runner.go put on the wire: every publish is recorded under the
  identity its receivers decode, a partial emit hands every duty to the transport once, and the PTC
  vote tells the truth about the payload and the node's custody.
\<close>

section \<open>Recorded publishes\<close>

definition wire_range :: "int \<Rightarrow> bool" where
  "wire_range x \<longleftrightarrow> 0 \<le> x \<and> x < 2 ^ 32"

text \<open>A receiver decodes the publish to the kind, identity and publisher that were recorded.\<close>

definition decodes_to :: "codec \<Rightarrow> int \<Rightarrow> MsgID \<Rightarrow> string \<Rightarrow> bytes \<Rightarrow> bool" where
  "decodes_to C n ident topic data \<longleftrightarrow>
     (\<exists>r. Decode C topic data 0 = Inr r \<and> rec_kind r = mid_kind ident \<and> rec_id r = mid_ident ident \<and>
          rec_origin r = n)"

text \<open>Every publish directly follows its record, and every record is published.\<close>

fun recorded :: "codec \<Rightarrow> int \<Rightarrow> effect list \<Rightarrow> bool" where
  "recorded C n [] \<longleftrightarrow> True"
| "recorded C n (e # es) \<longleftrightarrow>
     (case e of
        OnPublish ident v t \<Rightarrow>
          (case es of
             Publish topic data # rest \<Rightarrow> decodes_to C n ident topic data \<and> recorded C n rest
           | _ \<Rightarrow> False)
      | Publish _ _ \<Rightarrow> False
      | _ \<Rightarrow> recorded C n es)"

lemma recorded_append [intro]: "recorded C n xs \<Longrightarrow> recorded C n ys \<Longrightarrow> recorded C n (xs @ ys)"
  by (induction C n xs rule: recorded.induct) (auto split: effect.splits list.splits)

lemma recorded_concat: "(\<And>x. x \<in> set xs \<Longrightarrow> recorded C n (f x)) \<Longrightarrow> recorded C n (concat (map f xs))"
  by (induction xs) auto

lemma recorded_publication:
  assumes C: "codec_roundtrip C" and q: "pub_in_range q" "pub_origin q = n"
    and "ident = pub_id q" "topic = Topic (pub_message C q)" "data = Payload (pub_message C q)"
  shows "recorded C n [OnPublish ident v t, Publish topic data]"
proof -
  obtain p where "Decode C (Topic (pub_message C q)) (Payload (pub_message C q)) 0 =
    Inr \<lparr>rec_kind = pub_kind q, rec_obj = Some (with_payload p (pub_wire q)),
         rec_id = extractId (pub_wire q), rec_origin = uint (GetOrigin (pub_wire q)), rec_at = 0\<rparr>"
    by (rule Decode_pub_message [OF C])
  with assms(2-) show ?thesis
    by (simp add: decodes_to_def extractId_pub_wire GetOrigin_pub_wire)
qed

lemmas pub_defs = pub_in_range_def pub_origin_def wire_range_def

lemma topic_simps:
  "Topic (MakeAttestation C s n v o' w) = AttestationTopic n" "Topic (MakeACVote C s v o' w) = AvailabilityVoteTopic"
  "Topic (MakeSyncMessage C s n o' w) = SyncMessageTopic n" "Topic (MakePTCVote C s v o' p) = PTCVoteTopic"
  by (simp_all add: make_defs)

section \<open>The emitters\<close>

text \<open>The numbers a slot's publishes carry fit the wire's 32 bits.\<close>

definition slot_in_range :: "NodeRunner \<Rightarrow> int \<Rightarrow> slotState \<Rightarrow> bool" where
  "slot_in_range r slot ss \<longleftrightarrow> wire_range slot \<and> wire_range (r_num r) \<and>
     (\<forall>d \<in> set (attestationDuties ss). wire_range (ad_Subnet d) \<and> wire_range (ad_Val d)) \<and>
     (\<forall>d \<in> set (acVoteDuties ss). wire_range (acd_Val d)) \<and>
     (\<forall>d \<in> set (ptcDuties ss). wire_range (ptcd_Val d)) \<and>
     (\<forall>n \<in> set (aggSubnets ss). wire_range n) \<and> (\<forall>n \<in> set (syncAggSubnets ss). wire_range n) \<and>
     wire_range (syncSubnet ss)"

text \<open>One burst: a record and a publish per duty.\<close>

definition burst :: "('d \<Rightarrow> publication) \<Rightarrow> codec \<Rightarrow> ('d \<Rightarrow> bool) \<Rightarrow> instant \<Rightarrow> 'd list \<Rightarrow> effect list" where
  "burst q C vote at ds =
     concat (map (\<lambda>d. [OnPublish (pub_id (q d)) (vote d) at,
                       Publish (Topic (pub_message C (q d))) (Payload (pub_message C (q d)))]) ds)"

lemma recorded_burst:
  assumes "codec_roundtrip C" and "\<And>d. d \<in> set ds \<Longrightarrow> pub_in_range (q d) \<and> pub_origin (q d) = n"
  shows "recorded C n (burst q C vote at ds)"
  unfolding burst_def
  by (rule recorded_concat) (rule recorded_publication [OF assms(1)]; use assms(2) in simp)

lemma recorded_emit:
  assumes "codec_roundtrip C" and "slot_in_range r slot ss" and "\<not> r_partial r"
  shows "recorded C (r_num r) (emit C r joins order slot ss at)"
proof -
  let ?q = "\<lambda>w d. PubAttestation slot (ad_Subnet d) (ad_Val d) (r_num r) w"
  have "recorded C (r_num r) (burst (?q w) C (\<lambda>_. v) at [d])" if "d \<in> set (attestationDuties ss)" for d v w
    using assms(1,2) that by (intro recorded_burst) (auto simp: slot_in_range_def pub_defs)
  then show ?thesis
    using assms(3) unfolding emit_def Let_def
    by (auto intro!: recorded_concat simp: burst_def topic_simps)
qed

lemma emitACVote_burst:
  "emitACVote C r slot ss at =
     burst (\<lambda>d. PubACVote slot (acd_Val d) (r_num r) (votedOrigin ss)) C (\<lambda>_. votedForSlotBlock ss) at (acVoteDuties ss)"
  by (simp add: emitACVote_def burst_def topic_simps Let_def)

lemma recorded_emitGated:
  assumes "codec_roundtrip C" and "slot_in_range r slot ss" and "\<not> r_partial r"
  shows "recorded C (r_num r) (emitGated C r joins order slot ss at)"
proof (cases "r_decoupled r")
  case True
  with assms show ?thesis
    by (auto simp: emitGated_def emitACVote_burst slot_in_range_def pub_defs intro!: recorded_burst)
next
  case False
  with recorded_emit [OF assms] show ?thesis by (simp add: emitGated_def)
qed

lemma recorded_emitSyncMessage:
  assumes "codec_roundtrip C" and "slot_in_range r slot ss"
  shows "recorded C (r_num r) (emitSyncMessage C r joins slot ss at)"
proof -
  have "recorded C (r_num r)
      (burst (\<lambda>_::unit. PubSyncMessage slot (syncSubnet ss) (r_num r) w) C (\<lambda>_. v) at [()])" for v w
    using assms by (intro recorded_burst) (auto simp: slot_in_range_def pub_defs)
  then show ?thesis by (auto simp: emitSyncMessage_def burst_def topic_simps Let_def)
qed

lemma emitAggregate_burst:
  "snd (emitAggregate C r slot ss at) =
     (if aggEmitDone ss then [] else burst (\<lambda>n. PubAggregate slot n (r_num r)) C (\<lambda>_. False) at (aggSubnets ss))"
  by (simp add: emitAggregate_def burst_def Let_def)

lemma emitSyncContribution_burst:
  "snd (emitSyncContribution C r slot ss at) =
     (if syncAggEmitDone ss then []
      else burst (\<lambda>n. PubSyncContribution slot n (r_num r)) C (\<lambda>_. False) at (syncAggSubnets ss))"
  by (simp add: emitSyncContribution_def burst_def Let_def)

lemma emitPTCVote_burst:
  "snd (emitPTCVote C r slot ss at) =
     (if ptcEmitDone ss \<or> \<not> blockSeen ss then []
      else burst (\<lambda>d. PubPTCVote slot (ptcd_Val d) (r_num r) (payloadPresent ss)) C (\<lambda>_. payloadPresent ss) at
             (ptcDuties ss))"
  by (simp add: emitPTCVote_def burst_def topic_simps Let_def)

lemma burst_columns_burst:
  "burst_columns C r slot now =
     burst (\<lambda>c. PubColumn slot c (r_num r)) C (\<lambda>_. False) now [0..v_NumColumns (r_view r) - 1]"
  by (simp add: burst_columns_def burst_def Let_def)

lemmas recorded_bursts = emitAggregate_burst emitSyncContribution_burst emitPTCVote_burst burst_columns_burst

text \<open>The coupling schedules votes and publishes nothing itself.\<close>

fun quiet :: "effect \<Rightarrow> bool" where
  "quiet (At _ _) \<longleftrightarrow> True"
| "quiet (Spawn _) \<longleftrightarrow> True"
| "quiet (Call _) \<longleftrightarrow> True"
| "quiet _ \<longleftrightarrow> False"

lemma recorded_quiet: "\<forall>e \<in> set es. quiet e \<Longrightarrow> recorded C n es"
proof (induction es)
  case (Cons e es)
  then show ?case by (cases e) simp_all
qed simp

lemma quiet_slot_block: "\<forall>e \<in> set (snd (slot_block r slot now origin at ss)). quiet e"
  by (auto simp: slot_block_def tryEarlyEmit_def trySyncEmit_def split_beta Let_def)

lemma quiet_onBlockProcessed: "recorded C n (snd (onBlockProcessed r now slot origin at))"
  using quiet_slot_block
  by (intro recorded_quiet) (auto simp: onBlockProcessed_def on_slot_def split_beta Let_def split: option.splits)

lemma quiet_marks:
  "snd (markColumnsComplete r slot now) = []" "snd (markCustodyHeld r slot) = []"
  "snd (onPayloadProcessed r slot now) = []"
  by (simp_all add: markColumnsComplete_def markCustodyHeld_def onPayloadProcessed_def on_slot_def Let_def
      split: option.split)

lemma recorded_one:
  assumes "codec_roundtrip C" and "pub_in_range q" "pub_origin q = n"
  shows "recorded C n [OnPublish (pub_id q) False now, Publish (Topic (pub_message C q)) (Payload (pub_message C q))]"
  using assms by (intro recorded_publication [of C q n]) simp_all

lemma recorded_columns:
  assumes "codec_roundtrip C" and "wire_range slot" "wire_range (r_num r)" and "v_NumColumns (r_view r) \<le> 2 ^ 32"
  shows "recorded C (r_num r) (burst_columns C r slot now)"
  unfolding burst_columns_burst using assms by (intro recorded_burst) (auto simp: pub_defs)

lemma recorded_publishBlock:
  assumes "codec_roundtrip C" and "wire_range slot" "wire_range (r_num r)" and "v_NumColumns (r_view r) \<le> 2 ^ 32"
  shows "recorded C (r_num r) (snd (publishBlock C r now (MakeBlock C slot (r_num r) bs)))"
proof -
  have slot: "Slot (MakeBlock C slot (r_num r) bs) = slot" by (simp add: make_defs)
  have "recorded C (r_num r)
      [OnPublish (BlockID slot (r_num r)) False now,
       Publish (Topic (MakeBlock C slot (r_num r) bs)) (Payload (MakeBlock C slot (r_num r) bs))]"
    using recorded_one [OF assms(1), of "PubBlock slot (r_num r) bs" "r_num r"] assms by (simp add: pub_defs)
  moreover note recorded_columns [OF assms] quiet_onBlockProcessed quiet_marks
  ultimately show ?thesis
    unfolding publishBlock_def slot Let_def
    by (auto simp: split_beta simp del: append_Cons append_Nil intro!: recorded_append)
qed

lemma recorded_publishConsensusBlock:
  assumes "codec_roundtrip C" and "wire_range slot" "wire_range (r_num r)"
  shows "recorded C (r_num r) (snd (publishConsensusBlock C r ep now slot))"
proof -
  let ?q = "PubConsensusBlock slot (r_num r) (nat (ep_ConsensusBlockSize ep))"
  have "recorded C (r_num r)
      [OnPublish (ConsensusBlockID slot (r_num r)) False now,
       Publish (Topic (pub_message C ?q)) (Payload (pub_message C ?q))]"
    using recorded_one [OF assms(1), of ?q "r_num r"] assms by (simp add: pub_defs)
  moreover note quiet_onBlockProcessed
  ultimately show ?thesis
    unfolding publishConsensusBlock_def Let_def
    by (auto simp: split_beta simp del: append_Cons append_Nil intro!: recorded_append)
qed

lemma recorded_publishExecutionPayload:
  assumes "codec_roundtrip C" and "wire_range slot" "wire_range (r_num r)" and "v_NumColumns (r_view r) \<le> 2 ^ 32"
  shows "recorded C (r_num r) (snd (publishExecutionPayload C r now slot))"
proof -
  let ?q = "PubExecutionPayload slot (r_num r) (nat (r_blockSize r))"
  have "recorded C (r_num r)
      [OnPublish (ExecutionPayloadID slot (r_num r)) False now,
       Publish (Topic (pub_message C ?q)) (Payload (pub_message C ?q))]"
    using recorded_one [OF assms(1), of ?q "r_num r"] assms by (simp add: pub_defs)
  moreover note recorded_columns [OF assms] quiet_marks
  ultimately show ?thesis
    unfolding publishExecutionPayload_def Let_def
    by (auto simp: split_beta simp del: append_Cons append_Nil intro!: recorded_append)
qed

text \<open>
  C6: what the run records is what the network delivers.  Every publish of a slot, the votes, the
  sync message, the aggregates, the contributions, the PTC votes and the proposer's block, columns
  and payload, directly follows the tracer's record of it, and any receiver decodes it, by the topic
  it travels on, to exactly the recorded kind, identity and publisher; nothing is recorded that is
  not published.
\<close>

theorem publishes_are_recorded:
  assumes "codec_roundtrip C" and "slot_in_range r slot ss" and "v_NumColumns (r_view r) \<le> 2 ^ 32"
    and "\<not> r_partial r"
  shows "recorded C (r_num r) (emitGated C r joins order slot ss at) \<and>
    recorded C (r_num r) (emitSyncMessage C r joins slot ss at) \<and>
    recorded C (r_num r) (snd (emitAggregate C r slot ss at)) \<and>
    recorded C (r_num r) (snd (emitSyncContribution C r slot ss at)) \<and>
    recorded C (r_num r) (snd (emitPTCVote C r slot ss at)) \<and>
    recorded C (r_num r) (snd (publishBlock C r at (MakeBlock C slot (r_num r) bs))) \<and>
    recorded C (r_num r) (snd (publishConsensusBlock C r ep at slot)) \<and>
    recorded C (r_num r) (snd (publishExecutionPayload C r at slot))"
proof -
  have rng: "wire_range slot" "wire_range (r_num r)" using assms(2) by (auto simp: slot_in_range_def)
  have "recorded C (r_num r) (snd (emitAggregate C r slot ss at))"
    "recorded C (r_num r) (snd (emitSyncContribution C r slot ss at))"
    "recorded C (r_num r) (snd (emitPTCVote C r slot ss at))"
    using assms by (auto simp: recorded_bursts slot_in_range_def pub_defs intro!: recorded_burst)
  then show ?thesis
    using assms(1,2) rng assms(3,4)
    by (simp add: recorded_emitGated recorded_emitSyncMessage recorded_publishBlock
        recorded_publishConsensusBlock recorded_publishExecutionPayload)
qed

theorem publishes_are_recorded_witness:
  "recorded fixed_codec 1 (emitGated fixed_codec ex_runner (\<lambda>_. True) [] 3 ex_slot 4000) \<and>
   emitGated fixed_codec ex_runner (\<lambda>_. True) [] 3 ex_slot 4000 \<noteq> []"
proof -
  have "slot_in_range ex_runner 3 ex_slot"
    by (simp add: slot_in_range_def wire_range_def ex_slot_def new_slotState_def ex_runner_def base_runner_def)
  moreover have "v_NumColumns (r_view ex_runner) \<le> 2 ^ 32" "\<not> r_partial ex_runner" "r_num ex_runner = 1"
    by (simp_all add: ex_runner_def base_runner_def)
  moreover have "emitGated fixed_codec ex_runner (\<lambda>_. True) [] 3 ex_slot 4000 \<noteq> []"
    by (simp add: emitGated_def emit_def ex_runner_def base_runner_def ex_slot_def new_slotState_def Let_def)
  ultimately show ?thesis
    using publishes_are_recorded [OF fixed_codec_roundtrip, of ex_runner 3 ex_slot "\<lambda>_. True" "[]" 4000] by simp
qed

section \<open>The partial emit\<close>

text \<open>The votes an effect hands to the partial transport: the topic, the group key, the position.\<close>

fun handed :: "effect \<Rightarrow> (string \<times> int \<times> int) list" where
  "handed (PublishLocalPartial topic grp pos sig data) = [(topic, grp, pos)]"
| "handed (FanoutPartial topic grp ps sigs data) = map (\<lambda>p. (topic, grp, p)) ps"
| "handed _ = []"

fun records :: "effect \<Rightarrow> MsgID list" where
  "records (OnPublish ident v t) = [ident]"
| "records _ = []"

lemma mset_split_subnets:
  assumes "distinct order" and "set order = {s d |d. d \<in> set ds \<and> P d}"
  shows "(\<Sum>k \<leftarrow> order. mset (map f (filter (\<lambda>d. P d \<and> s d = k) ds))) = mset (map f (filter P ds))"
proof -
  have "(\<Sum>k \<leftarrow> order. mset (map f (filter (\<lambda>d. P d \<and> s d = k) ds'))) = mset (map f (filter P ds'))"
    if "\<forall>d \<in> set ds'. P d \<longrightarrow> s d \<in> set order" for ds'
    using that
  proof (induction ds')
    case (Cons d ds')
    have "(\<Sum>k \<leftarrow> order. mset (map f (filter (\<lambda>x. P x \<and> s x = k) (d # ds')))) =
        (\<Sum>k \<leftarrow> order. (if P d \<and> s d = k then {#f d#} else {#}) +
           mset (map f (filter (\<lambda>x. P x \<and> s x = k) ds')))"
      by (rule arg_cong [of _ _ sum_list]) (rule map_cong; simp)
    also have "\<dots> = (\<Sum>k \<leftarrow> order. (if P d \<and> s d = k then {#f d#} else {#})) + mset (map f (filter P ds'))"
      using Cons by (simp add: sum_list_addf)
    also have "(\<Sum>k \<leftarrow> order. (if P d \<and> s d = k then {#f d#} else {#})) = (if P d then {#f d#} else {#})"
      using assms(1) Cons.prems
      by (simp add: sum_list_distinct_conv_sum_set sum.If_cases)
    finally show ?case by simp
  qed simp
  then show ?thesis using assms(2) by auto
qed

lemma mset_map_partition: "mset (map f (filter P xs)) + mset (map f (filter (\<lambda>x. \<not> P x) xs)) = mset (map f xs)"
  by (induction xs) auto

lemma records_append [simp]: "concat (map records (xs @ ys)) = concat (map records xs) @ concat (map records ys)"
  by simp

lemma mset_concat_sum: "mset (concat xss) = (\<Sum>xs \<leftarrow> xss. mset xs)"
  by (induction xss) simp_all

lemma emitPartial_fanout:
  "mset (concat (map handed (map (\<lambda>subnet. FanoutPartial (AttestationTopic subnet) slot
      (fanout_positions own ds subnet) (sigs subnet) (data subnet)) order))) =
   (\<Sum>k \<leftarrow> order. mset (map (\<lambda>d. (AttestationTopic (ad_Subnet d), slot, ad_Position d))
      (filter (\<lambda>d. \<not> own d \<and> ad_Subnet d = k) ds)))"
proof -
  have "map (\<lambda>p. (AttestationTopic k, slot, p)) (fanout_positions own ds k) =
      map (\<lambda>d. (AttestationTopic (ad_Subnet d), slot, ad_Position d)) (filter (\<lambda>d. \<not> own d \<and> ad_Subnet d = k) ds)"
    for k by (auto simp: fanout_positions_def)
  then show ?thesis by (simp add: mset_concat_sum o_def)
qed

lemma emitPartial_local:
  "concat (map handed (concat (map (\<lambda>d. OnPublish (ident d) v at #
      (if own d then [PublishLocalPartial (AttestationTopic (ad_Subnet d)) slot (ad_Position d) sig (data d)]
       else [])) ds))) =
   map (\<lambda>d. (AttestationTopic (ad_Subnet d), slot, ad_Position d)) (filter own ds)"
  by (induction ds) auto

lemma emitPartial_records:
  "concat (map records (concat (map (\<lambda>d. OnPublish (ident d) v at #
      (if own d then [PublishLocalPartial (t d) slot (ad_Position d) sig (data d)] else [])) ds))) = map ident ds"
  "concat (map records (map (\<lambda>subnet. FanoutPartial (u subnet) slot (ps subnet) (sigs subnet) (data' subnet)) order)) = []"
  by (induction ds) auto

lemma emitPartial_no_fanout:
  "filter (\<lambda>e. case e of FanoutPartial _ _ _ _ _ \<Rightarrow> True | _ \<Rightarrow> False)
     (concat (map (\<lambda>d. OnPublish (ident d) v at #
        (if own d then [PublishLocalPartial (t d) slot (ad_Position d) sig (data d)] else [])) ds)) = []"
  by (induction ds) auto

text \<open>
  The partial emit loses no duty and doubles none.  Whatever the order in which the fanout map is
  walked, each duty is recorded once under its attestation identity and handed to the transport
  once, on its own subnet and group with its own position: locally where the node subscribes to the
  subnet, in the subnet's one fanout batch where it does not.
\<close>

theorem emitPartial_covers_duties:
  assumes "distinct order"
    and "set order = {ad_Subnet d |d. d \<in> set (attestationDuties ss) \<and>
                        ad_Subnet d \<notin> attestationSubnetsSubscribed ss}"
  shows "mset (concat (map handed (emitPartial C r order slot ss w v at))) =
      mset (map (\<lambda>d. (AttestationTopic (ad_Subnet d), slot, ad_Position d)) (attestationDuties ss)) \<and>
    concat (map records (emitPartial C r order slot ss w v at)) =
      map (\<lambda>d. AttestID slot (ad_Subnet d) (ad_Val d) (r_num r)) (attestationDuties ss) \<and>
    length (filter (\<lambda>e. case e of FanoutPartial _ _ _ _ _ \<Rightarrow> True | _ \<Rightarrow> False) (emitPartial C r order slot ss w v at)) =
      card {ad_Subnet d |d. d \<in> set (attestationDuties ss) \<and> ad_Subnet d \<notin> attestationSubnetsSubscribed ss}"
proof -
  let ?own = "\<lambda>d. ad_Subnet d \<in> attestationSubnetsSubscribed ss"
  let ?f = "\<lambda>d. (AttestationTopic (ad_Subnet d), slot, ad_Position d)"
  have fan: "(\<Sum>k \<leftarrow> order. mset (map ?f (filter (\<lambda>d. \<not> ?own d \<and> ad_Subnet d = k) (attestationDuties ss)))) =
      mset (map ?f (filter (\<lambda>d. \<not> ?own d) (attestationDuties ss)))"
    by (rule mset_split_subnets [OF assms(1)]) (use assms(2) in simp)
  have "mset (concat (map handed (emitPartial C r order slot ss w v at))) =
      mset (map ?f (filter ?own (attestationDuties ss))) + mset (map ?f (filter (\<lambda>d. \<not> ?own d) (attestationDuties ss)))"
    unfolding emitPartial_def Let_def map_append concat_append mset_append
    by (simp only: emitPartial_local emitPartial_fanout fan)
  also have "\<dots> = mset (map ?f (attestationDuties ss))"
    by (rule mset_map_partition)
  finally have "mset (concat (map handed (emitPartial C r order slot ss w v at))) = mset (map ?f (attestationDuties ss))" .
  moreover have "concat (map records (emitPartial C r order slot ss w v at)) =
      map (\<lambda>d. AttestID slot (ad_Subnet d) (ad_Val d) (r_num r)) (attestationDuties ss)"
    unfolding emitPartial_def Let_def map_append concat_append
    by (simp only: emitPartial_records append_Nil2)
  moreover have "length (filter (\<lambda>e. case e of FanoutPartial _ _ _ _ _ \<Rightarrow> True | _ \<Rightarrow> False)
      (emitPartial C r order slot ss w v at)) = length order"
    unfolding emitPartial_def Let_def filter_append length_append
    by (simp only: emitPartial_no_fanout) (simp add: o_def)
  ultimately show ?thesis using distinct_card [OF assms(1)] assms(2) by simp
qed

theorem emitPartial_covers_duties_witness:
  "mset (concat (map handed (emitPartial fixed_codec ex_runner [5] 3 ex_slot (-1) False 4000))) =
     {#(AttestationTopic 5, 3, 0)#}"
  using emitPartial_covers_duties [of "[5]" ex_slot fixed_codec ex_runner 3 "-1" False 4000]
  by (simp add: ex_slot_def new_slotState_def)

section \<open>The PTC vote\<close>

text \<open>What the arrivals of a slot brought.\<close>

fun columns_in :: "int list \<Rightarrow> (instant \<times> arrival) list \<Rightarrow> int set" where
  "columns_in cust [] = {}"
| "columns_in cust ((now, Column col at) # es) = insert col (columns_in cust es)"
| "columns_in cust ((now, OwnPayload) # es) = set cust \<union> columns_in cust es"
| "columns_in cust (e # es) = columns_in cust es"

fun payload_in :: "(instant \<times> arrival) list \<Rightarrow> bool" where
  "payload_in [] \<longleftrightarrow> False"
| "payload_in ((now, a) # es) \<longleftrightarrow> (case a of PayloadIn _ \<Rightarrow> True | OwnPayload \<Rightarrow> True | _ \<Rightarrow> payload_in es)"

lemma arrive_fields:
  "haveColumn (fst (arrive r slot (now, a) ss)) = haveColumn ss \<union> columns_in (custody ss) [(now, a)]"
  "payloadSeen (fst (arrive r slot (now, a) ss)) \<longleftrightarrow> payloadSeen ss \<or> payload_in [(now, a)]"
  "blockSeen (fst (arrive r slot (now, a) ss)) \<longleftrightarrow> blockSeen ss \<or> first_block [(now, a)] \<noteq> None"
  "ptcDuties (fst (arrive r slot (now, a) ss)) = ptcDuties ss"
  "ptcEmitDone (fst (arrive r slot (now, a) ss)) = ptcEmitDone ss"
  using arrived_arrive [of r slot "(now, a)" ss]
  by (cases a; auto simp: arrived_def record_defs Let_def)+

lemma columns_in_Cons: "columns_in cust (e # es) = columns_in cust [e] \<union> columns_in cust es"
  by (cases "(cust, e # es)" rule: columns_in.cases) auto

lemma payload_in_Cons: "payload_in (e # es) \<longleftrightarrow> payload_in [e] \<or> payload_in es"
  by (cases e; cases "snd e") auto

lemma first_block_Cons: "first_block (e # es) \<noteq> None \<longleftrightarrow> first_block [e] \<noteq> None \<or> first_block es \<noteq> None"
  by (cases "e # es" rule: first_block.cases) auto

lemma run_fields:
  "haveColumn (fst (run (arrive r slot) es ss)) = haveColumn ss \<union> columns_in (custody ss) es \<and>
   (payloadSeen (fst (run (arrive r slot) es ss)) \<longleftrightarrow> payloadSeen ss \<or> payload_in es) \<and>
   (blockSeen (fst (run (arrive r slot) es ss)) \<longleftrightarrow> blockSeen ss \<or> first_block es \<noteq> None) \<and>
   ptcDuties (fst (run (arrive r slot) es ss)) = ptcDuties ss \<and>
   ptcEmitDone (fst (run (arrive r slot) es ss)) = ptcEmitDone ss \<and>
   custody (fst (run (arrive r slot) es ss)) = custody ss"
proof (induction es arbitrary: ss)
  case (Cons e es)
  obtain now a where e: "e = (now, a)" by fastforce
  let ?ss = "fst (arrive r slot (now, a) ss)"
  have "custody ?ss = custody ss" by simp
  then show ?case
    using Cons.IH [of ?ss] arrive_fields [of r slot now a ss]
      columns_in_Cons [of "custody ss" "(now, a)" es] payload_in_Cons [of "(now, a)" es]
      first_block_Cons [of "(now, a)" es]
    by (simp only: e run.simps split_beta Let_def fst_conv Un_assoc) blast
qed simp

lemma finite_columns_in: "finite (columns_in cust es)"
  by (induction cust es rule: columns_in.induct) auto

lemma records_burst: "concat (map records (burst q C vote at ds)) = map (\<lambda>d. pub_id (q d)) ds"
  by (induction ds) (simp_all add: burst_def)

lemma OnPublish_burst: "OnPublish ident v t \<in> set (burst q C vote at ds) \<Longrightarrow> \<exists>d. v = vote d"
  by (auto simp: burst_def)

text \<open>
  C32: the payload-timeliness vote tells the truth, once.  For a node that is sent its own custody
  columns only, the votes at the deadline say present exactly when the payload came (or the node
  published it) and every custody column is held; a node that saw no block casts none, and a second
  firing casts none.
\<close>

theorem ptc_vote_truth:
  assumes "distinct (custody ss)" and "haveColumn ss = {}" and "\<not> payloadSeen ss" and "\<not> blockSeen ss"
    and "\<not> ptcEmitDone ss" and "columns_in (custody ss) es \<subseteq> set (custody ss)"
    and "emitPTCVote C r slot (fst (run (arrive r slot) es ss)) at = (ss', effs)"
  shows "concat (map records effs) =
      (if first_block es = None then [] else map (\<lambda>d. PTCVoteID slot (ptcd_Val d) (r_num r)) (ptcDuties ss)) \<and>
    (\<forall>ident v t. OnPublish ident v t \<in> set effs \<longrightarrow>
       (v \<longleftrightarrow> payload_in es \<and> columns_in (custody ss) es = set (custody ss))) \<and>
    snd (emitPTCVote C r slot ss' later) = []"
proof -
  let ?ss = "fst (run (arrive r slot) es ss)"
  note f = run_fields [of r slot es ss]
  have "card (columns_in (custody ss) es) = length (custody ss) \<longleftrightarrow> columns_in (custody ss) es = set (custody ss)"
    using assms(6) distinct_card [OF assms(1)] by (metis List.finite_set card_subset_eq)
  then have present: "payloadPresent ?ss \<longleftrightarrow> payload_in es \<and> columns_in (custody ss) es = set (custody ss)"
    using f assms(2,3) by (simp add: payloadPresent_def)
  have effs: "effs = (if first_block es = None then []
      else burst (\<lambda>d. PubPTCVote slot (ptcd_Val d) (r_num r) (payloadPresent ?ss)) C (\<lambda>_. payloadPresent ?ss) at
             (ptcDuties ss))"
    using emitPTCVote_burst [of C r slot ?ss at] f assms(4,5,7) by simp
  have "ptcEmitDone ss'" using assms(7) by (auto simp: emitPTCVote_def split: if_splits)
  then show ?thesis using present by (auto simp: effs records_burst emitPTCVote_def dest: OnPublish_burst)
qed

theorem ptc_vote_truth_witness:
  "concat (map records (snd (emitPTCVote fixed_codec ex_runner 3
      (fst (run (arrive ex_runner 3) [(1, Block 2 1), (2, Column 3 2), (5, PayloadIn 4), (6, Column 2 6)]
         (ex_slot\<lparr>ptcDuties := [\<lparr>ptcd_Val = 9\<rparr>]\<rparr>))) 9000))) = [PTCVoteID 3 9 1]"
proof -
  let ?ss = "ex_slot\<lparr>ptcDuties := [\<lparr>ptcd_Val = 9\<rparr>]\<rparr>"
  let ?es = "[(1, Block 2 1), (2, Column 3 2), (5, PayloadIn 4), (6, Column 2 6)]"
  obtain ss' effs where e: "emitPTCVote fixed_codec ex_runner 3 (fst (run (arrive ex_runner 3) ?es ?ss)) 9000 = (ss', effs)"
    by fastforce
  have "distinct (custody ?ss)" "haveColumn ?ss = {}" "\<not> payloadSeen ?ss" "\<not> blockSeen ?ss" "\<not> ptcEmitDone ?ss"
    "columns_in (custody ?ss) ?es \<subseteq> set (custody ?ss)"
    by (simp_all add: ex_slot_def new_slotState_def)
  from ptc_vote_truth [OF this e, of 0] have "concat (map records effs) = [PTCVoteID 3 9 (r_num ex_runner)]" by simp
  moreover have "r_num ex_runner = 1" by (simp add: ex_runner_def base_runner_def)
  ultimately show ?thesis by (simp only: e snd_conv)
qed

end
