(* ===== verification/Finality.thy ===== *)
theory Finality
  imports Randomness Emission
begin

text \<open>
  The finality chain of one node's runner (src/driver/runner.go): the pre-join that warms a round up,
  the timers a round arms, its vote and aggregate bursts, the teardown and the reaping.

  A round's state is the map entry of its key; each round is pre-joined once, so the pointer
  comparison of \<open>dropFinality\<close> is the comparison of keys.  \<open>rounds\<close> is the order in which a \<open>range\<close>
  over the map visits the keys.  A stopped timer that was never armed is a no-op, so the nil checks
  are left out.  A panic (an index outside a plan list, a zero round size) is \<open>None\<close>.
\<close>

section \<open>The pre-join\<close>

definition foreign_subnets :: "int \<Rightarrow> AttestDuty list \<Rightarrow> int list" where
  "foreign_subnets own ds =
     foldl (\<lambda>acc d. if ad_Subnet d \<noteq> own \<and> ad_Subnet d \<notin> set acc then acc @ [ad_Subnet d] else acc) [] ds"

text \<open>Two more peers for one subnet; \<open>order\<close> is the shuffled membership.\<close>

definition dial_one ::
  "NodeRunner \<Rightarrow> (int \<Rightarrow> int list option) \<Rightarrow> int list \<times> int set \<Rightarrow> int \<Rightarrow> (int list \<times> int set) option" where
  "dial_one r order = (\<lambda>(dialed, picked) subnet.
     map_option (\<lambda>os. let (new, picked') = dialTwo r os [] picked in (dialed @ new, picked')) (order subnet))"

definition prejoinFinality :: "rng_lib \<Rightarrow> NodeRunner \<Rightarrow> int \<Rightarrow> (NodeRunner \<times> effect list) option" where
  "prejoinFinality L r n =
     (let v = r_view r in
      if \<not> v_FinalityMember v \<or> int (length (v_FinalityVoteDuties v)) \<le> n then Some (r, [])
      else do {
        let own = v_FinalitySubnet v;
        ds \<leftarrow> go_index (v_FinalityVoteDuties v) n;
        aggs \<leftarrow> go_index (v_FinalityAggregations v) n;
        let dutySubnets = foreign_subnets own ds;
        (vd, picked) \<leftarrow> foldO (dial_one r (shuffledFinalitySubscribers L r n)) dutySubnets ([], {});
        (ad, _) \<leftarrow> foldO (dial_one r (shuffledFinalitySubscribers L r n)) aggs ([], picked);
        let subs = map FinalityVoteTopic (filter (\<lambda>s. s \<noteq> own) aggs);
        let fs = \<lparr>duties = ds, ownSubnet = own, voteDialed = vd, voteDone = False,
                  aggregateSubnets = aggs, aggregateSubscribed = subs, aggregateDialed = ad,
                  aggregateDone = False, dropDone = False\<rparr>;
        Some (r\<lparr>r_finals := (r_finals r)(n \<mapsto> fs)\<rparr>,
              map (\<lambda>s. JoinTopic (FinalityVoteTopic s)) dutySubnets @ [Dial (vd @ ad)] @ map SubscribeTopic subs)
      })"

text \<open>The first caller runs round 0's pre-join; every caller returns when it has finished.\<close>

definition round0Warmup :: "rng_lib \<Rightarrow> NodeRunner \<Rightarrow> (NodeRunner \<times> effect list) option" where
  "round0Warmup L r =
     (if r_round0Done r then Some (r, [])
      else prejoinFinality L (r\<lparr>r_round0Done := True\<rparr>) 0)"

section \<open>Arming a round\<close>

definition hasPrejoinState :: "finalityState \<Rightarrow> bool" where
  "hasPrejoinState fs \<longleftrightarrow> voteDialed fs \<noteq> [] \<or> aggregateDialed fs \<noteq> [] \<or> aggregateSubscribed fs \<noteq> []"

text \<open>The timers of round \<open>n\<close>: the vote burst, the aggregates, the teardown, the seal.\<close>

definition arm_round :: "NodeRunner \<Rightarrow> int \<Rightarrow> instant \<Rightarrow> instant \<Rightarrow> instant \<Rightarrow> effect list" where
  "arm_round r n slotStart aggregationDueAt sealAt =
     (case r_finals r n of
        None \<Rightarrow> []
      | Some fs \<Rightarrow>
          [At (slotStart + r_fcVoteOffset r) (EmitFinalityVotes n)] @
          (if aggregateSubnets fs \<noteq> [] then [At aggregationDueAt (EmitFinalityAggregate n)] else []) @
          (if v_HasFinalityAggregators (r_view r) \<and> hasPrejoinState fs
           then [At aggregationDueAt (DropFinality n)] else []) @
          (if r_partial r \<and> v_HasFinalityAggregators (r_view r) then [At sealAt (SealFinality n)] else []))"

definition base_aggregation_due :: "NodeRunner \<Rightarrow> instant \<Rightarrow> instant" where
  "base_aggregation_due r slotStart =
     slotStart + go_div (r_fcAggFraction r * r_finalityRoundSize r * r_slotDur r) 100"

definition sub_aggregation_due :: "NodeRunner \<Rightarrow> instant \<Rightarrow> instant" where
  "sub_aggregation_due r slotStart = slotStart + go_div (r_roundAggFraction r * r_slotDur r) 100"

definition armFinality ::
  "rng_lib \<Rightarrow> NodeRunner \<Rightarrow> int \<Rightarrow> instant \<Rightarrow> (NodeRunner \<times> effect list) option" where
  "armFinality L r slot slotStart =
     (let k = r_finalityRoundSize r in
      if k = 0 then None
      else (let pre = (if go_mod (slot + 1) k = 0 then [Spawn (PrejoinFinality (go_div (slot + 1) k))] else []) in
            if go_mod slot k \<noteq> 0 then Some (r, pre)
            else do {
              let n = go_div slot k;
              (r', warm) \<leftarrow> (if n = 0 then round0Warmup L r else Some (r, []));
              let due = base_aggregation_due r slotStart;
              Some (r', pre @ warm @ arm_round r' n slotStart due due)
            }))"

definition armFinalitySubRound ::
  "rng_lib \<Rightarrow> NodeRunner \<Rightarrow> int \<Rightarrow> instant \<Rightarrow> (NodeRunner \<times> effect list) option" where
  "armFinalitySubRound L r slot slotStart =
     do {
       (r', warm) \<leftarrow> (if slot = 0 then round0Warmup L r else Some (r, []));
       let due = sub_aggregation_due r slotStart;
       Some (r', warm @ [Spawn (PrejoinFinality (slot + 1))] @ arm_round r' slot slotStart due (due + 200000000))
     }"

section \<open>The bursts\<close>

definition validatorsPerCell :: "NodeRunner \<Rightarrow> int \<Rightarrow> int \<Rightarrow> int option" where
  "validatorsPerCell r n subnet =
     (let pick = (\<lambda>counts. case go_index counts subnet of None \<Rightarrow> 0 | Some c \<Rightarrow> c) in
      if r_segregated r
      then (if r_finalityRoundSize r = 0 then None
            else Some (case go_index (v_ValidatorsPerRoundSubnet (r_view r)) (go_mod n (r_finalityRoundSize r)) of
                         None \<Rightarrow> 0 | Some counts \<Rightarrow> pick counts))
      else Some (pick (v_ValidatorsPerSubnet (r_view r))))"

definition emitFinalityVotesPartial ::
  "codec \<Rightarrow> NodeRunner \<Rightarrow> int list \<Rightarrow> int \<Rightarrow> finalityState \<Rightarrow> instant \<Rightarrow> effect list" where
  "emitFinalityVotesPartial C r order n fs at =
     (let sig = MakePartialSignature (nat (r_sigSize r)); own = (\<lambda>d. ad_Subnet d = ownSubnet fs) in
      concat (map (\<lambda>d.
        OnPublish (FinalityVoteID n (ad_Subnet d) (ad_Val d) (r_num r)) False at #
        (if own d
         then [PublishLocalPartial (FinalityVoteTopic (ad_Subnet d)) n (ad_Position d) sig
                 (MakePartialAttData C n (ad_Subnet d) 0 (r_attDataSize r))]
         else [])) (duties fs)) @
      map (\<lambda>subnet. let positions = fanout_positions own (duties fs) subnet in
        FanoutPartial (FinalityVoteTopic subnet) n positions (replicate (length positions) sig)
          (MakePartialAttData C n subnet 0 (r_attDataSize r))) order)"

definition emitFinalityVotes ::
  "codec \<Rightarrow> NodeRunner \<Rightarrow> int list \<Rightarrow> int \<Rightarrow> finalityState \<Rightarrow> instant \<Rightarrow> finalityState \<times> effect list" where
  "emitFinalityVotes C r order n fs at =
     (if voteDone fs then (fs, [])
      else (fs\<lparr>voteDone := True\<rparr>,
            if r_partial r then emitFinalityVotesPartial C r order n fs at
            else concat (map (\<lambda>d.
              let msg = MakeFinalityVote C n (ad_Subnet d) (ad_Val d) (r_num r)
              in [OnPublish (FinalityVoteID n (ad_Subnet d) (ad_Val d) (r_num r)) False at,
                  Publish (FinalityVoteTopic (ad_Subnet d)) (Payload msg)]) (duties fs))))"

definition emitFinalityAggregate ::
  "codec \<Rightarrow> NodeRunner \<Rightarrow> int \<Rightarrow> finalityState \<Rightarrow> instant \<Rightarrow> (finalityState \<times> effect list) option" where
  "emitFinalityAggregate C r n fs at =
     (if aggregateDone fs then Some (fs, [])
      else map_option (\<lambda>es. (fs\<lparr>aggregateDone := True\<rparr>, concat es))
        (mapO (\<lambda>subnet. map_option
            (\<lambda>cell. let msg = MakeFinalityAggregate C n subnet (r_num r) cell
                    in [OnPublish (FinalityAggregateID n subnet (r_num r)) False at,
                        Publish FinalityAggregateTopic (Payload msg)])
            (validatorsPerCell r n subnet)) (aggregateSubnets fs)))"

section \<open>Teardown\<close>

text \<open>The other live rounds, whose topics and peers are spared.\<close>

definition live_others :: "NodeRunner \<Rightarrow> int list \<Rightarrow> int \<Rightarrow> finalityState list" where
  "live_others r rounds n = List.map_filter (r_finals r) (filter (\<lambda>k. k \<noteq> n) rounds)"

definition dropFinality ::
  "NodeRunner \<Rightarrow> int list \<Rightarrow> int \<Rightarrow> finalityState \<Rightarrow> finalityState \<times> effect list" where
  "dropFinality r rounds n fs =
     (if dropDone fs then (fs, [])
      else (let live = live_others r rounds n;
                keepTopic = set (concat (map aggregateSubscribed live));
                keepPeer = set (concat (map (\<lambda>l. voteDialed l @ aggregateDialed l) live))
            in (fs\<lparr>dropDone := True\<rparr>,
                map UnsubscribeTopic (filter (\<lambda>t. t \<notin> keepTopic) (aggregateSubscribed fs)) @
                [Disconnect (filter (\<lambda>p. p \<notin> keepPeer) (voteDialed fs @ aggregateDialed fs))])))"

definition reap_key :: "NodeRunner \<Rightarrow> int \<Rightarrow> int option option" where
  "reap_key r slot =
     (if r_segregated r then Some (Some slot)
      else if r_finalityRoundSize r = 0 then None
      else if go_mod (slot + 1) (r_finalityRoundSize r) \<noteq> 0 then Some None
      else Some (Some (go_div slot (r_finalityRoundSize r))))"

definition reapFinality :: "NodeRunner \<Rightarrow> int list \<Rightarrow> int \<Rightarrow> (NodeRunner \<times> effect list) option" where
  "reapFinality r rounds slot =
     map_option (\<lambda>k. case k of
        None \<Rightarrow> (r, [])
      | Some key \<Rightarrow>
          (let r' = r\<lparr>r_finals := (r_finals r)(key := None)\<rparr>;
               pr = (if r_partial r then [PrunePartial KindFinalityVote key] else [])
           in (r', case r_finals r key of
                     None \<Rightarrow> pr
                   | Some fs \<Rightarrow>
                       pr @ map StopTimer [EmitFinalityVotes key, EmitFinalityAggregate key, DropFinality key, SealFinality key]
                          @ snd (dropFinality r' rounds key fs)))) (reap_key r slot)"

end
