(* ===== verification/Slots.thy ===== *)
theory Slots
  imports Finality
begin

text \<open>
  The lifecycle of a slot (src/driver/runner.go): \<open>setupSlot\<close> with the phase's duties, its timers and
  the proposer's publishes, the fan-out dials, and \<open>endSlot\<close>.  A \<open>go\<close> statement whose body is
  \<open>publishBlock\<close> and the like is \<open>Spawn\<close> with the instant it sleeps until.
\<close>

section \<open>Proposing\<close>

definition proposes :: "NodeRunner \<Rightarrow> int \<Rightarrow> bool option" where
  "proposes r slot =
     (if v_Proposes (r_view r) \<noteq> [] then go_index (v_Proposes (r_view r)) slot
      else if r_numNodes r = 0 then None
      else Some (go_mod slot (r_numNodes r) = r_num r))"

definition propose_effects :: "rng_lib \<Rightarrow> NodeRunner \<Rightarrow> int \<Rightarrow> instant \<Rightarrow> effect list" where
  "propose_effects L r slot slotStart =
     (case r_epbs r of
        Some ep \<Rightarrow> [Spawn (PublishConsensusBlock (slotStart + blockPublishAt L r slot) slot),
                    Spawn (PublishExecutionPayload (slotStart + payloadPublishAt L r ep slot) slot)]
      | None \<Rightarrow> [Spawn (PublishBlock (slotStart + blockPublishAt L r slot) slot)])"

section \<open>Setup\<close>

definition needsDial :: "NodeRunner \<Rightarrow> AttestDuty list \<Rightarrow> bool" where
  "needsDial r ds \<longleftrightarrow> (\<exists>d \<in> set ds. ad_Subnet d \<notin> set (v_SubscribedSubnets (r_view r)))"

definition setup_attest ::
  "NodeRunner \<Rightarrow> int \<Rightarrow> instant \<Rightarrow> slotState \<Rightarrow> (slotState \<times> effect list) option" where
  "setup_attest r slot slotStart ss =
     do {
       ds \<leftarrow> go_index (v_AttestDuties (r_view r)) slot;
       aggs \<leftarrow> go_index (v_AggregateSubnets (r_view r)) slot;
       let dial = needsDial r ds;
       Some (ss\<lparr>attestationDuties := ds,
                attestationSubnetsSubscribed := set (v_SubscribedSubnets (r_view r)),
                dialReady := (if dial then Some False else None), aggSubnets := aggs\<rparr>,
             (if dial then [Spawn (DialDuties slot), At (slotStart + r_slotDur r) (DropDials slot)] else []) @
             (if aggs \<noteq> [] then [At (slotStart + r_aggDue r) (EmitAggregate slot)] else []))
     }"

definition setup_decoupled ::
  "rng_lib \<Rightarrow> NodeRunner \<Rightarrow> int \<Rightarrow> instant \<Rightarrow> slotState \<Rightarrow> (NodeRunner \<times> slotState \<times> effect list) option" where
  "setup_decoupled L r slot slotStart ss =
     do {
       ds \<leftarrow> go_index (v_ACVoteDuties (r_view r)) slot;
       (r', e) \<leftarrow> (if r_segregated r then armFinalitySubRound L r slot slotStart
                    else armFinality L r slot slotStart);
       Some (r', ss\<lparr>acVoteDuties := ds\<rparr>, e)
     }"

definition setup_custody :: "NodeRunner \<Rightarrow> slotState \<Rightarrow> slotState" where
  "setup_custody r ss =
     (let cust = v_CustodyColumns (r_view r)
      in ss\<lparr>custody := cust, columnsComplete := (cust = [] \<or> r_epbs r \<noteq> None), haveColumn := {}\<rparr>)"

definition setup_ptc :: "NodeRunner \<Rightarrow> int \<Rightarrow> instant \<Rightarrow> slotState \<Rightarrow> (slotState \<times> effect list) option" where
  "setup_ptc r slot slotStart ss =
     (case r_epbs r of
        None \<Rightarrow> Some (ss, [])
      | Some ep \<Rightarrow>
          if slot < int (length (v_PTCDuties (r_view r)))
          then do {
            ds \<leftarrow> go_index (v_PTCDuties (r_view r)) slot;
            Some (ss\<lparr>ptcDuties := ds\<rparr>, if ds \<noteq> [] then [At (slotStart + ep_PTCDue ep) (EmitPTCVote slot)] else [])
          }
          else Some (ss, []))"

definition setup_sync :: "NodeRunner \<Rightarrow> int \<Rightarrow> instant \<Rightarrow> slotState \<Rightarrow> (slotState \<times> effect list) option" where
  "setup_sync r slot slotStart ss =
     (if r_sync r
      then do {
        subnets \<leftarrow> go_index (v_SyncAggregateSubnets (r_view r)) slot;
        Some (ss\<lparr>syncSubnet := v_SyncSubnet (r_view r), syncMember := v_SyncMember (r_view r),
                 syncAggSubnets := subnets\<rparr>,
              if subnets \<noteq> [] then [At (slotStart + r_aggDue r) (EmitSyncContribution slot)] else [])
      }
      else Some (ss, []))"

text \<open>The phase of the votes: attestations, else the decoupled pair, else neither.\<close>

definition setup_phase ::
  "rng_lib \<Rightarrow> NodeRunner \<Rightarrow> int \<Rightarrow> instant \<Rightarrow> slotState \<Rightarrow> (NodeRunner \<times> slotState \<times> effect list) option" where
  "setup_phase L r slot slotStart ss =
     (if r_attest r then map_option (\<lambda>(ss', e). (r, ss', e)) (setup_attest r slot slotStart ss)
      else if r_decoupled r then setup_decoupled L r slot slotStart ss
      else Some (r, ss, []))"

definition setupSlot :: "rng_lib \<Rightarrow> NodeRunner \<Rightarrow> int \<Rightarrow> instant \<Rightarrow> (NodeRunner \<times> effect list) option" where
  "setupSlot L r0 slot slotStart =
     do {
       (r, ss1, e1) \<leftarrow> setup_phase L r0 slot slotStart (new_slotState (slotStart + r_blockDue r0));
       (ss2, e2) \<leftarrow> setup_ptc r slot slotStart (setup_custody r ss1);
       (ss3, e3) \<leftarrow> setup_sync r slot slotStart ss2;
       prop \<leftarrow> proposes r slot;
       Some (r\<lparr>r_slots := (r_slots r)(slot \<mapsto> ss3)\<rparr>,
             e1 @ e2 @ e3 @ [At (deadline ss3) (BlockDeadline slot)] @
             (if prop then propose_effects L r slot slotStart else []) @
             [At (slotStart + r_slotDur r) (EndSlot slot)])
     }"

text \<open>\<open>Run\<close>: one setup per slot start, each spawned by \<open>beginSlot\<close>.\<close>

definition slot_starts :: "NodeRunner \<Rightarrow> instant \<Rightarrow> int \<Rightarrow> (int \<times> instant) list" where
  "slot_starts r runStart numSlots = map (\<lambda>slot. (slot, runStart + slot * r_slotDur r)) [0..numSlots - 1]"

section \<open>Fan-out dials\<close>

definition dial_duty ::
  "rng_lib \<Rightarrow> NodeRunner \<Rightarrow> int \<Rightarrow> slotState \<Rightarrow> (int list \<times> int set) \<times> int list \<times> effect list \<Rightarrow> AttestDuty \<Rightarrow>
     ((int list \<times> int set) \<times> int list \<times> effect list) option" where
  "dial_duty L r slot ss = (\<lambda>(acc, seen, e) d.
     if ad_Subnet d \<in> attestationSubnetsSubscribed ss \<or> ad_Subnet d \<in> set seen then Some (acc, seen, e)
     else map_option (\<lambda>acc'. (acc', seen @ [ad_Subnet d], e @ [JoinTopic (AttestationTopic (ad_Subnet d))]))
          (dial_one r (shuffledSubscribers L r slot) acc (ad_Subnet d)))"

definition dialDuties :: "rng_lib \<Rightarrow> NodeRunner \<Rightarrow> int \<Rightarrow> slotState \<Rightarrow> (slotState \<times> effect list) option" where
  "dialDuties L r slot ss =
     map_option (\<lambda>((ds, _), _, e). (ss\<lparr>dialed := ds, dialReady := Some True\<rparr>, e @ [Dial ds]))
       (foldO (dial_duty L r slot ss) (attestationDuties ss) (([], {}), [], []))"

definition dropDials :: "slotState \<Rightarrow> slotState \<times> effect list" where
  "dropDials ss =
     (if dropDialDone ss then (ss, []) else (ss\<lparr>dropDialDone := True\<rparr>, [Disconnect (dialed ss)]))"

text \<open>Whether a fan-out publish may go ahead: no dials were needed, or they are up.\<close>

definition awaitDials :: "slotState \<Rightarrow> bool" where
  "awaitDials ss \<longleftrightarrow> dialReady ss \<noteq> Some False"

section \<open>The slot's end\<close>

definition endSlot :: "NodeRunner \<Rightarrow> int list \<Rightarrow> int \<Rightarrow> slotState \<Rightarrow> (NodeRunner \<times> slotState \<times> effect list) option" where
  "endSlot r rounds slot ss =
     (let (ss', drop) = dropDials ss;
          r1 = r\<lparr>r_slots := (r_slots r)(slot := None)\<rparr>;
          pr = (if r_partial r \<and> r_attest r \<and> slot > 0 then [PrunePartial KindAttestation (slot - 1)] else []);
          stops = map StopTimer [BlockDeadline slot, DropDials slot, EmitAggregate slot, EmitSyncContribution slot,
                                 EmitPTCVote slot]
      in if r_decoupled r
         then map_option (\<lambda>(r2, e). (r2, ss', stops @ drop @ pr @ e)) (reapFinality r1 rounds slot)
         else Some (r1, ss', stops @ drop @ pr))"

end
