(* ===== verification/FinalityProps.thy ===== *)
theory FinalityProps
  imports Finality
begin

text \<open>What the finality chain of a runner guarantees, round by round.\<close>

section \<open>Dials\<close>

lemma dial_one_Some:
  assumes "dial_one r order (dl, pk) s = Some (dl', pk')" and S: "\<And>s os. order s = Some os \<Longrightarrow> set os \<subseteq> S s"
  shows "\<exists>new. dl' = dl @ new \<and> pk' = pk \<union> set new \<and> distinct new \<and> length new \<le> 2 \<and>
    (\<forall>p \<in> set new. extra r pk p \<and> p \<in> S s)"
proof -
  obtain os where os: "order s = Some os" using assms(1) by (auto simp: dial_one_def)
  obtain new where new: "dialTwo r os [] pk = (new, pk \<union> set new)" "distinct new"
    "\<forall>p \<in> set new. p \<in> set os \<and> extra r pk p" "length new = min 2 (card {p \<in> set os. extra r pk p})"
    using dialTwo_spec [of "[]" r os pk] by auto
  have "dl' = dl @ new" "pk' = pk \<union> set new" using assms(1) os new(1) by (auto simp: dial_one_def)
  then show ?thesis using new S [OF os] by auto
qed

lemma dial_fold:
  assumes "foldO (dial_one r order) subnets (dl, pk) = Some (dl', pk')"
    and S: "\<And>s os. order s = Some os \<Longrightarrow> set os \<subseteq> S s"
  shows "\<exists>new. dl' = dl @ new \<and> pk' = pk \<union> set new \<and> distinct new \<and> length new \<le> 2 * length subnets \<and>
    (\<forall>p \<in> set new. extra r pk p \<and> (\<exists>s \<in> set subnets. p \<in> S s))"
  using assms(1)
proof (induction subnets arbitrary: dl pk)
  case (Cons s subnets)
  obtain dl1 pk1 where one: "dial_one r order (dl, pk) s = Some (dl1, pk1)"
    and rest: "foldO (dial_one r order) subnets (dl1, pk1) = Some (dl', pk')"
    using Cons.prems by (auto split: option.splits)
  obtain n1 where n1: "dl1 = dl @ n1" "pk1 = pk \<union> set n1" "distinct n1" "length n1 \<le> 2"
    "\<forall>p \<in> set n1. extra r pk p \<and> p \<in> S s"
    using dial_one_Some [where S = S, OF one S] by blast
  obtain n2 where n2: "dl' = dl1 @ n2" "pk' = pk1 \<union> set n2" "distinct n2" "length n2 \<le> 2 * length subnets"
    "\<forall>p \<in> set n2. extra r pk1 p \<and> (\<exists>s \<in> set subnets. p \<in> S s)"
    using Cons.IH [OF rest] by blast
  have "\<forall>p \<in> set (n1 @ n2). extra r pk p \<and> (\<exists>t \<in> set (s # subnets). p \<in> S t)"
    using n1(2,5) n2(5) by (auto simp: extra_def)
  moreover have "distinct (n1 @ n2)" using n1(2,3) n2(3,5) by (auto simp: extra_def)
  ultimately show ?case using n1 n2 by (intro exI [of _ "n1 @ n2"]) auto
qed simp

lemma set_foreign_subnets: "set (foreign_subnets own ds) = {ad_Subnet d |d. d \<in> set ds \<and> ad_Subnet d \<noteq> own}"
proof -
  have "set (foldl (\<lambda>acc d. if ad_Subnet d \<noteq> own \<and> ad_Subnet d \<notin> set acc then acc @ [ad_Subnet d] else acc) acc ds) =
      set acc \<union> {ad_Subnet d |d. d \<in> set ds \<and> ad_Subnet d \<noteq> own}" for acc
    by (induction ds arbitrary: acc) auto
  then show ?thesis by (simp add: foreign_subnets_def)
qed

definition finality_members :: "NodeRunner \<Rightarrow> int \<Rightarrow> int set" where
  "finality_members r s = (case go_index (v_FinalitySubscribers (r_view r)) s of None \<Rightarrow> {} | Some ms \<Rightarrow> set ms)"

lemma shuffled_members: "rng_ok L \<Longrightarrow> shuffledFinalitySubscribers L r n s = Some os \<Longrightarrow> set os \<subseteq> finality_members r s"
  by (auto simp: shuffledFinalitySubscribers_def finality_members_def)

text \<open>The state a pre-join registers, with its effects.\<close>

lemma prejoin_Some:
  assumes "prejoinFinality L r n = Some (r', es)" and "v_FinalityMember (r_view r)"
    and "n < int (length (v_FinalityVoteDuties (r_view r)))"
  obtains fs pk pk' where "r' = r\<lparr>r_finals := (r_finals r)(n \<mapsto> fs)\<rparr>"
    "go_index (v_FinalityVoteDuties (r_view r)) n = Some (duties fs)"
    "go_index (v_FinalityAggregations (r_view r)) n = Some (aggregateSubnets fs)"
    "ownSubnet fs = v_FinalitySubnet (r_view r)"
    "foldO (dial_one r (shuffledFinalitySubscribers L r n)) (foreign_subnets (ownSubnet fs) (duties fs)) ([], {}) =
       Some (voteDialed fs, pk)"
    "foldO (dial_one r (shuffledFinalitySubscribers L r n)) (aggregateSubnets fs) ([], pk) =
       Some (aggregateDialed fs, pk')"
    "aggregateSubscribed fs = map FinalityVoteTopic (filter (\<lambda>s. s \<noteq> ownSubnet fs) (aggregateSubnets fs))"
    "\<not> voteDone fs" "\<not> aggregateDone fs" "\<not> dropDone fs"
    "es = map (\<lambda>s. JoinTopic (FinalityVoteTopic s)) (foreign_subnets (ownSubnet fs) (duties fs)) @
       [Dial (voteDialed fs @ aggregateDialed fs)] @ map SubscribeTopic (aggregateSubscribed fs)"
proof -
  let ?own = "v_FinalitySubnet (r_view r)" and ?d = "dial_one r (shuffledFinalitySubscribers L r n)"
  from assms obtain ds aggs vd pk ad pk' where
    *: "go_index (v_FinalityVoteDuties (r_view r)) n = Some ds" "go_index (v_FinalityAggregations (r_view r)) n = Some aggs"
      "foldO ?d (foreign_subnets ?own ds) ([], {}) = Some (vd, pk)" "foldO ?d aggs ([], pk) = Some (ad, pk')"
    and r': "Some (r', es) = (let subs = map FinalityVoteTopic (filter (\<lambda>s. s \<noteq> ?own) aggs);
            fs = \<lparr>duties = ds, ownSubnet = ?own, voteDialed = vd, voteDone = False,
                  aggregateSubnets = aggs, aggregateSubscribed = subs, aggregateDialed = ad,
                  aggregateDone = False, dropDone = False\<rparr>
        in Some (r\<lparr>r_finals := (r_finals r)(n \<mapsto> fs)\<rparr>,
              map (\<lambda>s. JoinTopic (FinalityVoteTopic s)) (foreign_subnets ?own ds) @ [Dial (vd @ ad)] @ map SubscribeTopic subs))"
    unfolding prejoinFinality_def Let_def
    by (simp add: bind_eq_Some_conv del: go_index_Some_iff split: prod.splits) blast
  show thesis
    by (rule that [OF _ _ _ _ _ _ _ _ _ _, of "\<lparr>duties = ds, ownSubnet = ?own, voteDialed = vd, voteDone = False,
                  aggregateSubnets = aggs, aggregateSubscribed = map FinalityVoteTopic (filter (\<lambda>s. s \<noteq> ?own) aggs),
                  aggregateDialed = ad, aggregateDone = False, dropDone = False\<rparr>" pk pk'])
      (use r' * in \<open>simp_all add: Let_def del: go_index_Some_iff\<close>)
qed


definition ex_fview :: View where
  "ex_fview = zero_view\<lparr>v_FinalityMember := True, v_FinalitySubnet := 0,
     v_FinalityVoteDuties := [[\<lparr>ad_Subnet = 1, ad_Val = 4, ad_Position = 0\<rparr>, \<lparr>ad_Subnet = 0, ad_Val = 5, ad_Position = 1\<rparr>], []],
     v_FinalityAggregations := [[1], []], v_FinalitySubscribers := [[7], [7, 2, 3, 8]],
     v_HasFinalityAggregators := True, v_ValidatorsPerSubnet := [3, 4]\<rparr>"

definition ex_frunner :: NodeRunner where
  "ex_frunner = (base_runner 7 ex_fview [2] ex_cfg)\<lparr>r_attest := False, r_decoupled := True, r_finalityRoundSize := 2,
     r_fcVoteOffset := 1000, r_fcAggFraction := 50\<rparr>"

definition ex_rng :: rng_lib where
  "ex_rng = \<lparr>rng_Int64N = (\<lambda>_ _ _. 0), rng_draw = (\<lambda>_ _ _ _. 0)\<rparr>"

lemma ex_rng_ok: "rng_ok ex_rng"
  by (simp add: rng_ok_def ex_rng_def)


section \<open>Teardown\<close>

lemma set_live_others:
  assumes "set rounds = dom (r_finals r)"
  shows "set (live_others r rounds n) = {l. \<exists>k. k \<noteq> n \<and> r_finals r k = Some l}"
  using assms by (force simp: live_others_def List.map_filter_def dom_def)

text \<open>
  C22: tearing a round down releases exactly what no other live round needs.  A topic is unsubscribed,
  and a peer disconnected, exactly when the round holds it and no other live round lists it,
  whatever the order of the map walk; a second teardown does nothing.
\<close>

theorem drop_spares_live:
  assumes "set rounds = dom (r_finals r)" and "\<not> dropDone fs" and "dropFinality r rounds n fs = (fs', es)"
  shows "(\<forall>t. UnsubscribeTopic t \<in> set es \<longleftrightarrow> t \<in> set (aggregateSubscribed fs) \<and>
      \<not> (\<exists>k l. k \<noteq> n \<and> r_finals r k = Some l \<and> t \<in> set (aggregateSubscribed l))) \<and>
    (\<exists>ps. filter (\<lambda>e. \<forall>t. e \<noteq> UnsubscribeTopic t) es = [Disconnect ps] \<and>
      set ps = {p \<in> set (voteDialed fs) \<union> set (aggregateDialed fs).
        \<not> (\<exists>k l. k \<noteq> n \<and> r_finals r k = Some l \<and> p \<in> set (voteDialed l) \<union> set (aggregateDialed l))}) \<and>
    dropFinality r' rounds' n fs' = (fs', [])"
proof -
  let ?live = "live_others r rounds n"
  let ?ps = "filter (\<lambda>p. p \<notin> set (concat (map (\<lambda>l. voteDialed l @ aggregateDialed l) ?live))) (voteDialed fs @ aggregateDialed fs)"
  have es: "es = map UnsubscribeTopic (filter (\<lambda>t. t \<notin> set (concat (map aggregateSubscribed ?live))) (aggregateSubscribed fs)) @
      [Disconnect ?ps]" and fs': "fs' = fs\<lparr>dropDone := True\<rparr>"
    using assms(2,3) by (simp_all add: dropFinality_def Let_def)
  have "filter (\<lambda>e. \<forall>t. e \<noteq> UnsubscribeTopic t) es = [Disconnect ?ps]" by (simp add: es filter_empty_conv)
  moreover have "set ?ps = {p \<in> set (voteDialed fs) \<union> set (aggregateDialed fs).
        \<not> (\<exists>k l. k \<noteq> n \<and> r_finals r k = Some l \<and> p \<in> set (voteDialed l) \<union> set (aggregateDialed l))}"
    using set_live_others [OF assms(1), of n] by auto
  moreover have "UnsubscribeTopic t \<in> set es \<longleftrightarrow> t \<in> set (aggregateSubscribed fs) \<and>
      \<not> (\<exists>k l. k \<noteq> n \<and> r_finals r k = Some l \<and> t \<in> set (aggregateSubscribed l))" for t
    using set_live_others [OF assms(1), of n] by (auto simp: es)
  ultimately show ?thesis by (simp add: fs' dropFinality_def del: set_filter)
qed

definition ex_round :: "int list \<Rightarrow> finalityState" where
  "ex_round ps = \<lparr>duties = [], ownSubnet = 0, voteDialed = ps, voteDone = False, aggregateSubnets = [1],
     aggregateSubscribed = [FinalityVoteTopic 1], aggregateDialed = [], aggregateDone = False, dropDone = False\<rparr>"

theorem drop_spares_live_witness:
  "UnsubscribeTopic (FinalityVoteTopic 1) \<notin>
     set (snd (dropFinality (ex_frunner\<lparr>r_finals := [0 \<mapsto> ex_round [3], 1 \<mapsto> ex_round [4]]\<rparr>) [0, 1] 0 (ex_round [3])))"
proof -
  let ?r = "ex_frunner\<lparr>r_finals := [0 \<mapsto> ex_round [3], 1 \<mapsto> ex_round [4]]\<rparr>"
  obtain fs' es where e: "dropFinality ?r [0, 1] 0 (ex_round [3]) = (fs', es)" by fastforce
  have "set [0, 1] = dom (r_finals ?r)" "\<not> dropDone (ex_round [3])" by (auto simp: ex_round_def)
  note d = drop_spares_live [OF this e]
  have "(1::int) \<noteq> 0 \<and> r_finals ?r 1 = Some (ex_round [4]) \<and> FinalityVoteTopic 1 \<in> set (aggregateSubscribed (ex_round [4]))"
    by (simp add: ex_round_def)
  then have "UnsubscribeTopic (FinalityVoteTopic 1) \<notin> set es" using d by blast
  then show ?thesis by (simp only: e snd_conv not_False_eq_True)
qed

section \<open>Reaping\<close>

text \<open>
  C23: a base round is reaped at its own last slot and nothing else is.  At the end of slot \<open>s\<close> the
  chain of \<open>k\<close>-slot rounds forgets exactly the round whose last slot \<open>s\<close> is, if any, and prunes that
  round's partial buckets at the same instant.
\<close>

theorem reap_exact:
  assumes "\<not> r_segregated r" and "0 < r_finalityRoundSize r" and "0 \<le> slot"
    and "reapFinality r rounds slot = Some (r', es)"
  shows "(\<forall>m. r_finals r' m = (if slot = (m + 1) * r_finalityRoundSize r - 1 then None else r_finals r m)) \<and>
    (\<forall>m. PrunePartial KindFinalityVote m \<in> set es \<longleftrightarrow> r_partial r \<and> slot = (m + 1) * r_finalityRoundSize r - 1)"
proof -
  let ?k = "r_finalityRoundSize r"
  have last: "slot = (m + 1) * ?k - 1 \<longleftrightarrow> (slot + 1) mod ?k = 0 \<and> m = slot div ?k" for m
  proof
    assume s: "slot = (m + 1) * ?k - 1"
    have "slot = (?k - 1) + m * ?k" using s by (simp add: algebra_simps)
    then have "slot div ?k = (?k - 1) div ?k + m" using assms(2) by simp
    also have "(?k - 1) div ?k = 0" using assms(2) by (intro div_pos_pos_trivial) auto
    finally show "(slot + 1) mod ?k = 0 \<and> m = slot div ?k" using s by simp
  next
    assume m: "(slot + 1) mod ?k = 0 \<and> m = slot div ?k"
    then obtain q where q: "slot + 1 = ?k * q" by (auto simp: mod_eq_0_iff_dvd)
    then have "slot = (?k - 1) + (q - 1) * ?k" by (simp add: algebra_simps)
    then have "slot div ?k = (?k - 1) div ?k + (q - 1)" using assms(2) by simp
    also have "(?k - 1) div ?k = 0" using assms(2) by (intro div_pos_pos_trivial) auto
    finally show "slot = (m + 1) * ?k - 1" using m q by (simp add: algebra_simps)
  qed
  have drop: "PrunePartial K m \<notin> set (snd (dropFinality x rounds key fs))" for K m x key fs
    by (auto simp: dropFinality_def Let_def)
  show ?thesis
    using assms drop by (auto simp: last reapFinality_def reap_key_def Let_def split: if_splits option.splits)
qed

theorem reap_exact_witness:
  "\<exists>r' es. reapFinality (ex_frunner\<lparr>r_partial := True, r_finals := [2 \<mapsto> ex_round [3]]\<rparr>) [2] 5 = Some (r', es) \<and>
     r_finals r' 2 = None \<and> PrunePartial KindFinalityVote 2 \<in> set es"
proof -
  let ?r = "ex_frunner\<lparr>r_partial := True, r_finals := [2 \<mapsto> ex_round [3]]\<rparr>"
  have k: "\<not> r_segregated ?r" "r_finalityRoundSize ?r = 2" "r_partial ?r"
    by (simp_all add: ex_frunner_def base_runner_def)
  then have "reapFinality ?r [2] 5 \<noteq> None" by (simp add: reapFinality_def reap_key_def)
  then obtain r' es where e: "reapFinality ?r [2] 5 = Some (r', es)" by auto
  with reap_exact [OF k(1) _ _ e] k show ?thesis by simp
qed

section \<open>Deadlines\<close>

lemma percent_inside:
  fixes f w :: int
  assumes "0 < f" and "f < 100" and "100 \<le> w"
  shows "0 < f * w div 100" and "f * w div 100 < w"
proof -
  have "1 * 100 \<le> f * w" using assms by (intro mult_mono) auto
  then show "0 < f * w div 100" by (simp add: pos_imp_zdiv_pos_iff)
  have "f * w < 100 * w" using assms by simp
  then show "f * w div 100 < w" by (simp add: div_less_iff_less_mult mult.commute)
qed

lemma NewRunner_Inr:
  assumes "NewRunner num view bp has cfg = Inr r"
  shows "runner_check view has cfg = None"
    and "r = with_partial (rc_Partial cfg) (with_decoupled (rc_Decoupled cfg) (base_runner num view bp cfg))"
  using assms by (auto simp: NewRunner_def split: option.splits)

text \<open>
  An accepted configuration aggregates inside its round.  For every runner \<open>NewRunner\<close> does not
  refuse whose plan draws finality aggregators, the aggregation deadline of the mode it runs in lies
  strictly after the round's start and strictly before its end: the \<open>K\<close> slots of a base round, the
  one slot of a segregated round.
\<close>

theorem aggregation_inside_round:
  assumes "NewRunner num view bp has cfg = Inr r" and "rc_Decoupled cfg = Some dc"
    and "v_HasFinalityAggregators view" and "100 \<le> rc_SlotDuration cfg" and "0 < dc_K dc"
  shows "(\<not> dc_Segregated dc \<longrightarrow> start < base_aggregation_due r start \<and>
      base_aggregation_due r start < start + dc_K dc * rc_SlotDuration cfg) \<and>
    (dc_Segregated dc \<longrightarrow> start < sub_aggregation_due r start \<and>
      sub_aggregation_due r start < start + rc_SlotDuration cfg)"
proof -
  let ?f = "if dc_Segregated dc then dc_RoundAggFraction dc else dc_FCAggFraction dc"
  have f: "0 < ?f" "?f < 100"
    using NewRunner_Inr(1) [OF assms(1)] assms(2,3) by (auto simp: runner_check_def Let_def split: if_splits)
  have r: "r_fcAggFraction r = dc_FCAggFraction dc" "r_roundAggFraction r = dc_RoundAggFraction dc"
    "r_finalityRoundSize r = dc_K dc" "r_slotDur r = rc_SlotDuration cfg"
    using NewRunner_Inr(2) [OF assms(1)] assms(2)
    by (simp_all add: with_partial_def with_decoupled_def base_runner_def split: option.split)
  have "1 * 100 \<le> dc_K dc * rc_SlotDuration cfg" using assms(4,5) by (intro mult_mono) auto
  then have w: "100 \<le> dc_K dc * rc_SlotDuration cfg" by simp
  show ?thesis
  proof (cases "dc_Segregated dc")
    case True
    then show ?thesis using percent_inside [of ?f "rc_SlotDuration cfg"] f assms(4)
      by (simp add: sub_aggregation_due_def r)
  next
    case False
    then show ?thesis using percent_inside [of ?f "dc_K dc * rc_SlotDuration cfg"] f w
      by (simp add: base_aggregation_due_def r mult.assoc)
  qed
qed

definition ex_dcfg :: RunnerConfig where
  "ex_dcfg = ex_cfg\<lparr>rc_Attest := False, rc_Sync := False, rc_Decoupled := Some \<lparr>dc_K = 4, dc_FCVoteOffset = 1000,
     dc_FCAggFraction = 50, dc_Segregated = False, dc_RoundAggFraction = 0\<rparr>\<rparr>"

theorem aggregation_inside_round_witness:
  "\<exists>r. NewRunner 7 ex_fview [2] False ex_dcfg = Inr r \<and> 0 < base_aggregation_due r 0"
proof -
  have "runner_check ex_fview False ex_dcfg = None" by code_simp
  then obtain r where r: "NewRunner 7 ex_fview [2] False ex_dcfg = Inr r" by (auto simp: NewRunner_def)
  have "v_HasFinalityAggregators ex_fview" "100 \<le> rc_SlotDuration ex_dcfg"
    by (simp_all add: ex_fview_def ex_dcfg_def ex_cfg_def)
  then have "0 < base_aggregation_due r 0"
    using aggregation_inside_round [OF r, of _ 0] by (simp add: ex_dcfg_def)
  with r show ?thesis by blast
qed

section \<open>Bursts\<close>

lemma emitFinalityVotes_burst:
  "\<not> r_partial r \<Longrightarrow> \<not> voteDone fs \<Longrightarrow> emitFinalityVotes C r order n fs at =
     (fs\<lparr>voteDone := True\<rparr>,
      burst (\<lambda>d. PubFinalityVote n (ad_Subnet d) (ad_Val d) (r_num r)) C (\<lambda>_. False) at (duties fs))"
  by (simp add: emitFinalityVotes_def burst_def make_defs Let_def)

lemma recorded_finality_aggregates:
  assumes "codec_roundtrip C" and "wire_range n" "wire_range (r_num r)" and "\<forall>s \<in> set subnets. wire_range s"
    and "mapO (\<lambda>subnet. map_option
            (\<lambda>cell. let msg = MakeFinalityAggregate C n subnet (r_num r) cell
                    in [OnPublish (FinalityAggregateID n subnet (r_num r)) False at,
                        Publish FinalityAggregateTopic (Payload msg)])
            (validatorsPerCell r n subnet)) subnets = Some es"
  shows "recorded C (r_num r) (concat es)"
  using assms(4,5)
proof (induction subnets arbitrary: es)
  case (Cons s subnets)
  then obtain cell es' where es: "es = [OnPublish (FinalityAggregateID n s (r_num r)) False at,
      Publish FinalityAggregateTopic (Payload (MakeFinalityAggregate C n s (r_num r) cell))] # es'"
    "recorded C (r_num r) (concat es')"
    by (auto simp: Let_def split: option.splits)
  have "recorded C (r_num r) [OnPublish (FinalityAggregateID n s (r_num r)) False at,
      Publish FinalityAggregateTopic (Payload (MakeFinalityAggregate C n s (r_num r) cell))]"
    by (rule recorded_publication [OF assms(1), of "PubFinalityAggregate n s (r_num r) cell"])
      (use assms(2,3) Cons.prems(1) in \<open>auto simp: pub_defs make_defs\<close>)
  then show ?case unfolding es(1) concat.simps by (rule recorded_append) (rule es(2))
qed simp

text \<open>
  The finality bursts are recorded as they are delivered, and happen once.  Every vote of the
  round is published on its validator's subnet right after its record, one per duty, every aggregate
  on the global topic, and receivers decode exactly the recorded identity; a second firing of either
  timer publishes nothing.
\<close>

theorem finality_bursts_recorded:
  assumes "codec_roundtrip C" and "wire_range n" "wire_range (r_num r)" and "\<not> r_partial r"
    and "\<forall>d \<in> set (duties fs). wire_range (ad_Subnet d) \<and> wire_range (ad_Val d)"
    and "\<forall>s \<in> set (aggregateSubnets fs). wire_range s"
    and "emitFinalityVotes C r order n fs at = (fs1, es1)" and "\<not> voteDone fs"
    and "emitFinalityAggregate C r n fs at = Some (fs2, es2)"
  shows "recorded C (r_num r) es1 \<and> recorded C (r_num r) es2 \<and>
    concat (map records es1) = map (\<lambda>d. FinalityVoteID n (ad_Subnet d) (ad_Val d) (r_num r)) (duties fs) \<and>
    emitFinalityVotes C r order n fs1 later = (fs1, []) \<and> emitFinalityAggregate C r n fs2 later = Some (fs2, [])"
proof -
  have fs2: "aggregateDone fs2" using assms(9) by (auto simp: emitFinalityAggregate_def split: if_splits)
  have e1: "fs1 = fs\<lparr>voteDone := True\<rparr>"
      "es1 = burst (\<lambda>d. PubFinalityVote n (ad_Subnet d) (ad_Val d) (r_num r)) C (\<lambda>_. False) at (duties fs)"
    using emitFinalityVotes_burst [OF assms(4,8)] assms(7) by simp_all
  have "recorded C (r_num r) es1"
    unfolding e1 using assms(1-3,5) by (intro recorded_burst) (auto simp: pub_defs)
  moreover have "recorded C (r_num r) es2"
    using assms(9) recorded_finality_aggregates [OF assms(1-3,6)]
    by (auto simp: emitFinalityAggregate_def split: if_splits)
  ultimately show ?thesis
    using fs2 by (simp add: e1 records_burst emitFinalityVotes_def emitFinalityAggregate_def)
qed

theorem finality_bursts_recorded_witness:
  "\<exists>fs es. prejoinFinality ex_rng ex_frunner 0 \<noteq> None \<and>
     emitFinalityVotes fixed_codec ex_frunner [] 3 fs 0 = (fs\<lparr>voteDone := True\<rparr>, es) \<and>
     recorded fixed_codec 7 es \<and> concat (map records es) = [FinalityVoteID 3 1 4 7]"
proof -
  let ?fs = "(ex_round [3])\<lparr>duties := [\<lparr>ad_Subnet = 1, ad_Val = 4, ad_Position = 0\<rparr>]\<rparr>"
  have s: "r_num ex_frunner = 7" "\<not> r_partial ex_frunner" "\<not> r_segregated ex_frunner"
    by (simp_all add: ex_frunner_def base_runner_def)
  obtain fs1 es1 where e1: "emitFinalityVotes fixed_codec ex_frunner [] 3 ?fs 0 = (fs1, es1)" by fastforce
  have "emitFinalityAggregate fixed_codec ex_frunner 3 ?fs 0 \<noteq> None"
    by (simp add: emitFinalityAggregate_def ex_round_def validatorsPerCell_def s)
  then obtain fs2 es2 where e2: "emitFinalityAggregate fixed_codec ex_frunner 3 ?fs 0 = Some (fs2, es2)" by auto
  have "recorded fixed_codec (r_num ex_frunner) es1 \<and>
      concat (map records es1) = map (\<lambda>d. FinalityVoteID 3 (ad_Subnet d) (ad_Val d) (r_num ex_frunner)) (duties ?fs)"
    using finality_bursts_recorded [OF fixed_codec_roundtrip _ _ s(2) _ _ e1 _ e2]
    by (simp add: s wire_range_def ex_round_def)
  moreover have "fs1 = ?fs\<lparr>voteDone := True\<rparr>" using e1 by (simp add: emitFinalityVotes_def s ex_round_def)
  moreover have "prejoinFinality ex_rng ex_frunner 0 \<noteq> None" by code_simp
  ultimately show ?thesis using e1 s by (intro exI [of _ ?fs] exI [of _ es1]) simp
qed

end
