(* ===== verification/SlotProps.thy ===== *)
theory SlotProps
  imports Slots FinalityProps
begin

text \<open>What the slot lifecycle guarantees: one proposer, no panic on a covering plan, sound dials.\<close>

section \<open>Proposers\<close>

lemma Node_proposes: "Node a i = Some v \<Longrightarrow> v_Proposes v = map (\<lambda>sp. sp_Proposer sp = i) (a_Slots a)"
  by (auto simp: Node_def bind_eq_Some_conv Let_def)

text \<open>
  Every slot has exactly one proposer.  Without a plan exactly one of the fleet's nodes finds
  itself the proposer of a slot; with a plan's views exactly the planned node does.
\<close>

theorem exactly_one_proposer:
  assumes "0 \<le> slot" and "0 < N"
    and "\<And>i. i \<in> {0..<N} \<Longrightarrow> r_num (rs i) = i \<and> r_numNodes (rs i) = N"
    and "(\<forall>i \<in> {0..<N}. v_Proposes (r_view (rs i)) = []) \<or>
         (\<forall>i \<in> {0..<N}. Node a i = Some (r_view (rs i))) \<and> slot < int (length (a_Slots a)) \<and>
           sp_Proposer (a_Slots a ! nat slot) \<in> {0..<N}"
  shows "\<exists>!i. i \<in> {0..<N} \<and> proposes (rs i) slot = Some True"
  using assms(4)
proof
  assume "\<forall>i \<in> {0..<N}. v_Proposes (r_view (rs i)) = []"
  then have "proposes (rs i) slot = Some (slot mod N = i)" if "i \<in> {0..<N}" for i
    using that assms(1,2) assms(3) [of i] by (simp add: proposes_def)
  moreover have "slot mod N \<in> {0..<N}" using assms(2) by simp
  ultimately show ?thesis by (intro ex1I [of _ "slot mod N"]) auto
next
  assume plan: "(\<forall>i \<in> {0..<N}. Node a i = Some (r_view (rs i))) \<and> slot < int (length (a_Slots a)) \<and>
     sp_Proposer (a_Slots a ! nat slot) \<in> {0..<N}"
  have "proposes (rs i) slot = Some (sp_Proposer (a_Slots a ! nat slot) = i)" if "i \<in> {0..<N}" for i
  proof -
    have "v_Proposes (r_view (rs i)) = map (\<lambda>sp. sp_Proposer sp = i) (a_Slots a)"
      using plan that Node_proposes by blast
    then show ?thesis using plan assms(1) by (auto simp: proposes_def)
  qed
  with plan show ?thesis by (intro ex1I [of _ "sp_Proposer (a_Slots a ! nat slot)"]) auto
qed

theorem exactly_one_proposer_witness:
  "\<exists>!i. i \<in> {0..<4} \<and> proposes (base_runner i zero_view [] ex_cfg) 6 = Some True"
  by (rule exactly_one_proposer [of 6 4 "\<lambda>i. base_runner i zero_view [] ex_cfg" example_plan])
    (simp_all add: base_runner_def ex_cfg_def zero_view_def)

section \<open>No panic\<close>

lemma foldO_total: "(\<And>s x. x \<in> set xs \<Longrightarrow> f s x \<noteq> None) \<Longrightarrow> foldO f xs s \<noteq> None"
  by (induction xs arbitrary: s) (auto split: option.splits)

lemma dial_one_total: "order s \<noteq> None \<Longrightarrow> dial_one r order acc s \<noteq> None"
  by (cases acc) (auto simp: dial_one_def)

text \<open>The subnets a plan draws finality duties on have member lists.\<close>

definition subnets_covered :: "Assignment \<Rightarrow> bool" where
  "subnets_covered a \<longleftrightarrow>
     (\<forall>s \<in> set (a_FinalitySubnetOf a). s < int (length (a_FinalitySubscribers a))) \<and>
     (\<forall>sp \<in> set (a_Slots a). length (sp_FinalityAggregators sp) \<le> length (a_FinalitySubscribers a))"

lemma Node_lists:
  assumes "Node a node = Some v"
  shows "length (v_Proposes v) = length (a_Slots a)" "length (v_AttestDuties v) = length (a_Slots a)"
    "length (v_ACVoteDuties v) = length (a_Slots a)" "length (v_AggregateSubnets v) = length (a_Slots a)"
    "length (v_SyncAggregateSubnets v) = length (a_Slots a)"
    "length (v_FinalityAggregations v) = length (v_FinalityVoteDuties v)"
    "v_FinalitySubscribers v = a_FinalitySubscribers a"
  using assms by (auto simp: Node_def bind_eq_Some_conv Let_def mapO_Some_iff dest: list_all2_lengthD)

lemma Node_finality:
  assumes "Node a node = Some v" and "n < length (v_FinalityVoteDuties v)"
  shows "finalityVoteDuties a node (int n) = Some (v_FinalityVoteDuties v ! n)"
    and "v_FinalityAggregations v ! n = finalityAggregations a node (int n)"
proof -
  from assms(1) obtain votes where v: "mapO (\<lambda>n. finalityVoteDuties a node (int n)) [0..<finality_rounds a] = Some votes"
    "v_FinalityVoteDuties v = votes"
    "v_FinalityAggregations v = map (\<lambda>n. finalityAggregations a node (int n)) [0..<finality_rounds a]"
    by (auto simp: Node_def bind_eq_Some_conv Let_def)
  have all: "list_all2 (\<lambda>n d. finalityVoteDuties a node (int n) = Some d) [0..<finality_rounds a] votes"
    using v(1) by (simp add: mapO_Some_iff)
  then have len: "length votes = finality_rounds a" by (auto dest: list_all2_lengthD)
  show "finalityVoteDuties a node (int n) = Some (v_FinalityVoteDuties v ! n)"
    using list_all2_nthD2 [OF all, of n] assms(2) len v(2) by simp
  show "v_FinalityAggregations v ! n = finalityAggregations a node (int n)"
    using assms(2) len v by simp
qed

lemma aggregation_range:
  assumes "subnets_covered a" and "s \<in> set (finalityAggregations a node n)"
  shows "0 \<le> s \<and> s < int (length (a_FinalitySubscribers a))"
proof -
  obtain idx where idx: "0 \<le> idx" "idx < int (length (a_Slots a))"
    "s \<in> set (select_indices (\<lambda>aggs. \<exists>r \<in> set aggs. ref_Node r = node) (sp_FinalityAggregators (a_Slots a ! nat idx)))"
    using assms(2) by (auto simp: finalityAggregations_def Let_def not_le not_less split: if_splits)
  then have "0 \<le> s" "s < int (length (sp_FinalityAggregators (a_Slots a ! nat idx)))"
    by (simp_all add: set_select_indices)
  moreover have "a_Slots a ! nat idx \<in> set (a_Slots a)" using idx by (intro nth_mem) auto
  ultimately show ?thesis using assms(1) by (fastforce simp: subnets_covered_def)
qed

lemma prejoin_total:
  assumes "Node a node = Some (r_view r)" and "wf_finality a" "wf_hosting a" "0 \<le> node" "node < numNodes a"
    and "subnets_covered a" and "0 \<le> n"
  shows "prejoinFinality L r n \<noteq> None"
proof (cases "v_FinalityMember (r_view r) \<and> n < int (length (v_FinalityVoteDuties (r_view r)))")
  case False
  then show ?thesis by (auto simp: prejoinFinality_def Let_def)
next
  case True
  let ?v = "r_view r" and ?own = "v_FinalitySubnet (r_view r)"
  let ?d = "dial_one r (shuffledFinalitySubscribers L r n)"
  define ds where "ds = v_FinalityVoteDuties ?v ! nat n"
  define aggs where "aggs = v_FinalityAggregations ?v ! nat n"
  have n: "nat n < length (v_FinalityVoteDuties ?v)" using True assms(7) by linarith
  have ds: "finalityVoteDuties a node n = Some ds"
    using Node_finality(1) [OF assms(1) n] assms(7) by (simp add: ds_def)
  have aggs: "aggs = finalityAggregations a node n"
    using Node_finality(2) [OF assms(1) n] assms(7) by (simp add: aggs_def)
  have shuf: "shuffledFinalitySubscribers L r n s \<noteq> None" if "0 \<le> s" "s < int (length (a_FinalitySubscribers a))" for s
    using that Node_lists(7) [OF assms(1)] by (simp add: shuffledFinalitySubscribers_def)
  have "0 \<le> s \<and> s < int (length (a_FinalitySubscribers a))" if sin: "s \<in> set (foreign_subnets ?own ds)" for s
  proof -
    obtain vs where vs: "finalityVoteDuties a node n = Some (map (duty_of a) vs)"
      "set vs = {v. 0 \<le> v \<and> v < int (length (a_FinalitySubnetOf a)) \<and> HostOf a v = node \<and>
                     group_round a n = Some (val_round a (nat v))}"
      by (rule finalityVoteDuties_eq [OF assms(2-5,7)])
    obtain d where d: "d \<in> set ds" "s = ad_Subnet d" using sin by (auto simp: set_foreign_subnets)
    then obtain v where v: "v \<in> set vs" "d = duty_of a v" using vs(1) ds by auto
    then have "nat v < length (a_FinalitySubnetOf a)" unfolding vs(2) by auto
    then have "s \<in> set (a_FinalitySubnetOf a)" by (simp add: d v duty_of_def)
    then show ?thesis using assms(2,6) by (auto simp: wf_finality_def subnets_covered_def)
  qed
  then have f1: "foldO ?d (foreign_subnets ?own ds) ([], {}) \<noteq> None"
    by (intro foldO_total dial_one_total shuf) auto
  have f2: "foldO ?d aggs ([], pk) \<noteq> None" for pk
    using aggregation_range [OF assms(6), of _ node n] by (intro foldO_total dial_one_total shuf) (auto simp: aggs)
  have i1: "go_index (v_FinalityVoteDuties ?v) n = Some ds" using True assms(7) by (simp add: ds_def)
  have i2: "go_index (v_FinalityAggregations ?v) n = Some aggs"
    using True assms(7) Node_lists(6) [OF assms(1)] by (simp add: aggs_def)
  obtain vd pk where vd: "foldO ?d (foreign_subnets ?own ds) ([], {}) = Some (vd, pk)" using f1 by auto
  obtain ad pk' where ad: "foldO ?d aggs ([], pk) = Some (ad, pk')" using f2 [of pk] by auto
  show ?thesis
    using True by (simp add: prejoinFinality_def Let_def i1 i2 vd ad del: go_index_Some_iff)
qed

text \<open>The runner of a node of a plan.\<close>

definition plan_runner :: "Assignment \<Rightarrow> int \<Rightarrow> NodeRunner \<Rightarrow> bool" where
  "plan_runner a node r \<longleftrightarrow> Node a node = Some (r_view r) \<and> wf_finality a \<and> wf_hosting a \<and> 0 \<le> node \<and>
     node < numNodes a \<and> subnets_covered a \<and> (r_decoupled r \<longrightarrow> 0 < r_finalityRoundSize r)"

lemma prejoin_view: "prejoinFinality L r n = Some (r', es) \<Longrightarrow> \<exists>F. r' = r\<lparr>r_finals := F\<rparr>"
proof (cases "v_FinalityMember (r_view r) \<and> n < int (length (v_FinalityVoteDuties (r_view r)))")
  case True
  assume e: "prejoinFinality L r n = Some (r', es)"
  show ?thesis by (rule prejoin_Some [OF e]) (use True in auto)
next
  case False
  assume "prejoinFinality L r n = Some (r', es)"
  with False have "r' = r\<lparr>r_finals := r_finals r\<rparr>" by (auto simp: prejoinFinality_def Let_def)
  then show ?thesis by blast
qed

lemma round0Warmup_total: "plan_runner a node r \<Longrightarrow> round0Warmup L r \<noteq> None"
  using prejoin_total [of a node "r\<lparr>r_round0Done := True\<rparr>" 0 L]
  by (simp add: plan_runner_def round0Warmup_def)

lemma round0Warmup_view: "round0Warmup L r = Some (r', es) \<Longrightarrow> r_view r' = r_view r \<and> r_epbs r' = r_epbs r \<and>
    r_sync r' = r_sync r \<and> r_num r' = r_num r \<and> r_numNodes r' = r_numNodes r \<and> r_aggDue r' = r_aggDue r"
  using prejoin_view [of L "r\<lparr>r_round0Done := True\<rparr>" 0 r' es]
  by (auto simp: round0Warmup_def split: if_splits)

lemma setup_phase_total:
  assumes "plan_runner a node r" and "0 \<le> slot" and "slot < int (length (a_Slots a))"
  shows "\<exists>r' ss' e. setup_phase L r slot t ss = Some (r', ss', e) \<and> r_view r' = r_view r \<and>
    r_epbs r' = r_epbs r \<and> r_sync r' = r_sync r \<and> r_num r' = r_num r \<and> r_numNodes r' = r_numNodes r"
proof -
  have N: "Node a node = Some (r_view r)" using assms(1) by (simp add: plan_runner_def)
  note len = Node_lists [OF N]
  consider (attest) "r_attest r" | (dec) "\<not> r_attest r" "r_decoupled r" | (none) "\<not> r_attest r" "\<not> r_decoupled r" by blast
  then show ?thesis
  proof cases
    case attest
    then show ?thesis using len assms(2,3) by (simp add: setup_phase_def setup_attest_def Let_def)
  next
    case dec
    obtain r' w where w: "round0Warmup L r = Some (r', w)" using round0Warmup_total [OF assms(1), of L] by auto
    have k: "0 < r_finalityRoundSize r" using assms(1) dec by (simp add: plan_runner_def)
    have "\<exists>r'' e. (if r_segregated r then armFinalitySubRound L r slot t else armFinality L r slot t) = Some (r'', e) \<and>
        (r'' = r \<or> r'' = r')"
      using w k by (auto simp: armFinalitySubRound_def armFinality_def Let_def)
    then show ?thesis
      using dec len assms(2,3) round0Warmup_view [OF w]
      by (auto simp: setup_phase_def setup_decoupled_def)
  next
    case none
    then show ?thesis by (simp add: setup_phase_def)
  qed
qed

text \<open>
  C5: the slot clock never panics on its plan.  For every node of a well-formed plan whose finality
  subnets have member lists, \<open>setupSlot\<close> of every planned slot, in every phase, completes: no plan
  list is read outside its bounds; it registers the slot and arms its deadline and its end.
\<close>

theorem setup_never_panics:
  assumes "plan_runner a node r" and "0 \<le> slot" and "slot < int (length (a_Slots a))"
  shows "\<exists>r' es ss. setupSlot L r slot t = Some (r', es) \<and> r_slots r' slot = Some ss \<and>
    At (deadline ss) (BlockDeadline slot) \<in> set es \<and> At (t + r_slotDur r') (EndSlot slot) \<in> set es"
proof -
  have N: "Node a node = Some (r_view r)" using assms(1) by (simp add: plan_runner_def)
  note len = Node_lists [OF N]
  obtain r1 ss1 e1 where ph: "setup_phase L r slot t (new_slotState (t + r_blockDue r)) = Some (r1, ss1, e1)"
    "r_view r1 = r_view r" "r_epbs r1 = r_epbs r" "r_sync r1 = r_sync r" "r_num r1 = r_num r" "r_numNodes r1 = r_numNodes r"
    using setup_phase_total [OF assms] by metis
  have "setup_ptc r1 slot t ss \<noteq> None" for ss
    using assms(2) by (auto simp: setup_ptc_def split: option.split)
  then obtain ss2 e2 where ptc: "setup_ptc r1 slot t (setup_custody r1 ss1) = Some (ss2, e2)" by fastforce
  have "setup_sync r1 slot t ss \<noteq> None" for ss
    using assms(2,3) len by (auto simp: setup_sync_def ph)
  then obtain ss3 e3 where syn: "setup_sync r1 slot t ss2 = Some (ss3, e3)" by fastforce
  have ne: "v_Proposes (r_view r) \<noteq> []" using len(1) assms(2,3) by auto
  have "proposes r1 slot \<noteq> None" using assms(2,3) len(1) ne by (simp add: proposes_def ph)
  then obtain p where p: "proposes r1 slot = Some p" by auto
  show ?thesis by (simp add: setupSlot_def ph(1) ptc syn p)
qed

lemma example_plan_runner:
  assumes "Node example_plan 1 = Some v"
  shows "plan_runner example_plan 1 ((base_runner 1 v [] ex_cfg)\<lparr>r_attest := False, r_decoupled := True,
    r_finalityRoundSize := 2, r_segregated := True\<rparr>)"
  using assms example_plan_wf
  by (simp add: plan_runner_def base_runner_def subnets_covered_def numNodes_def)
     (simp add: example_plan_def)

theorem setup_never_panics_witness:
  "\<exists>v. Node example_plan 1 = Some v \<and>
     setupSlot ex_rng ((base_runner 1 v [] ex_cfg)\<lparr>r_attest := False, r_decoupled := True,
       r_finalityRoundSize := 2, r_segregated := True\<rparr>) 0 0 \<noteq> None"
proof -
  have "Node example_plan 1 \<noteq> None" by code_simp
  then obtain v where v: "Node example_plan 1 = Some v" by auto
  have "0 < int (length (a_Slots example_plan))" by (simp add: example_plan_def)
  from setup_never_panics [OF example_plan_runner [OF v] _ this] v show ?thesis by (metis option.distinct(1) order_refl)
qed

section \<open>Fan-out dials\<close>

definition subnet_members :: "NodeRunner \<Rightarrow> int \<Rightarrow> int set" where
  "subnet_members r s = (case go_index (v_Subscribers (r_view r)) s of None \<Rightarrow> {} | Some ms \<Rightarrow> set ms)"

lemma shuffled_subscribers: "rng_ok L \<Longrightarrow> shuffledSubscribers L r slot s = Some os \<Longrightarrow> set os \<subseteq> subnet_members r s"
  by (auto simp: shuffledSubscribers_def subnet_members_def)

text \<open>The duty loop dials once for each foreign subnet, in duty order.\<close>

lemma dial_duty_fold:
  assumes "foldO (dial_duty L r slot ss) ds (acc, seen, e) = Some (acc', seen', e')"
  shows "\<exists>subnets. seen' = seen @ subnets \<and> distinct subnets \<and>
    set subnets = {ad_Subnet d |d. d \<in> set ds \<and> ad_Subnet d \<notin> attestationSubnetsSubscribed ss} - set seen \<and>
    foldO (dial_one r (shuffledSubscribers L r slot)) subnets acc = Some acc' \<and>
    e' = e @ map (\<lambda>s. JoinTopic (AttestationTopic s)) subnets"
  using assms
proof (induction ds arbitrary: acc seen e)
  case (Cons d ds)
  show ?case
  proof (cases "ad_Subnet d \<in> attestationSubnetsSubscribed ss \<or> ad_Subnet d \<in> set seen")
    case True
    with Cons.prems have "foldO (dial_duty L r slot ss) ds (acc, seen, e) = Some (acc', seen', e')"
      by (simp add: dial_duty_def)
    from Cons.IH [OF this] True show ?thesis by auto
  next
    case False
    then obtain acc1 where one: "dial_one r (shuffledSubscribers L r slot) acc (ad_Subnet d) = Some acc1"
      and rest: "foldO (dial_duty L r slot ss) ds
        (acc1, seen @ [ad_Subnet d], e @ [JoinTopic (AttestationTopic (ad_Subnet d))]) = Some (acc', seen', e')"
      using Cons.prems by (auto simp: dial_duty_def split: option.splits)
    from Cons.IH [OF rest] obtain subnets where "seen' = (seen @ [ad_Subnet d]) @ subnets" "distinct subnets"
      "set subnets = {ad_Subnet d |d. d \<in> set ds \<and> ad_Subnet d \<notin> attestationSubnetsSubscribed ss} - set (seen @ [ad_Subnet d])"
      "foldO (dial_one r (shuffledSubscribers L r slot)) subnets acc1 = Some acc'"
      "e' = (e @ [JoinTopic (AttestationTopic (ad_Subnet d))]) @ map (\<lambda>s. JoinTopic (AttestationTopic s)) subnets"
      by blast
    with False one show ?thesis by (intro exI [of _ "ad_Subnet d # subnets"]) auto
  qed
qed simp


definition ex_aview :: View where
  "ex_aview = zero_view\<lparr>v_Subscribers := [[0, 1], [3, 1, 4, 5]], v_SubscribedSubnets := [0]\<rparr>"


section \<open>Publish instants\<close>

text \<open>
  Blocks and payloads are published when they are due.  The block's instant lies in the jitter
  window behind the configured offset, the payload's in its own window behind the block's instant
  plus the reveal delay; a zero window is the instant itself.
\<close>

theorem publish_instants:
  assumes "rng_ok L"
  shows "r_offset r \<le> blockPublishAt L r slot \<and>
    (if 0 < r_jitter r then blockPublishAt L r slot < r_offset r + r_jitter r else blockPublishAt L r slot = r_offset r) \<and>
    blockPublishAt L r slot + ep_PayloadOffset ep \<le> payloadPublishAt L r ep slot \<and>
    payloadPublishAt L r ep slot < blockPublishAt L r slot + ep_PayloadOffset ep + max 1 (ep_PayloadJitter ep)"
  using assms by (auto simp: rng_ok_def blockPublishAt_def payloadPublishAt_def Let_def max_def not_less)

theorem publish_instants_witness:
  "0 \<le> blockPublishAt ex_rng ex_runner 3"
  using publish_instants [OF ex_rng_ok, of ex_runner 3]
  by (simp add: ex_runner_def base_runner_def ex_cfg_def)

end
