(* ===== verification/Verifier.thy ===== *)
theory Verifier
  imports Prelude
begin

text \<open>
  The validation-as-sleep queues of a node: the batched single-server verifier
  (src/node/verifier.go) and the width-P column verifier (src/node/column_verifier.go).

  The run loop is a step relation on the shared state.  A step of the loop is what it does between
  two blocking points: waking up in the select and the locked section after it, or the end of a
  batch's sleep with its callbacks and the locked section after it.  The one-slot \<open>notify\<close> channel
  is a flag; \<open>timerRunning\<close> says that the window timer is armed, so it may fire at any time.
\<close>

section \<open>Items and the batch cut\<close>

record verificationItem =
  vi_Slot :: int
  vi_Topic :: string
  vi_Attestations :: nat

record queuedItem =
  qi_item :: verificationItem
  qi_onVerified :: "nat option"

abbreviation atts :: "queuedItem \<Rightarrow> int" where
  "atts q \<equiv> int (vi_Attestations (qi_item q))"

fun batchEnd_loop :: "queuedItem list \<Rightarrow> int \<Rightarrow> nat \<Rightarrow> int \<Rightarrow> nat" where
  "batchEnd_loop [] maxItems n sofar = n"
| "batchEnd_loop (q # queue) maxItems n sofar =
     (let sofar' = sofar + atts q in
      if n > 0 \<and> sofar' > maxItems then n else batchEnd_loop queue maxItems (n + 1) sofar')"

definition batchEnd :: "queuedItem list \<Rightarrow> int \<Rightarrow> nat" where
  "batchEnd queue maxItems =
     (if maxItems \<le> 0 then length queue else batchEnd_loop queue maxItems 0 0)"

definition totalAttestations :: "queuedItem list \<Rightarrow> int" where
  "totalAttestations batch = sum_list (map atts batch)"

text \<open>How long a batch sleeps, and the callbacks it then runs, in queue order.\<close>

definition verifyBatch :: "dur \<Rightarrow> dur \<Rightarrow> queuedItem list \<Rightarrow> dur \<times> (nat \<times> verificationItem) list" where
  "verifyBatch base perItem batch =
     (if batch = [] then (0, [])
      else (base + totalAttestations batch * perItem,
            concat (map (\<lambda>q. case qi_onVerified q of None \<Rightarrow> [] | Some f \<Rightarrow> [(f, qi_item q)]) batch)))"

section \<open>The loop\<close>

datatype phase = Selecting | Verifying "queuedItem list" | Exited

record batchVerifier =
  bv_queue :: "queuedItem list"
  bv_notify :: bool
  bv_stopped :: bool
  bv_timerRunning :: bool
  bv_phase :: phase

definition newBatchVerifier :: batchVerifier where
  "newBatchVerifier = \<lparr>bv_queue = [], bv_notify = False, bv_stopped = False,
     bv_timerRunning = False, bv_phase = Selecting\<rparr>"

definition submit :: "queuedItem \<Rightarrow> batchVerifier \<Rightarrow> batchVerifier" where
  "submit q v = v\<lparr>bv_queue := bv_queue v @ [q], bv_notify := True\<rparr>"

definition stop :: "batchVerifier \<Rightarrow> batchVerifier" where
  "stop v = v\<lparr>bv_stopped := True, bv_notify := True\<rparr>"

text \<open>The select has received from \<open>timer.C\<close> (\<open>byTimer\<close>) or from \<open>notify\<close>, which is drained.\<close>

definition wake :: "int \<Rightarrow> bool \<Rightarrow> batchVerifier \<Rightarrow> batchVerifier" where
  "wake maxItems byTimer v =
     (let running = (if byTimer then False else bv_timerRunning v);
          v1 = v\<lparr>bv_notify := False, bv_timerRunning := running\<rparr>
      in if running \<and> \<not> bv_stopped v then v1
         else (let queue = bv_queue v; n = batchEnd queue maxItems;
                   v2 = v1\<lparr>bv_queue := drop n queue\<rparr>
               in if bv_stopped v \<and> queue = [] then v2\<lparr>bv_phase := Exited\<rparr>
                  else if queue = [] then v2
                  else v2\<lparr>bv_timerRunning := True, bv_phase := Verifying (take n queue)\<rparr>))"

text \<open>The batch has slept and run its callbacks; a capped leftover on stop re-signals.\<close>

definition batch_done :: "batchVerifier \<Rightarrow> batchVerifier" where
  "batch_done v =
     (if bv_stopped v then
        (if bv_queue v = [] then v\<lparr>bv_phase := Exited\<rparr>
         else v\<lparr>bv_notify := True, bv_phase := Selecting\<rparr>)
      else v\<lparr>bv_phase := Selecting\<rparr>)"

inductive internal :: "int \<Rightarrow> batchVerifier \<Rightarrow> batchVerifier \<Rightarrow> bool" for maxItems :: int where
  notified: "bv_phase v = Selecting \<Longrightarrow> bv_notify v \<Longrightarrow> internal maxItems v (wake maxItems False v)"
| fired: "bv_phase v = Selecting \<Longrightarrow> bv_timerRunning v \<Longrightarrow> internal maxItems v (wake maxItems True v)"
| slept: "bv_phase v = Verifying batch \<Longrightarrow> internal maxItems v (batch_done v)"

text \<open>The system: the verifier with the history of what was submitted and what was verified.\<close>

record bvsys =
  bs_v :: batchVerifier
  bs_submitted :: "queuedItem list"
  bs_verified :: "queuedItem list"

definition inflight :: "batchVerifier \<Rightarrow> queuedItem list" where
  "inflight v = (case bv_phase v of Verifying batch \<Rightarrow> batch | _ \<Rightarrow> [])"

inductive bvstep :: "int \<Rightarrow> bvsys \<Rightarrow> bvsys \<Rightarrow> bool" for maxItems :: int where
  submits: "bvstep maxItems s (s\<lparr>bs_v := submit q (bs_v s), bs_submitted := bs_submitted s @ [q]\<rparr>)"
| stops: "bvstep maxItems s (s\<lparr>bs_v := stop (bs_v s)\<rparr>)"
| runs: "internal maxItems (bs_v s) v' \<Longrightarrow>
    bvstep maxItems s (s\<lparr>bs_v := v', bs_verified := bs_verified s @ inflight (bs_v s)\<rparr>)"

inductive bvreach :: "int \<Rightarrow> bvsys \<Rightarrow> bool" for maxItems :: int where
  start: "bvreach maxItems \<lparr>bs_v = newBatchVerifier, bs_submitted = [], bs_verified = []\<rparr>"
| step: "bvreach maxItems s \<Longrightarrow> bvstep maxItems s s' \<Longrightarrow> bvreach maxItems s'"

section \<open>The cut\<close>

text \<open>What the loop needs of the rule that cuts a batch off the queue: progress inside the queue.\<close>

locale batch_cut =
  fixes cut :: "'q list \<Rightarrow> nat"
  assumes cut_le: "cut queue \<le> length queue"
    and cut_pos: "queue \<noteq> [] \<Longrightarrow> 0 < cut queue"
begin

lemma cut_nonempty: "queue \<noteq> [] \<Longrightarrow> take (cut queue) queue \<noteq> []"
  using cut_pos [of queue] by simp

lemma rest_shorter: "queue \<noteq> [] \<Longrightarrow> length (drop (cut queue) queue) < length queue"
  using cut_pos [of queue] by (cases queue) auto

end

lemma batchEnd_loop_bounds:
  "n \<le> batchEnd_loop queue mi n sofar \<and> batchEnd_loop queue mi n sofar \<le> n + length queue"
proof (induction queue arbitrary: n sofar)
  case (Cons q queue)
  from Cons [of "n + 1" "sofar + atts q"] show ?case by (auto simp: Let_def)
qed simp

lemma batchEnd_le: "batchEnd queue mi \<le> length queue"
  using batchEnd_loop_bounds [of 0 queue mi 0] by (simp add: batchEnd_def)

lemma batchEnd_pos: "queue \<noteq> [] \<Longrightarrow> 0 < batchEnd queue mi"
proof -
  assume "queue \<noteq> []"
  then obtain q rest where "queue = q # rest" by (cases queue) auto
  moreover have "1 \<le> batchEnd_loop rest mi 1 t" for t
    using batchEnd_loop_bounds [of 1 rest mi t] by simp
  ultimately show ?thesis by (simp add: batchEnd_def Let_def Suc_le_lessD)
qed

interpretation node_cut: batch_cut "\<lambda>queue. batchEnd queue mi" for mi
  by unfold_locales (auto simp: batchEnd_le batchEnd_pos)

text \<open>The loop stops at the first item that would pass the cap.\<close>

lemma batchEnd_loop_cap:
  assumes "0 < n" and "sofar \<le> mi"
  shows "sofar + totalAttestations (take (batchEnd_loop queue mi n sofar - n) queue) \<le> mi \<and>
    (batchEnd_loop queue mi n sofar < n + length queue \<longrightarrow>
       mi < sofar + totalAttestations (take (Suc (batchEnd_loop queue mi n sofar - n)) queue))"
  using assms
proof (induction queue arbitrary: n sofar)
  case Nil
  then show ?case by (simp add: totalAttestations_def)
next
  case (Cons q queue)
  show ?case
  proof (cases "sofar + atts q > mi")
    case True
    then show ?thesis using Cons.prems by (simp add: Let_def totalAttestations_def)
  next
    case False
    let ?e = "batchEnd_loop queue mi (n + 1) (sofar + atts q)"
    have e: "n + 1 \<le> ?e" using batchEnd_loop_bounds [of "n + 1" queue mi] by blast
    then obtain k where k: "?e = n + 1 + k" using le_Suc_ex by blast
    have "batchEnd_loop (q # queue) mi n sofar = ?e" using False by (simp add: Let_def)
    then show ?thesis
      using Cons.IH [of "n + 1" "sofar + atts q"] False k
      by (simp add: totalAttestations_def add.assoc)
  qed
qed

lemma totalAttestations_take_mono:
  "i \<le> j \<Longrightarrow> totalAttestations (take i queue) \<le> totalAttestations (take j queue)"
proof -
  assume "i \<le> j"
  then obtain k where "j = i + k" using le_Suc_ex by blast
  then have "take j queue = take i queue @ take k (drop i queue)" by (simp add: take_add)
  moreover have "0 \<le> totalAttestations (take k (drop i queue))"
    unfolding totalAttestations_def by (rule sum_list_nonneg) auto
  ultimately show ?thesis by (simp add: totalAttestations_def)
qed

text \<open>The three cases of a capped cut of a non-empty queue.\<close>

lemma batchEnd_capped:
  assumes "0 < mi"
  shows "(batchEnd (q # rest) mi = 1 \<or> totalAttestations (take (batchEnd (q # rest) mi) (q # rest)) \<le> mi) \<and>
    (batchEnd (q # rest) mi < length (q # rest) \<longrightarrow>
       mi < totalAttestations (take (Suc (batchEnd (q # rest) mi)) (q # rest)))"
proof -
  let ?e = "batchEnd_loop rest mi 1 (atts q)"
  have e: "batchEnd (q # rest) mi = ?e" using assms by (simp add: batchEnd_def Let_def)
  show ?thesis
  proof (cases "atts q \<le> mi")
    case True
    have "1 \<le> ?e" using batchEnd_loop_bounds [of 1 rest mi "atts q"] by blast
    then obtain k where k: "?e = Suc k" by (cases ?e) auto
    show ?thesis
      using batchEnd_loop_cap [of 1 "atts q" mi rest] True k
      unfolding e k by (simp add: totalAttestations_def)
  next
    case False
    have "?e = 1" using False by (cases rest) (auto simp: Let_def)
    moreover have "mi < totalAttestations (take (Suc 1) (q # rest))"
      using False totalAttestations_take_mono [of 1 "Suc 1" "q # rest"]
      by (simp add: totalAttestations_def)
    ultimately show ?thesis by (simp add: e)
  qed
qed

section \<open>Invariants of the loop\<close>

text \<open>
  First in, first out; and no lost wakeup: a parked loop with work has a signal or an armed timer,
  a parked loop that was stopped has a signal.  A batch in flight is
  never empty and its window timer is armed.
\<close>

definition bv_inv :: "bvsys \<Rightarrow> bool" where
  "bv_inv s \<longleftrightarrow> (let v = bs_v s in
     bs_submitted s = bs_verified s @ inflight v @ bv_queue v \<and>
     (bv_phase v = Selecting \<and> bv_queue v \<noteq> [] \<longrightarrow> bv_notify v \<or> bv_timerRunning v) \<and>
     (bv_phase v = Selecting \<and> bv_stopped v \<longrightarrow> bv_notify v) \<and>
     (bv_phase v = Exited \<longrightarrow> bv_stopped v) \<and> bv_phase v \<noteq> Verifying [] \<and>
     (inflight v \<noteq> [] \<longrightarrow> bv_timerRunning v))"

lemma wake_cases:
  assumes "bv_phase v = Selecting"
  obtains (again) "wake mi t v = v\<lparr>bv_notify := False\<rparr>" "bv_timerRunning v" "\<not> bv_stopped v"
    | (idle) "wake mi t v = v\<lparr>bv_notify := False, bv_timerRunning := bv_timerRunning (wake mi t v)\<rparr>"
        "bv_queue v = []" "\<not> bv_stopped v"
    | (leave) "wake mi t v = v\<lparr>bv_notify := False, bv_timerRunning := bv_timerRunning (wake mi t v),
                 bv_phase := Exited\<rparr>" "bv_queue v = []" "bv_stopped v"
    | (batch) n where "n = batchEnd (bv_queue v) mi" "bv_queue v \<noteq> []"
        "wake mi t v = v\<lparr>bv_queue := drop n (bv_queue v), bv_notify := False, bv_timerRunning := True,
           bv_phase := Verifying (take n (bv_queue v))\<rparr>"
proof (cases "(if t then False else bv_timerRunning v) \<and> \<not> bv_stopped v")
  case True
  then have "wake mi t v = v\<lparr>bv_notify := False\<rparr>" "bv_timerRunning v" "\<not> bv_stopped v"
    by (auto simp: wake_def Let_def split: if_splits)
  then show thesis by (rule again)
next
  case F: False
  show thesis
  proof (cases "bv_queue v = []")
    case True
    have "wake mi t v = (if bv_stopped v
        then v\<lparr>bv_notify := False, bv_timerRunning := bv_timerRunning (wake mi t v), bv_phase := Exited\<rparr>
        else v\<lparr>bv_notify := False, bv_timerRunning := bv_timerRunning (wake mi t v)\<rparr>)"
      using F True by (auto simp: wake_def Let_def)
    then show thesis using True idle leave by (cases "bv_stopped v") simp_all
  next
    case False
    then have "wake mi t v = v\<lparr>bv_queue := drop (batchEnd (bv_queue v) mi) (bv_queue v),
        bv_notify := False, bv_timerRunning := True,
        bv_phase := Verifying (take (batchEnd (bv_queue v) mi) (bv_queue v))\<rparr>"
      using F by (auto simp: wake_def Let_def)
    then show thesis by (rule batch [OF refl False])
  qed
qed

lemma internal_inv:
  assumes "bv_inv s" and "internal mi (bs_v s) v'"
  shows "bv_inv (s\<lparr>bs_v := v', bs_verified := bs_verified s @ inflight (bs_v s)\<rparr>)"
proof -
  have woken: "bv_inv (s\<lparr>bs_v := wake mi t (bs_v s), bs_verified := bs_verified s @ inflight (bs_v s)\<rparr>)"
    if sel: "bv_phase (bs_v s) = Selecting" for t
    using sel
  proof (cases rule: wake_cases [where mi = mi and t = t])
    case again
    then show ?thesis using assms(1) sel by (simp add: bv_inv_def inflight_def)
  next
    case idle
    show ?thesis using assms(1) sel idle(2,3) by (subst idle(1)) (simp add: bv_inv_def inflight_def)
  next
    case leave
    show ?thesis using assms(1) sel leave(2,3) by (subst leave(1)) (simp add: bv_inv_def inflight_def)
  next
    case (batch n)
    have "take n (bv_queue (bs_v s)) \<noteq> []"
      unfolding batch(1) by (rule node_cut.cut_nonempty [OF batch(2)])
    then show ?thesis using assms(1) sel batch(3) by (simp add: bv_inv_def inflight_def Let_def)
  qed
  show ?thesis
    using assms(2)
  proof cases
    case notified
    then show ?thesis using woken by simp
  next
    case fired
    then show ?thesis using woken by simp
  next
    case (slept batch)
    then show ?thesis using assms(1) by (auto simp: bv_inv_def inflight_def batch_done_def Let_def)
  qed
qed

lemma bvreach_inv: "bvreach mi s \<Longrightarrow> bv_inv s"
proof (induction rule: bvreach.induct)
  case start
  then show ?case by (simp add: bv_inv_def newBatchVerifier_def inflight_def)
next
  case (step s s')
  from step.hyps(2) show ?case
  proof cases
    case (submits q)
    then show ?thesis using step.IH by (auto simp: bv_inv_def submit_def inflight_def Let_def)
  next
    case stops
    then show ?thesis using step.IH by (auto simp: bv_inv_def stop_def inflight_def Let_def)
  next
    case (runs v')
    then show ?thesis using internal_inv [OF step.IH] by simp
  qed
qed

text \<open>The steps left until a stopped loop has exited.\<close>

definition left :: "batchVerifier \<Rightarrow> nat" where
  "left v = (case bv_phase v of Selecting \<Rightarrow> 2 * length (bv_queue v) + 1
             | Verifying batch \<Rightarrow> 2 * length (bv_queue v) + 2 | Exited \<Rightarrow> 0)"

lemma internal_left:
  assumes "internal mi v v'" and "bv_stopped v"
  shows "left v' < left v \<and> bv_stopped v' \<and> (bv_phase v' = Exited \<longrightarrow> bv_queue v' = [])"
proof -
  have woken: "left (wake mi t v) < left v \<and> bv_stopped (wake mi t v) \<and>
      (bv_phase (wake mi t v) = Exited \<longrightarrow> bv_queue (wake mi t v) = [])" if sel: "bv_phase v = Selecting" for t
    using sel
  proof (cases rule: wake_cases [where mi = mi and t = t])
    case again
    then show ?thesis using assms(2) by simp
  next
    case idle
    then show ?thesis using assms(2) by simp
  next
    case leave
    show ?thesis using sel leave(2,3) by (subst (1 2 3 4) leave(1)) (simp add: left_def)
  next
    case (batch n)
    have "length (drop n (bv_queue v)) < length (bv_queue v)"
      unfolding batch(1) by (rule node_cut.rest_shorter [OF batch(2)])
    then show ?thesis using sel assms(2) batch(3) by (simp add: left_def)
  qed
  show ?thesis
    using assms(1)
  proof cases
    case notified
    then show ?thesis using woken by simp
  next
    case fired
    then show ?thesis using woken by simp
  next
    case (slept batch)
    then show ?thesis using assms(2) by (simp add: left_def batch_done_def)
  qed
qed

lemma internal_enabled:
  "bv_inv s \<Longrightarrow> bv_phase (bs_v s) \<noteq> Exited \<Longrightarrow> bv_queue (bs_v s) \<noteq> [] \<or> bv_stopped (bs_v s) \<or> inflight (bs_v s) \<noteq> [] \<Longrightarrow>
     \<exists>v'. internal mi (bs_v s) v'"
  by (cases "bv_phase (bs_v s)") (auto simp: bv_inv_def Let_def inflight_def intro: internal.intros)

section \<open>Properties of the batched verifier\<close>

text \<open>
  A batch takes as many whole items as the cap allows.  The cut lies inside the queue and takes
  at least one item of a non-empty one; with a positive cap it takes either exactly one item or
  items within the cap, and it stops before the end only where one more item would pass the cap.
\<close>

theorem batchEnd_takes_most:
  assumes "queue \<noteq> []"
  shows "0 < batchEnd queue mi \<and> batchEnd queue mi \<le> length queue \<and>
    (mi \<le> 0 \<longrightarrow> batchEnd queue mi = length queue) \<and>
    (0 < mi \<longrightarrow> batchEnd queue mi = 1 \<or> totalAttestations (take (batchEnd queue mi) queue) \<le> mi) \<and>
    (0 < mi \<longrightarrow> batchEnd queue mi < length queue \<longrightarrow>
       mi < totalAttestations (take (Suc (batchEnd queue mi)) queue))"
proof -
  obtain q rest where "queue = q # rest" using assms by (cases queue) auto
  then show ?thesis
    using batchEnd_capped [of mi q rest] batchEnd_pos [OF assms] batchEnd_le [of queue mi]
    by (simp add: batchEnd_def)
qed

definition item :: "nat \<Rightarrow> queuedItem" where
  "item n = \<lparr>qi_item = \<lparr>vi_Slot = 0, vi_Topic = ''t'', vi_Attestations = n\<rparr>, qi_onVerified = Some n\<rparr>"

theorem batchEnd_takes_most_witness:
  "batchEnd [item 3, item 4, item 5] 8 = 2 \<and> 8 < totalAttestations (take 3 [item 3, item 4, item 5])"
  using batchEnd_takes_most [of "[item 3, item 4, item 5]" 8]
  by (simp add: batchEnd_def item_def totalAttestations_def)

text \<open>
  C36: how long a batch can block.  A capped batch sleeps at most the base delay plus the per-item
  cost of the cap or of its first item, whichever is larger.
\<close>

theorem batch_delay_bound:
  assumes "queue \<noteq> []" and "0 < mi" and "0 \<le> perItem"
  shows "fst (verifyBatch base perItem (take (batchEnd queue mi) queue))
           \<le> base + max mi (atts (hd queue)) * perItem"
proof -
  let ?b = "take (batchEnd queue mi) queue"
  obtain q rest where q: "queue = q # rest" using assms(1) by (cases queue) auto
  have "totalAttestations ?b \<le> max mi (atts q)"
    using batchEnd_capped [OF assms(2), of q rest] by (auto simp: q totalAttestations_def)
  then have "totalAttestations ?b * perItem \<le> max mi (atts q) * perItem"
    using assms(3) by (rule mult_right_mono)
  moreover have "?b \<noteq> []" by (rule node_cut.cut_nonempty [OF assms(1)])
  ultimately show ?thesis by (simp add: verifyBatch_def q)
qed

theorem batch_delay_bound_witness:
  "fst (verifyBatch 10 2 (take (batchEnd [item 3, item 4, item 5] 8) [item 3, item 4, item 5])) \<le> 26"
  using batch_delay_bound [of "[item 3, item 4, item 5]" 8 2 10] by (simp add: item_def)

text \<open>
  An item is never split, so one item can pass the cap: a batch that is a single item of \<open>n\<close>
  attestations sleeps for all of them, whatever the cap.
\<close>

theorem single_item_sleeps_whole:
  "fst (verifyBatch base perItem (take (batchEnd [q] mi) [q])) = base + atts q * perItem"
  by (simp add: batchEnd_def verifyBatch_def totalAttestations_def Let_def)

text \<open>
  C10: items are verified in the order they were submitted, each once.  In every reachable state
  what was submitted is what has been verified, then the batch in flight, then the queue.
\<close>

theorem verifier_fifo:
  assumes "bvreach mi s"
  shows "bs_submitted s = bs_verified s @ inflight (bs_v s) @ bv_queue (bs_v s)"
  using bvreach_inv [OF assms] by (simp add: bv_inv_def Let_def)

text \<open>A run that submits two items, cuts a batch and verifies it.\<close>

definition ex_run :: bvsys where
  "ex_run =
     (let v1 = submit (item 4) (submit (item 3) newBatchVerifier);
          v2 = wake 5 False v1;
          v3 = batch_done v2
      in \<lparr>bs_v = v3, bs_submitted = [item 3, item 4], bs_verified = [item 3]\<rparr>)"

lemma ex_run_reach: "bvreach 5 ex_run"
proof -
  let ?v1 = "submit (item 3) newBatchVerifier" and ?v2 = "submit (item 4) (submit (item 3) newBatchVerifier)"
  let ?v3 = "wake 5 False (submit (item 4) (submit (item 3) newBatchVerifier))"
  have "bvreach 5 \<lparr>bs_v = ?v1, bs_submitted = [item 3], bs_verified = []\<rparr>"
    using bvreach.step [OF bvreach.start bvstep.submits, of 5 "item 3"] by simp
  from bvreach.step [OF this bvstep.submits, of "item 4"]
  have "bvreach 5 \<lparr>bs_v = ?v2, bs_submitted = [item 3, item 4], bs_verified = []\<rparr>" by simp
  moreover have "internal 5 ?v2 ?v3"
    by (rule internal.notified) (simp_all add: submit_def newBatchVerifier_def)
  ultimately have r3: "bvreach 5 \<lparr>bs_v = ?v3, bs_submitted = [item 3, item 4], bs_verified = []\<rparr>"
    using bvreach.step [OF _ bvstep.runs] by (fastforce simp: inflight_def submit_def newBatchVerifier_def)
  have p: "bv_phase ?v3 = Verifying [item 3]"
    by (simp add: wake_def Let_def submit_def newBatchVerifier_def batchEnd_def item_def)
  from internal.slept [OF p] have "internal 5 ?v3 (batch_done ?v3)" .
  then have "bvreach 5 \<lparr>bs_v = batch_done ?v3, bs_submitted = [item 3, item 4], bs_verified = [item 3]\<rparr>"
    using bvreach.step [OF r3 bvstep.runs] p by (fastforce simp: inflight_def)
  then show ?thesis by (simp add: ex_run_def Let_def)
qed

theorem verifier_fifo_witness:
  "bs_submitted ex_run = [item 3, item 4] \<and> bs_verified ex_run @ inflight (bs_v ex_run) @ bv_queue (bs_v ex_run) = [item 3, item 4]"
  using verifier_fifo [OF ex_run_reach] by (simp add: ex_run_def Let_def)

text \<open>
  No submitted item waits for a signal that was lost.  In every reachable state in which the
  loop has not exited and something is queued or in flight, or the verifier was stopped, the loop
  can take a step.
\<close>

theorem verifier_never_stuck:
  assumes "bvreach mi s" and "bv_phase (bs_v s) \<noteq> Exited"
    and "bv_queue (bs_v s) \<noteq> [] \<or> inflight (bs_v s) \<noteq> [] \<or> bv_stopped (bs_v s)"
  shows "\<exists>v'. internal mi (bs_v s) v'"
  using internal_enabled [OF bvreach_inv [OF assms(1)] assms(2)] assms(3) by blast

theorem verifier_never_stuck_witness:
  "bv_queue (bs_v ex_run) = [item 4] \<and> (\<exists>v'. internal 5 (bs_v ex_run) v')"
proof -
  have q: "bv_queue (bs_v ex_run) = [item 4]" "bv_phase (bs_v ex_run) = Selecting"
    by (simp_all add: ex_run_def Let_def wake_def submit_def newBatchVerifier_def batchEnd_def item_def
        batch_done_def)
  then show ?thesis using verifier_never_stuck [OF ex_run_reach] by simp
qed

text \<open>
  C12: stopping drains.  From every reachable state of a stopped verifier, with nothing submitted
  any more, the loop's own steps end, whatever wakes it, and they end in the exited state with
  every submitted item verified.
\<close>

theorem stop_drains:
  assumes "bvreach mi s" and "bv_stopped (bs_v s)" and "bv_phase (bs_v s) \<noteq> Exited"
  shows "(\<exists>v dn. (internal mi)\<^sup>*\<^sup>* (bs_v s) v \<and> bv_phase v = Exited \<and> bv_queue v = [] \<and>
      bvreach mi (s\<lparr>bs_v := v, bs_verified := bs_verified s @ dn\<rparr>) \<and>
      bs_submitted s = bs_verified s @ dn) \<and>
    (\<forall>v v'. (internal mi)\<^sup>*\<^sup>* (bs_v s) v \<longrightarrow> internal mi v v' \<longrightarrow> left v' < left v)"
proof -
  have keep: "bv_stopped v" if "(internal mi)\<^sup>*\<^sup>* (bs_v s) v" for v
    using that by (induction rule: rtranclp_induct) (use assms(2) internal_left in auto)
  then have less: "\<forall>v v'. (internal mi)\<^sup>*\<^sup>* (bs_v s) v \<longrightarrow> internal mi v v' \<longrightarrow> left v' < left v"
    using internal_left by blast
  have "\<exists>v dn. (internal mi)\<^sup>*\<^sup>* (bs_v s) v \<and> bv_phase v = Exited \<and> bv_queue v = [] \<and>
      bvreach mi (s\<lparr>bs_v := v, bs_verified := bs_verified s @ dn\<rparr>)"
    using assms
  proof (induction "left (bs_v s)" arbitrary: s rule: less_induct)
    case less
    obtain v' where i: "internal mi (bs_v s) v'"
      using internal_enabled [OF bvreach_inv [OF less.prems(1)] less.prems(3)] less.prems(2) by blast
    note l = internal_left [OF i less.prems(2)]
    let ?s = "s\<lparr>bs_v := v', bs_verified := bs_verified s @ inflight (bs_v s)\<rparr>"
    have r: "bvreach mi ?s" by (rule bvreach.step [OF less.prems(1) bvstep.runs [OF i]])
    show ?case
    proof (cases "bv_phase v' = Exited")
      case True
      then show ?thesis using i l r by blast
    next
      case False
      obtain v dn where "(internal mi)\<^sup>*\<^sup>* v' v" "bv_phase v = Exited" "bv_queue v = []"
        "bvreach mi (?s\<lparr>bs_v := v, bs_verified := bs_verified ?s @ dn\<rparr>)"
        using less.hyps [of ?s] l r False by auto
      then show ?thesis
        using i by (intro exI [of _ v] exI [of _ "inflight (bs_v s) @ dn"]) (simp add: converse_rtranclp_into_rtranclp)
    qed
  qed
  then obtain v don where v: "(internal mi)\<^sup>*\<^sup>* (bs_v s) v" "bv_phase v = Exited" "bv_queue v = []"
    "bvreach mi (s\<lparr>bs_v := v, bs_verified := bs_verified s @ don\<rparr>)" by blast
  have "bs_submitted s = bs_verified s @ don"
    using bvreach_inv [OF v(4)] v(2,3) by (simp add: bv_inv_def inflight_def)
  then show ?thesis using v less by blast
qed

theorem stop_drains_witness:
  "\<exists>v dn. (internal 5)\<^sup>*\<^sup>* (stop (bs_v ex_run)) v \<and> bv_phase v = Exited \<and>
     [item 3, item 4] = bs_verified ex_run @ dn"
proof -
  let ?s = "ex_run\<lparr>bs_v := stop (bs_v ex_run)\<rparr>"
  have r: "bvreach 5 ?s" by (rule bvreach.step [OF ex_run_reach bvstep.stops])
  have "bv_phase (bs_v ?s) \<noteq> Exited" "bs_submitted ?s = [item 3, item 4]"
    by (simp_all add: ex_run_def Let_def wake_def submit_def newBatchVerifier_def batchEnd_def item_def
        batch_done_def stop_def)
  then show ?thesis using stop_drains [OF r] by (auto simp: stop_def)
qed

section \<open>The column verifier\<close>

record columnVerifier =
  cv_width :: nat
  cv_service :: dur

definition newColumnVerifier :: "int \<Rightarrow> dur \<Rightarrow> columnVerifier" where
  "newColumnVerifier p service = \<lparr>cv_width = nat (if p < 1 then 1 else p), cv_service = service\<rparr>"

text \<open>
  A burst of calls of \<open>verify\<close> at time 0 with a constant service time: a call takes a free slot at
  once, or waits for the earliest slot to be released.  \<open>busy\<close> holds the release times of the taken
  slots, earliest first; the result is the time each call returns.
\<close>

fun verify_burst :: "columnVerifier \<Rightarrow> instant list \<Rightarrow> nat \<Rightarrow> instant list" where
  "verify_burst cv busy 0 = []"
| "verify_burst cv busy (Suc c) =
     (if length busy < cv_width cv then cv_service cv # verify_burst cv (busy @ [cv_service cv]) c
      else (let t = hd busy + cv_service cv in t # verify_burst cv (tl busy @ [t]) c))"

definition finish :: "columnVerifier \<Rightarrow> nat \<Rightarrow> instant" where
  "finish cv i = int (i div cv_width cv + 1) * cv_service cv"

lemma verify_burst_from:
  assumes "0 < cv_width cv"
  shows "verify_burst cv (map (finish cv) [i - min i (cv_width cv)..<i]) c = map (finish cv) [i..<i + c]"
proof (induction c arbitrary: i)
  case 0
  then show ?case by simp
next
  case (Suc c)
  let ?P = "cv_width cv" and ?busy = "map (finish cv) [i - min i (cv_width cv)..<i]"
  have next_list: "[i..<i + Suc c] = i # [Suc i..<Suc i + c]" by (simp add: upt_conv_Cons)
  show ?case
  proof (cases "i < ?P")
    case True
    then have "?busy @ [cv_service cv] = map (finish cv) [Suc i - min (Suc i) ?P..<Suc i]"
      by (simp add: finish_def)
    then show ?thesis using Suc [of "Suc i"] True next_list by (simp add: finish_def)
  next
    case False
    have upt: "[i - ?P..<i] = (i - ?P) # [Suc i - ?P..<i]"
      using False assms by (simp add: upt_conv_Cons Suc_diff_le)
    have fin: "finish cv (i - ?P) + cv_service cv = finish cv i"
    proof -
      have "i div ?P = Suc ((i - ?P) div ?P)" using False assms by (simp add: le_div_geq)
      then show ?thesis by (simp add: finish_def algebra_simps)
    qed
    have busy: "?busy = finish cv (i - ?P) # map (finish cv) [Suc i - ?P..<i]"
      using False by (simp add: upt)
    have "\<not> length ?busy < ?P" using False by simp
    then have "verify_burst cv ?busy (Suc c) =
        finish cv i # verify_burst cv (map (finish cv) [Suc i - ?P..<i] @ [finish cv i]) c"
      unfolding busy verify_burst.simps(2) by (simp only: if_False list.sel Let_def fin)
    moreover have "map (finish cv) [Suc i - ?P..<i] @ [finish cv i] =
        map (finish cv) [Suc i - min (Suc i) ?P..<Suc i]"
      using False assms by (simp add: min_def)
    ultimately show ?thesis unfolding next_list by (simp only: Suc [of "Suc i"] list.map)
  qed
qed

text \<open>
  A burst of columns clears in waves of P.  With a verifier of requested width \<open>p\<close> (at least one
  slot) the \<open>i\<close>-th of a burst of \<open>c\<close> columns is verified after \<open>i div P + 1\<close> service times, so the
  last one after the ceiling of \<open>c / P\<close>.
\<close>

theorem column_burst_waves:
  assumes "i < c"
  shows "verify_burst (newColumnVerifier p service) [] c ! i =
    int (i div nat (max 1 p) + 1) * service"
proof -
  let ?cv = "newColumnVerifier p service"
  have w: "0 < cv_width ?cv" and p: "cv_width ?cv = nat (max 1 p)"
    by (auto simp: newColumnVerifier_def max_def)
  have "verify_burst ?cv [] c = map (finish ?cv) [0..<c]"
    using verify_burst_from [OF w, of 0 c] by simp
  then show ?thesis using assms p by (simp add: finish_def newColumnVerifier_def)
qed

theorem column_burst_waves_witness:
  "verify_burst (newColumnVerifier 4 3) [] 128 ! 127 = 96 \<and> verify_burst (newColumnVerifier 0 3) [] 2 ! 1 = 6"
  using column_burst_waves [of 127 128 4 3] column_burst_waves [of 1 2 0 3] by simp

end
