(* ===== verification/Membership.thy ===== *)
theory Membership
  imports Registry Verifier
begin

text \<open>
  Topic membership of a node (src/node/node.go): joining, subscribing and unsubscribing topics, the
  verify hook of each topic, the class queues behind the hooks, and the connections it dials.

  The pubsub and libp2p libraries are not under src/.  Whether one of their calls succeeds is an
  argument of the operation that makes it; what they were told is kept in the state (\<open>ps_hooks\<close>, the
  validators registered; \<open>ps_joins\<close>, the topics joined, with the partial-messages option).  A
  subscription is its number, its receive goroutine an entry of \<open>n_loops\<close> that \<open>Cancel\<close> removes.
  A critical section under the node's mutex is one step; \<open>Subscribe\<close> has two, with the library call
  between them outside the lock.
\<close>

section \<open>State\<close>

record node_cfg =
  nc_Num :: int
  nc_VerifyDelay :: dur
  nc_D :: int
  nc_Dlo :: int
  nc_Dhi :: int
  nc_AttestVerifyDelay :: "dur option"
  nc_AttestPerItem :: dur
  nc_AttestBatchWindow :: dur
  nc_AttestBatchMax :: int
  nc_ColVerifyService :: "dur option"
  nc_ColVerifyParallelism :: int
  nc_hasPartial :: bool

datatype verify_hook = ColumnHook | FixedHook | BatchHook verifyClass

record class_queue =
  cq_base :: dur
  cq_perItem :: dur
  cq_window :: dur
  cq_max :: int
  cq_state :: batchVerifier

record node_state =
  n_topics :: "string \<rightharpoonup> bool"
  n_validated :: "string set"
  n_subs :: "string \<rightharpoonup> nat"
  n_verifiers :: "verifyClass \<rightharpoonup> class_queue"
  n_colVerifier :: columnVerifier
  n_loops :: "nat \<rightharpoonup> string"
  n_next :: nat
  ps_hooks :: "(string \<times> verify_hook) list"
  ps_joins :: "(string \<times> bool) list"

record pubsub_answers =
  register_ok :: "string \<Rightarrow> bool"
  join_ok :: "string \<Rightarrow> bool"
  subscribe_ok :: "string \<Rightarrow> bool"

datatype node_error =
    RegisterFailed string | JoinFailed string | SubscribeFailed string | NotJoined string

definition defaultBatchWindow :: dur where
  "defaultBatchWindow = 50000000"

section \<open>Class queues and hooks\<close>

definition new_class_queue :: "node_cfg \<Rightarrow> class_queue" where
  "new_class_queue cfg =
     \<lparr>cq_base = (case nc_AttestVerifyDelay cfg of None \<Rightarrow> nc_VerifyDelay cfg | Some d \<Rightarrow> d),
      cq_perItem = nc_AttestPerItem cfg,
      cq_window = (if nc_AttestBatchWindow cfg \<le> 0 then defaultBatchWindow else nc_AttestBatchWindow cfg),
      cq_max = nc_AttestBatchMax cfg, cq_state = newBatchVerifier\<rparr>"

definition batchVerifierFor :: "node_cfg \<Rightarrow> verifyClass \<Rightarrow> node_state \<Rightarrow> class_queue \<times> node_state" where
  "batchVerifierFor cfg c n =
     (case n_verifiers n c of
        Some v \<Rightarrow> (v, n)
      | None \<Rightarrow> (let v = new_class_queue cfg in (v, n\<lparr>n_verifiers := (n_verifiers n)(c \<mapsto> v)\<rparr>)))"

definition verifierFor :: "node_cfg \<Rightarrow> string \<Rightarrow> node_state \<Rightarrow> class_queue \<times> node_state" where
  "verifierFor cfg topic n = batchVerifierFor cfg (verifyClassFor topic) n"

text \<open>The hook of a topic, three-way by its registry class.\<close>

definition hook_of :: "verifyClass \<Rightarrow> verify_hook" where
  "hook_of c = (case c of vcColumn \<Rightarrow> ColumnHook | vcFixed \<Rightarrow> FixedHook | _ \<Rightarrow> BatchHook c)"

definition registerVerifyHook ::
  "pubsub_answers \<Rightarrow> node_cfg \<Rightarrow> string \<Rightarrow> node_state \<Rightarrow> node_error option \<times> node_state" where
  "registerVerifyHook a cfg topic n =
     (if topic \<in> n_validated n then (None, n)
      else (let hook = hook_of (verifyClassFor topic);
                n1 = (case hook of BatchHook c \<Rightarrow> snd (batchVerifierFor cfg c n) | _ \<Rightarrow> n)
            in if \<not> register_ok a topic then (Some (RegisterFailed topic), n1)
               else (None, n1\<lparr>n_validated := insert topic (n_validated n1),
                              ps_hooks := ps_hooks n1 @ [(topic, hook)]\<rparr>)))"

text \<open>What a hook costs a message, by the peer it came from; it always accepts.\<close>

datatype verify_work = ColumnSlot | Sleep dur | SubmitAndWait verifyClass verificationItem

definition hook_work :: "node_cfg \<Rightarrow> 'peer \<Rightarrow> verify_hook \<Rightarrow> 'peer \<Rightarrow> verify_work list" where
  "hook_work cfg self hook pid =
     (if pid = self then []
      else case hook of
        ColumnHook \<Rightarrow> [ColumnSlot]
      | FixedHook \<Rightarrow> [Sleep (nc_VerifyDelay cfg)]
      | BatchHook c \<Rightarrow> [SubmitAndWait c \<lparr>vi_Slot = 0, vi_Topic = [], vi_Attestations = 1\<rparr>])"

section \<open>Joining and subscribing\<close>

definition wants_partial :: "node_cfg \<Rightarrow> string \<Rightarrow> bool" where
  "wants_partial cfg topic \<longleftrightarrow> partialKindFor topic \<noteq> None \<and> nc_hasPartial cfg"

definition joinLocked ::
  "pubsub_answers \<Rightarrow> node_cfg \<Rightarrow> string \<Rightarrow> node_state \<Rightarrow> node_error option \<times> node_state" where
  "joinLocked a cfg topic n =
     (if n_topics n topic \<noteq> None then (None, n)
      else case (if wants_partial cfg topic then (None, n) else registerVerifyHook a cfg topic n) of
        (Some e, n1) \<Rightarrow> (Some e, n1)
      | (None, n1) \<Rightarrow>
          if \<not> join_ok a topic then (Some (JoinFailed topic), n1)
          else (None, n1\<lparr>n_topics := (n_topics n1)(topic \<mapsto> wants_partial cfg topic),
                         ps_joins := ps_joins n1 @ [(topic, wants_partial cfg topic)]\<rparr>))"

definition Join :: "pubsub_answers \<Rightarrow> node_cfg \<Rightarrow> string \<Rightarrow> node_state \<Rightarrow> node_error option \<times> node_state" where
  "Join a cfg topic n = joinLocked a cfg topic n"

text \<open>The first critical section of \<open>Subscribe\<close>; \<open>Proceed\<close> goes on to the library call.\<close>

datatype subscribe_outcome = Failed node_error | Already | Proceed

definition subscribe_lock ::
  "pubsub_answers \<Rightarrow> node_cfg \<Rightarrow> string \<Rightarrow> node_state \<Rightarrow> subscribe_outcome \<times> node_state" where
  "subscribe_lock a cfg topic n =
     (case joinLocked a cfg topic n of
        (Some e, n1) \<Rightarrow> (Failed e, n1)
      | (None, n1) \<Rightarrow> (if n_subs n1 topic \<noteq> None then (Already, n1) else (Proceed, n1)))"

text \<open>The library call and, if it succeeds, the second section and the receive goroutine.\<close>

definition subscribe_finish ::
  "pubsub_answers \<Rightarrow> string \<Rightarrow> node_state \<Rightarrow> node_error option \<times> node_state" where
  "subscribe_finish a topic n =
     (if \<not> subscribe_ok a topic then (Some (SubscribeFailed topic), n)
      else (None, n\<lparr>n_subs := (n_subs n)(topic \<mapsto> n_next n), n_loops := (n_loops n)(n_next n \<mapsto> topic),
                     n_next := n_next n + 1\<rparr>))"

definition Subscribe :: "pubsub_answers \<Rightarrow> node_cfg \<Rightarrow> string \<Rightarrow> node_state \<Rightarrow> node_error option \<times> node_state" where
  "Subscribe a cfg topic n =
     (case subscribe_lock a cfg topic n of
        (Failed e, n1) \<Rightarrow> (Some e, n1)
      | (Already, n1) \<Rightarrow> (None, n1)
      | (Proceed, n1) \<Rightarrow> subscribe_finish a topic n1)"

definition Unsubscribe :: "string \<Rightarrow> node_state \<Rightarrow> node_state" where
  "Unsubscribe topic n =
     (case n_subs n topic of
        None \<Rightarrow> n
      | Some i \<Rightarrow> n\<lparr>n_subs := (n_subs n)(topic := None), n_loops := (n_loops n)(i := None)\<rparr>)"

definition node_Publish :: "string \<Rightarrow> node_state \<Rightarrow> node_error option" where
  "node_Publish topic n = (if n_topics n topic = None then Some (NotJoined topic) else None)"

section \<open>Bring-up and shutdown\<close>

definition empty_node :: "node_cfg \<Rightarrow> node_state" where
  "empty_node cfg =
     \<lparr>n_topics = Map.empty, n_validated = {}, n_subs = Map.empty, n_verifiers = Map.empty,
      n_colVerifier = newColumnVerifier (nc_ColVerifyParallelism cfg)
        (case nc_ColVerifyService cfg of None \<Rightarrow> 0 | Some d \<Rightarrow> d),
      n_loops = Map.empty, n_next = 0, ps_hooks = [], ps_joins = []\<rparr>"

fun subscribe_all ::
  "pubsub_answers \<Rightarrow> node_cfg \<Rightarrow> string list \<Rightarrow> node_state \<Rightarrow> node_error option \<times> node_state" where
  "subscribe_all a cfg [] n = (None, n)"
| "subscribe_all a cfg (t # ts) n =
     (case Subscribe a cfg t n of
        (Some e, n1) \<Rightarrow> (Some e, n1)
      | (None, n1) \<Rightarrow> subscribe_all a cfg ts n1)"

definition JoinTopics :: "pubsub_answers \<Rightarrow> node_cfg \<Rightarrow> node_error option \<times> node_state" where
  "JoinTopics a cfg =
     subscribe_all a cfg [BlockTopic, ConsensusBlockTopic, ExecutionPayloadTopic] (empty_node cfg)"

text \<open>\<open>Close\<close>: every receive loop has returned, every subscription is cancelled, every queue stops.\<close>

definition Close :: "node_state \<Rightarrow> node_state" where
  "Close n =
     n\<lparr>n_loops := Map.empty,
       n_verifiers := (\<lambda>c. map_option (\<lambda>q. q\<lparr>cq_state := stop (cq_state q)\<rparr>) (n_verifiers n c))\<rparr>"

section \<open>Connections\<close>

text \<open>\<open>Dial\<close>: the peers it connects to; one whose id or connection fails is logged and skipped.\<close>

definition Dial_peers :: "(int \<Rightarrow> bool) \<Rightarrow> (int \<Rightarrow> bool) \<Rightarrow> int list \<Rightarrow> int list" where
  "Dial_peers has_id connects peerNums = filter (\<lambda>p. has_id p \<and> connects p) peerNums"

definition ConnectToPeers :: "(int \<Rightarrow> bool) \<Rightarrow> (int \<Rightarrow> bool) \<Rightarrow> node_cfg \<Rightarrow> int list \<Rightarrow> int list" where
  "ConnectToPeers has_id connects cfg peerNums =
     Dial_peers has_id connects (filter (\<lambda>p. p > nc_Num cfg) peerNums)"

definition Disconnect_peers :: "(int \<Rightarrow> bool) \<Rightarrow> int list \<Rightarrow> int set \<Rightarrow> int set" where
  "Disconnect_peers has_id peerNums conns = conns - set (filter has_id peerNums)"

end
