(* ===== verification/MembershipProps.thy ===== *)
theory MembershipProps
  imports Membership
begin

text \<open>
  What topic membership guarantees: the invariant of the node's tables under every interleaving of
  its calls, the exactness of the sequential operations, the subscription a concurrent pair of
  \<open>Subscribe\<close> calls leaks, and the shutdown.
\<close>

section \<open>Hooks and classes\<close>

definition batch_class :: "verifyClass \<Rightarrow> bool" where
  "batch_class c \<longleftrightarrow> c \<notin> {vcUnset, vcFixed, vcColumn}"

lemma registry_classes:
  "\<forall>d \<in> set registry. d_class d \<noteq> vcUnset \<and> (d_partial d \<longrightarrow> batch_class (d_class d))"
  by (simp add: registry_def entry_defs batch_class_def)

lemma verifyClassFor_set [simp]: "verifyClassFor topic \<noteq> vcUnset"
  using registry_classes descriptorFor_registry [of topic]
  by (auto simp: verifyClassFor_def split: option.split)

lemma batch_class_partial: "partialKindFor topic \<noteq> None \<Longrightarrow> batch_class (verifyClassFor topic)"
  using registry_classes descriptorFor_registry [of topic]
  by (auto simp: partialKindFor_def verifyClassFor_def split: option.splits if_splits)

lemma hook_of_Batch: "hook_of c = BatchHook c' \<longleftrightarrow> c = c' \<and> c \<noteq> vcFixed \<and> c \<noteq> vcColumn"
  by (cases c) (auto simp: hook_of_def)

section \<open>The invariant\<close>

definition hooks_ok :: "node_cfg \<Rightarrow> node_state \<Rightarrow> bool" where
  "hooks_ok cfg n \<longleftrightarrow>
     distinct (map fst (ps_hooks n)) \<and> set (map fst (ps_hooks n)) = n_validated n \<and>
     (\<forall>t h. (t, h) \<in> set (ps_hooks n) \<longrightarrow>
        h = hook_of (verifyClassFor t) \<and> \<not> wants_partial cfg t \<and>
        (\<forall>c. h = BatchHook c \<longrightarrow> n_verifiers n c \<noteq> None)) \<and>
     (\<forall>c. n_verifiers n c \<noteq> None \<longrightarrow> batch_class c)"

definition topics_ok :: "node_cfg \<Rightarrow> node_state \<Rightarrow> bool" where
  "topics_ok cfg n \<longleftrightarrow>
     distinct (map fst (ps_joins n)) \<and> n_topics n = map_of (ps_joins n) \<and>
     (\<forall>t p. (t, p) \<in> set (ps_joins n) \<longrightarrow> p = wants_partial cfg t \<and> (p \<or> t \<in> n_validated n))"

definition subs_ok :: "node_state \<Rightarrow> bool" where
  "subs_ok n \<longleftrightarrow>
     dom (n_subs n) \<subseteq> dom (n_topics n) \<and> ran (n_loops n) \<subseteq> dom (n_topics n) \<and>
     (\<forall>t i. n_subs n t = Some i \<longrightarrow> n_loops n i = Some t) \<and> (\<forall>i \<in> dom (n_loops n). i < n_next n)"

definition mem_inv :: "node_cfg \<Rightarrow> node_state \<Rightarrow> bool" where
  "mem_inv cfg n \<longleftrightarrow> hooks_ok cfg n \<and> topics_ok cfg n \<and> subs_ok n"

text \<open>No receive loop runs for a subscription the table does not hold.\<close>

definition no_leak :: "node_state \<Rightarrow> bool" where
  "no_leak n \<longleftrightarrow> (\<forall>t i. n_loops n i = Some t \<longrightarrow> n_subs n t = Some i)"

lemmas mem_defs = mem_inv_def hooks_ok_def topics_ok_def subs_ok_def

lemma mem_inv_empty: "mem_inv cfg (empty_node cfg)"
  by (simp add: mem_defs empty_node_def)

text \<open>What a queue lookup and a registration leave alone.\<close>

lemma batchVerifierFor_frame [simp]:
  "n_topics (snd (batchVerifierFor cfg c n)) = n_topics n"
  "n_validated (snd (batchVerifierFor cfg c n)) = n_validated n"
  "n_subs (snd (batchVerifierFor cfg c n)) = n_subs n"
  "n_loops (snd (batchVerifierFor cfg c n)) = n_loops n"
  "n_next (snd (batchVerifierFor cfg c n)) = n_next n"
  "ps_hooks (snd (batchVerifierFor cfg c n)) = ps_hooks n"
  "ps_joins (snd (batchVerifierFor cfg c n)) = ps_joins n"
  by (auto simp: batchVerifierFor_def Let_def split: option.split)

lemma batchVerifierFor_verifiers:
  "n_verifiers (snd (batchVerifierFor cfg c n)) =
     (n_verifiers n)(c \<mapsto> fst (batchVerifierFor cfg c n))"
  by (auto simp: batchVerifierFor_def Let_def split: option.split)

lemma mem_inv_batchVerifierFor: "mem_inv cfg n \<Longrightarrow> batch_class c \<Longrightarrow> mem_inv cfg (snd (batchVerifierFor cfg c n))"
  by (auto simp: mem_defs batchVerifierFor_verifiers)

lemma mem_inv_add_hook:
  assumes "mem_inv cfg n" and "\<not> wants_partial cfg topic" and "topic \<notin> n_validated n"
    and "\<And>c. hook_of (verifyClassFor topic) = BatchHook c \<Longrightarrow> n_verifiers n c \<noteq> None"
  shows "mem_inv cfg (n\<lparr>n_validated := insert topic (n_validated n),
                        ps_hooks := ps_hooks n @ [(topic, hook_of (verifyClassFor topic))]\<rparr>)" (is "mem_inv cfg ?m")
proof -
  have "hooks_ok cfg n" "topics_ok cfg n" "subs_ok n" using assms(1) by (simp_all add: mem_inv_def)
  then have "hooks_ok cfg ?m" using assms(2-4) by (auto simp: hooks_ok_def)
  moreover have "topics_ok cfg ?m"
    using \<open>topics_ok cfg n\<close> unfolding topics_ok_def by (simp del: map_of_eq_Some_iff) blast
  moreover have "subs_ok ?m" using \<open>subs_ok n\<close> by (simp add: subs_ok_def)
  ultimately show ?thesis by (simp add: mem_inv_def)
qed

lemma registerVerifyHook_inv:
  assumes "mem_inv cfg n" and "\<not> wants_partial cfg topic"
  shows "mem_inv cfg (snd (registerVerifyHook a cfg topic n))"
proof -
  let ?n1 = "case hook_of (verifyClassFor topic) of BatchHook c \<Rightarrow> snd (batchVerifierFor cfg c n) | _ \<Rightarrow> n"
  have b: "batch_class c" if "hook_of (verifyClassFor topic) = BatchHook c" for c
    using that verifyClassFor_set [of topic] by (auto simp: hook_of_Batch batch_class_def)
  then have n1: "mem_inv cfg ?n1"
    using assms(1) by (auto simp: mem_inv_batchVerifierFor split: verify_hook.split)
  have v: "n_verifiers ?n1 c \<noteq> None" if "hook_of (verifyClassFor topic) = BatchHook c" for c
    using that by (simp add: batchVerifierFor_verifiers)
  have same: "n_validated ?n1 = n_validated n" by (simp split: verify_hook.split)
  show ?thesis
  proof (cases "topic \<in> n_validated n \<or> \<not> register_ok a topic")
    case True
    then show ?thesis using assms(1) n1 by (auto simp: registerVerifyHook_def Let_def)
  next
    case False
    then have "snd (registerVerifyHook a cfg topic n) =
        ?n1\<lparr>n_validated := insert topic (n_validated ?n1),
            ps_hooks := ps_hooks ?n1 @ [(topic, hook_of (verifyClassFor topic))]\<rparr>"
      by (simp add: registerVerifyHook_def Let_def)
    then show ?thesis
      using mem_inv_add_hook [OF n1 assms(2)] v False same by simp
  qed
qed

lemma registerVerifyHook_frame [simp]:
  "n_topics (snd (registerVerifyHook a cfg topic n)) = n_topics n"
  "n_subs (snd (registerVerifyHook a cfg topic n)) = n_subs n"
  "n_loops (snd (registerVerifyHook a cfg topic n)) = n_loops n"
  "n_next (snd (registerVerifyHook a cfg topic n)) = n_next n"
  "ps_joins (snd (registerVerifyHook a cfg topic n)) = ps_joins n"
  by (auto simp: registerVerifyHook_def Let_def split: verify_hook.split)

lemma registerVerifyHook_validated:
  "fst (registerVerifyHook a cfg topic n) = None \<Longrightarrow> topic \<in> n_validated (snd (registerVerifyHook a cfg topic n))"
  by (auto simp: registerVerifyHook_def Let_def split: if_splits)

section \<open>Joining\<close>

lemma joinLocked_cases:
  obtains (known) "n_topics n topic \<noteq> None" "joinLocked a cfg topic n = (None, n)"
  | (refused) e n1 where "n_topics n topic = None" "joinLocked a cfg topic n = (Some e, n1)"
      "n1 = n \<or> n1 = snd (registerVerifyHook a cfg topic n) \<and> \<not> wants_partial cfg topic"
  | (joined) n1 where "n_topics n topic = None" "join_ok a topic"
      "n1 = n \<and> wants_partial cfg topic \<or>
       n1 = snd (registerVerifyHook a cfg topic n) \<and> \<not> wants_partial cfg topic \<and> topic \<in> n_validated n1"
      "joinLocked a cfg topic n =
         (None, n1\<lparr>n_topics := (n_topics n1)(topic \<mapsto> wants_partial cfg topic),
                   ps_joins := ps_joins n1 @ [(topic, wants_partial cfg topic)]\<rparr>)"
proof (cases "n_topics n topic = None")
  case False
  then show ?thesis by (intro known) (simp_all add: joinLocked_def)
next
  case True
  obtain e n1 where r: "(if wants_partial cfg topic then (None, n) else registerVerifyHook a cfg topic n) = (e, n1)"
    by fastforce
  then have n1: "n1 = n \<and> wants_partial cfg topic \<and> e = None \<or>
      n1 = snd (registerVerifyHook a cfg topic n) \<and> \<not> wants_partial cfg topic \<and>
      e = fst (registerVerifyHook a cfg topic n)"
    by (auto split: if_splits)
  show ?thesis
  proof (cases "e = None \<and> join_ok a topic")
    case False
    then obtain e' where "joinLocked a cfg topic n = (Some e', n1)"
      using True r by (cases e) (auto simp: joinLocked_def)
    then show ?thesis using refused True n1 by blast
  next
    case ok: True
    then have "joinLocked a cfg topic n =
         (None, n1\<lparr>n_topics := (n_topics n1)(topic \<mapsto> wants_partial cfg topic),
                   ps_joins := ps_joins n1 @ [(topic, wants_partial cfg topic)]\<rparr>)"
      using True r by (simp add: joinLocked_def)
    moreover have "n1 = n \<and> wants_partial cfg topic \<or>
       n1 = snd (registerVerifyHook a cfg topic n) \<and> \<not> wants_partial cfg topic \<and> topic \<in> n_validated n1"
      using n1 ok registerVerifyHook_validated [of a cfg topic n] by auto
    ultimately show ?thesis using joined True ok by blast
  qed
qed

lemma joinLocked_frame [simp]:
  "n_subs (snd (joinLocked a cfg topic n)) = n_subs n"
  "n_loops (snd (joinLocked a cfg topic n)) = n_loops n"
  "n_next (snd (joinLocked a cfg topic n)) = n_next n"
  by (rule joinLocked_cases [of n topic a cfg]; auto)+

lemma joinLocked_same:
  "joinLocked a cfg topic n = (e, n1) \<Longrightarrow> n_subs n1 = n_subs n \<and> n_loops n1 = n_loops n \<and> n_next n1 = n_next n"
  using joinLocked_frame [of a cfg topic n] by simp

lemma joinLocked_topics: "n_topics n t = Some p \<Longrightarrow> n_topics (snd (joinLocked a cfg topic n)) t = Some p"
  by (rule joinLocked_cases [of n topic a cfg]) auto

lemma joinLocked_joined:
  "fst (joinLocked a cfg topic n) = None \<Longrightarrow> n_topics (snd (joinLocked a cfg topic n)) topic \<noteq> None"
  by (rule joinLocked_cases [of n topic a cfg]) auto

lemma mem_inv_add_topic:
  assumes "mem_inv cfg n1" and "n_topics n1 topic = None" and "wants_partial cfg topic \<or> topic \<in> n_validated n1"
  shows "mem_inv cfg (n1\<lparr>n_topics := (n_topics n1)(topic \<mapsto> wants_partial cfg topic),
                         ps_joins := ps_joins n1 @ [(topic, wants_partial cfg topic)]\<rparr>)" (is "mem_inv cfg ?m")
proof -
  have none: "map_of (ps_joins n1) topic = None" using assms(1,2) by (simp add: mem_defs)
  then have "topic \<notin> fst ` set (ps_joins n1)" by (simp add: map_of_eq_None_iff)
  moreover from none have "(map_of (ps_joins n1))(topic \<mapsto> b) = map_of (ps_joins n1 @ [(topic, b)])" for b
    by (simp add: fun_eq_iff map_add_def split: option.split)
  moreover have "hooks_ok cfg n1" "topics_ok cfg n1" "subs_ok n1" using assms(1) by (simp_all add: mem_inv_def)
  ultimately have "topics_ok cfg ?m"
    using assms(3) unfolding topics_ok_def by (simp del: map_of_append map_of_eq_Some_iff)
  moreover have "dom (n_topics n1) \<subseteq> dom (n_topics ?m)" by auto
  then have "subs_ok ?m" using \<open>subs_ok n1\<close> unfolding subs_ok_def by auto
  moreover have "hooks_ok cfg ?m" using \<open>hooks_ok cfg n1\<close> by (simp add: hooks_ok_def)
  ultimately show ?thesis by (simp add: mem_inv_def)
qed

lemma joinLocked_inv [inv_intros]: "mem_inv cfg n \<Longrightarrow> mem_inv cfg (snd (joinLocked a cfg topic n))"
  by (rule joinLocked_cases [of n topic a cfg])
    (auto simp: registerVerifyHook_inv intro: mem_inv_add_topic)

section \<open>Subscribing\<close>

lemma mem_inv_subscribe_finish:
  assumes "mem_inv cfg n" and "n_topics n topic \<noteq> None"
  shows "mem_inv cfg (snd (subscribe_finish a topic n))"
proof -
  have h: "hooks_ok cfg n" "topics_ok cfg n" "subs_ok n" using assms(1) by (simp_all add: mem_inv_def)
  have "n_loops n (n_next n) = None" using h(3) by (fastforce simp: subs_ok_def)
  then have "n_loops n i = Some t \<Longrightarrow> i \<noteq> n_next n" for i t by auto
  with h show ?thesis using assms(2)
    unfolding subscribe_finish_def
    by (auto simp: mem_inv_def hooks_ok_def topics_ok_def subs_ok_def less_Suc_eq ran_def simp del: map_of_eq_Some_iff)
qed

lemma mem_inv_Unsubscribe:
  assumes "mem_inv cfg n" shows "mem_inv cfg (Unsubscribe topic n)"
proof (cases "n_subs n topic")
  case None
  then show ?thesis using assms by (simp add: Unsubscribe_def)
next
  case (Some i)
  have h: "hooks_ok cfg n" "topics_ok cfg n" "subs_ok n" using assms by (simp_all add: mem_inv_def)
  then have i: "n_loops n i = Some topic" using Some by (simp add: subs_ok_def)
  let ?m = "Unsubscribe topic n"
  have "n_subs n t \<noteq> Some i" if "t \<noteq> topic" for t
    using that h(3) i unfolding subs_ok_def by (metis option.inject)
  then have "subs_ok ?m"
    using h(3) Some i by (auto simp: Unsubscribe_def subs_ok_def ran_def)
  moreover have "hooks_ok cfg ?m" "topics_ok cfg ?m"
    using h(1,2) by (simp_all add: Unsubscribe_def hooks_ok_def topics_ok_def Some)
  ultimately show ?thesis by (simp add: mem_inv_def)
qed

lemma subscribe_lock_snd: "snd (subscribe_lock a cfg topic n) = snd (joinLocked a cfg topic n)"
  by (auto simp: subscribe_lock_def split: prod.split option.split)

lemma subscribe_lock_proceed:
  "fst (subscribe_lock a cfg topic n) = Proceed \<longleftrightarrow>
     fst (joinLocked a cfg topic n) = None \<and> n_subs n topic = None"
  by (auto simp: subscribe_lock_def dest: joinLocked_same split: prod.split option.split)

lemma subscribe_finish_frame [simp]:
  "n_topics (snd (subscribe_finish a topic n)) = n_topics n"
  by (simp add: subscribe_finish_def)

text \<open>The sequential call, in one case distinction.\<close>

lemma Subscribe_eq:
  "Subscribe a cfg topic n =
     (case joinLocked a cfg topic n of
        (Some e, n1) \<Rightarrow> (Some e, n1)
      | (None, n1) \<Rightarrow> if n_subs n topic \<noteq> None then (None, n1) else subscribe_finish a topic n1)"
  by (auto dest: joinLocked_same simp: Subscribe_def subscribe_lock_def split: prod.splits option.splits)

lemma Subscribe_inv: "mem_inv cfg n \<Longrightarrow> mem_inv cfg (snd (Subscribe a cfg topic n))"
  using joinLocked_inv [of cfg n a topic] joinLocked_joined [of a cfg topic n]
    mem_inv_subscribe_finish [of cfg "snd (joinLocked a cfg topic n)" topic a]
  by (auto simp: Subscribe_eq split: prod.split option.split)

lemma no_leak_joinLocked: "no_leak n \<Longrightarrow> no_leak (snd (joinLocked a cfg topic n))"
  by (simp add: no_leak_def)

lemma no_leak_Subscribe:
  assumes "mem_inv cfg n" and "no_leak n" shows "no_leak (snd (Subscribe a cfg topic n))"
proof -
  obtain e n1 where j: "joinLocked a cfg topic n = (e, n1)" by fastforce
  have fr: "n_subs n1 = n_subs n" "n_loops n1 = n_loops n" using joinLocked_same [OF j] by simp_all
  show ?thesis
    using assms(2) fr
    by (auto simp: Subscribe_eq j no_leak_def subscribe_finish_def split: option.split)
qed

lemma no_leak_Unsubscribe:
  assumes "mem_inv cfg n" and "no_leak n" shows "no_leak (Unsubscribe topic n)"
  using assms by (auto simp: Unsubscribe_def no_leak_def split: option.split)

section \<open>Calls in any interleaving\<close>

text \<open>The calls of a node between two critical sections; \<open>ms_pending\<close> holds the subscribes in flight.\<close>

record mem_sys =
  ms_node :: node_state
  ms_pending :: "string list"

inductive mem_step :: "node_cfg \<Rightarrow> mem_sys \<Rightarrow> mem_sys \<Rightarrow> bool" for cfg where
  join: "mem_step cfg s (s\<lparr>ms_node := snd (Join a cfg t (ms_node s))\<rparr>)"
| sub_begin: "subscribe_lock a cfg t (ms_node s) = (out, n) \<Longrightarrow>
    mem_step cfg s (s\<lparr>ms_node := n, ms_pending := ms_pending s @ (if out = Proceed then [t] else [])\<rparr>)"
| sub_end: "ms_pending s = xs @ t # ys \<Longrightarrow>
    mem_step cfg s (s\<lparr>ms_node := snd (subscribe_finish a t (ms_node s)), ms_pending := xs @ ys\<rparr>)"
| unsub: "mem_step cfg s (s\<lparr>ms_node := Unsubscribe t (ms_node s)\<rparr>)"
| queue: "partialKindFor t \<noteq> None \<Longrightarrow> mem_step cfg s (s\<lparr>ms_node := snd (verifierFor cfg t (ms_node s))\<rparr>)"

definition mem_start :: "node_cfg \<Rightarrow> mem_sys" where
  "mem_start cfg = \<lparr>ms_node = empty_node cfg, ms_pending = []\<rparr>"

definition mem_reachable :: "node_cfg \<Rightarrow> mem_sys \<Rightarrow> bool" where
  "mem_reachable cfg = (mem_step cfg)\<^sup>*\<^sup>* (mem_start cfg)"

definition sys_inv :: "node_cfg \<Rightarrow> mem_sys \<Rightarrow> bool" where
  "sys_inv cfg s \<longleftrightarrow> mem_inv cfg (ms_node s) \<and> set (ms_pending s) \<subseteq> dom (n_topics (ms_node s))"

lemma joinLocked_dom: "dom (n_topics n) \<subseteq> dom (n_topics (snd (joinLocked a cfg t n)))"
  using joinLocked_topics by fastforce

lemma mem_step_inv: "mem_step cfg s s' \<Longrightarrow> sys_inv cfg s \<Longrightarrow> sys_inv cfg s'"
proof (induction rule: mem_step.induct)
  case (join s a t)
  then show ?case using joinLocked_inv joinLocked_dom by (fastforce simp: sys_inv_def Join_def)
next
  case (sub_begin a t s out n)
  have n: "n = snd (joinLocked a cfg t (ms_node s))" using subscribe_lock_snd [of a cfg t "ms_node s"] sub_begin(1) by simp
  moreover have "n_topics n t \<noteq> None" if "out = Proceed"
    using subscribe_lock_proceed [of a cfg t "ms_node s"] sub_begin(1) that joinLocked_joined [of a cfg t "ms_node s"] n by simp
  moreover have "set (ms_pending s) \<subseteq> dom (n_topics n)"
    using sub_begin(2) joinLocked_dom [of "ms_node s" a cfg t] n unfolding sys_inv_def by blast
  ultimately show ?case
    using sub_begin(2) joinLocked_inv [of cfg "ms_node s" a t] by (auto simp: sys_inv_def)
next
  case (sub_end s xs t ys a)
  then have "mem_inv cfg (ms_node s)" "n_topics (ms_node s) t \<noteq> None" by (auto simp: sys_inv_def)
  from mem_inv_subscribe_finish [OF this, of a] sub_end show ?case by (simp add: sys_inv_def)
next
  case (unsub s t)
  then show ?case
    using mem_inv_Unsubscribe by (auto simp: sys_inv_def Unsubscribe_def split: option.split)
next
  case (queue t s)
  then show ?case
    using mem_inv_batchVerifierFor [OF _ batch_class_partial] by (simp add: sys_inv_def verifierFor_def)
qed

lemma mem_reachable_inv: "mem_reachable cfg s \<Longrightarrow> sys_inv cfg s"
  unfolding mem_reachable_def
proof (induction rule: rtranclp_induct)
  case base
  then show ?case by (simp add: sys_inv_def mem_start_def mem_inv_empty)
next
  case (step y z)
  then show ?case by (blast intro: mem_step_inv)
qed

text \<open>
  C18: however its calls interleave and whichever library calls fail, a node's membership tables stay
  consistent: each topic is joined at most once, with partial messages exactly if it is of a partial
  kind under the partial transport; otherwise it has exactly one verify hook, the one of its registry
  class, whose queue exists; and a held subscription is of a joined topic and has a receive loop.
\<close>

theorem membership_consistent:
  assumes "mem_reachable cfg s" and "n_topics (ms_node s) t = Some p"
  shows "p = wants_partial cfg t \<and> length (filter (\<lambda>j. fst j = t) (ps_joins (ms_node s))) = 1 \<and>
    filter (\<lambda>h. fst h = t) (ps_hooks (ms_node s)) =
      (if p then [] else [(t, hook_of (verifyClassFor t))]) \<and>
    (\<not> p \<and> batch_class (verifyClassFor t) \<longrightarrow> n_verifiers (ms_node s) (verifyClassFor t) \<noteq> None) \<and>
    (\<forall>u i. n_subs (ms_node s) u = Some i \<longrightarrow> n_topics (ms_node s) u \<noteq> None \<and> n_loops (ms_node s) i = Some u)"
proof -
  let ?n = "ms_node s"
  have inv: "hooks_ok cfg ?n" "topics_ok cfg ?n" "subs_ok ?n"
    using mem_reachable_inv [OF assms(1)] by (simp_all add: sys_inv_def mem_inv_def)
  have once: "filter (\<lambda>x. fst x = t) xs = [(t, y)]" if "distinct (map fst xs)" "(t, y) \<in> set xs"
    for xs :: "(string \<times> 'b) list" and y
    using that by (induction xs) (auto simp: filter_empty_conv image_iff)
  have in_joins: "(t, p) \<in> set (ps_joins ?n)" using inv(2) assms(2) by (auto simp: topics_ok_def)
  then have p: "p = wants_partial cfg t" "p \<or> t \<in> n_validated ?n" using inv(2) by (auto simp: topics_ok_def)
  have fil: "filter (\<lambda>h. fst h = t) (ps_hooks ?n) = (if p then [] else [(t, hook_of (verifyClassFor t))])"
  proof (cases p)
    case True
    then show ?thesis using inv(1) p(1) by (auto simp: hooks_ok_def filter_empty_conv)
  next
    case False
    then obtain h where "(t, h) \<in> set (ps_hooks ?n)" using p(2) inv(1) by (fastforce simp: hooks_ok_def)
    then show ?thesis using once inv(1) False by (fastforce simp: hooks_ok_def)
  qed
  moreover have "n_verifiers ?n (verifyClassFor t) \<noteq> None" if "\<not> p" "batch_class (verifyClassFor t)"
  proof -
    have "(t, hook_of (verifyClassFor t)) \<in> set (filter (\<lambda>h. fst h = t) (ps_hooks ?n))"
      unfolding fil using that(1) by simp
    then have "(t, hook_of (verifyClassFor t)) \<in> set (ps_hooks ?n)" by simp
    moreover have "hook_of (verifyClassFor t) = BatchHook (verifyClassFor t)"
      using that(2) by (simp add: hook_of_Batch batch_class_def)
    ultimately show ?thesis using inv(1) by (auto simp: hooks_ok_def)
  qed
  moreover have "length (filter (\<lambda>j. fst j = t) (ps_joins ?n)) = 1"
    using once [OF _ in_joins] inv(2) by (simp add: topics_ok_def)
  ultimately show ?thesis using p(1) inv(3) by (auto simp: subs_ok_def)
qed

definition all_ok :: pubsub_answers where
  "all_ok = \<lparr>register_ok = \<lambda>_. True, join_ok = \<lambda>_. True, subscribe_ok = \<lambda>_. True\<rparr>"

definition ex_node_cfg :: node_cfg where
  "ex_node_cfg = \<lparr>nc_Num = 3, nc_VerifyDelay = 10, nc_D = 8, nc_Dlo = 6, nc_Dhi = 12,
     nc_AttestVerifyDelay = None, nc_AttestPerItem = 1, nc_AttestBatchWindow = 0, nc_AttestBatchMax = 300,
     nc_ColVerifyService = None, nc_ColVerifyParallelism = 4, nc_hasPartial = True\<rparr>"

lemma ex_join_reachable: "mem_reachable cfg ((mem_start cfg)\<lparr>ms_node := snd (Join all_ok cfg t (empty_node cfg))\<rparr>)"
  using mem_step.join [of cfg "mem_start cfg" all_ok t]
  by (auto simp: mem_reachable_def mem_start_def)

theorem membership_consistent_witness:
  "filter (\<lambda>h. fst h = AggregateTopic) (ps_hooks (snd (Join all_ok ex_node_cfg AggregateTopic (empty_node ex_node_cfg)))) =
     [(AggregateTopic, BatchHook vcConsensus)]"
proof -
  have j: "n_topics (snd (Join all_ok ex_node_cfg AggregateTopic (empty_node ex_node_cfg))) AggregateTopic = Some False"
    by code_simp
  have h: "hook_of (verifyClassFor AggregateTopic) = BatchHook vcConsensus" by code_simp
  show ?thesis
    using membership_consistent [OF ex_join_reachable [of ex_node_cfg AggregateTopic], of AggregateTopic False] j h
    by simp
qed

section \<open>One call after the other\<close>

datatype node_call = CJoin string | CSubscribe string | CUnsubscribe string

fun run_call :: "node_cfg \<Rightarrow> pubsub_answers \<times> node_call \<Rightarrow> node_state \<Rightarrow> node_state" where
  "run_call cfg (a, CJoin t) n = snd (Join a cfg t n)"
| "run_call cfg (a, CSubscribe t) n = snd (Subscribe a cfg t n)"
| "run_call cfg (a, CUnsubscribe t) n = Unsubscribe t n"

lemma run_call_inv:
  assumes "mem_inv cfg n \<and> no_leak n" shows "mem_inv cfg (run_call cfg c n) \<and> no_leak (run_call cfg c n)"
  using assms
  by (cases "(cfg, c, n)" rule: run_call.cases)
    (auto simp: Join_def joinLocked_inv no_leak_joinLocked Subscribe_inv no_leak_Subscribe
      mem_inv_Unsubscribe no_leak_Unsubscribe)

lemma run_calls_inv: "mem_inv cfg (fold (run_call cfg) calls (empty_node cfg)) \<and> no_leak (fold (run_call cfg) calls (empty_node cfg))"
  by (rule fold_invariant_set [where I = "\<lambda>n. mem_inv cfg n \<and> no_leak n"])
    (simp_all add: mem_inv_empty run_call_inv, simp add: no_leak_def empty_node_def)

text \<open>
  One call after the other, a node has exactly one receive loop per subscribed topic: every loop
  is the one of the subscription the table holds, every held subscription has its loop, and
  subscribing a subscribed topic again changes nothing, whatever library calls failed before.
\<close>

theorem one_loop_per_subscription:
  "let n = fold (run_call cfg) calls (empty_node cfg)
   in (n_loops n i = Some t \<longleftrightarrow> n_subs n t = Some i) \<and>
      (n_subs n t = None \<or> Subscribe a cfg t n = (None, n))"
proof -
  define n where "n = fold (run_call cfg) calls (empty_node cfg)"
  have inv: "mem_inv cfg n" "no_leak n" using run_calls_inv by (simp_all add: n_def)
  then have "joinLocked a cfg t n = (None, n)" if "n_subs n t \<noteq> None"
    using that by (auto simp: mem_inv_def subs_ok_def joinLocked_def)
  then have "n_subs n t = None \<or> Subscribe a cfg t n = (None, n)"
    by (cases "n_subs n t") (simp_all add: Subscribe_eq)
  moreover have "n_loops n i = Some t \<longleftrightarrow> n_subs n t = Some i"
    using inv unfolding no_leak_def mem_inv_def subs_ok_def by blast
  ultimately show ?thesis by (simp only: Let_def n_def)
qed

text \<open>
  C38: two subscribes of one topic in flight at once leak the first subscription: both pass the check
  before either is recorded, the second record replaces the first, and \<open>Unsubscribe\<close> then cancels
  only the second; the receive loop of the first goes on.
\<close>

theorem concurrent_subscribe_leaks:
  "\<exists>s. mem_reachable cfg s \<and> ms_pending s = [] \<and> n_subs (ms_node s) AggregateTopic = Some 1 \<and>
     n_loops (ms_node s) 0 = Some AggregateTopic \<and>
     n_loops (Unsubscribe AggregateTopic (ms_node s)) 0 = Some AggregateTopic"
proof -
  let ?t = AggregateTopic
  define n1 where "n1 = snd (joinLocked all_ok cfg ?t (empty_node cfg))"
  have j: "fst (joinLocked all_ok cfg ?t (empty_node cfg)) = None"
    by (simp add: joinLocked_def empty_node_def all_ok_def registerVerifyHook_def Let_def)
  have n1: "n_subs n1 = Map.empty" "n_loops n1 = Map.empty" "n_next n1 = 0" "n_topics n1 ?t \<noteq> None"
    using joinLocked_joined [OF j] by (simp_all add: n1_def) (simp_all add: empty_node_def)
  have again: "joinLocked all_ok cfg ?t n1 = (None, n1)" using n1(4) by (simp add: joinLocked_def)
  have "joinLocked all_ok cfg ?t (empty_node cfg) = (None, n1)" using j by (simp add: n1_def prod_eq_iff)
  then have l1: "subscribe_lock all_ok cfg ?t (empty_node cfg) = (Proceed, n1)"
    using n1(1) by (simp add: subscribe_lock_def)
  have l2: "subscribe_lock all_ok cfg ?t n1 = (Proceed, n1)" using again n1(1) by (simp add: subscribe_lock_def)
  define f where "f = (\<lambda>n. snd (subscribe_finish all_ok ?t n))"
  let ?s = "\<lambda>n ps. \<lparr>ms_node = n, ms_pending = ps\<rparr>"
  have s1: "mem_step cfg (mem_start cfg) (?s n1 [?t])"
    using mem_step.sub_begin [of all_ok cfg ?t "mem_start cfg"] l1 by (simp add: mem_start_def)
  have s2: "mem_step cfg (?s n1 [?t]) (?s n1 [?t, ?t])"
    using mem_step.sub_begin [of all_ok cfg ?t "?s n1 [?t]"] l2 by simp
  have s3: "mem_step cfg (?s n1 [?t, ?t]) (?s (f n1) [?t])"
    using mem_step.sub_end [of "?s n1 [?t, ?t]" "[]" ?t "[?t]" cfg all_ok] by (simp add: f_def)
  have s4: "mem_step cfg (?s (f n1) [?t]) (?s (f (f n1)) [])"
    using mem_step.sub_end [of "?s (f n1) [?t]" "[]" ?t "[]" cfg all_ok] by (simp add: f_def)
  have "mem_reachable cfg (?s (f (f n1)) [])"
    unfolding mem_reachable_def
    by (rule converse_rtranclp_into_rtranclp, rule s1, rule converse_rtranclp_into_rtranclp, rule s2,
        rule converse_rtranclp_into_rtranclp, rule s3, rule converse_rtranclp_into_rtranclp, rule s4,
        rule rtranclp.rtrancl_refl)
  moreover have "n_subs (f (f n1)) ?t = Some 1" "n_loops (f (f n1)) 0 = Some ?t"
    using n1 by (simp_all add: f_def subscribe_finish_def all_ok_def)
  ultimately show ?thesis by (intro exI [of _ "?s (f (f n1)) []"]) (simp add: Unsubscribe_def)
qed

end
