(* ===== verification/Publishing.thy ===== *)
theory Publishing
  imports SlotProps MembershipProps
begin

text \<open>
  The runner on its node: the calls a runner makes (its effects) run against the node's membership
  tables, and no publish is refused because its topic was not joined.

  The interface between the two is a table of joined topics with three calls; the node's tables
  provide it, and so does a plain set of topics, the specification.
\<close>

section \<open>The interface\<close>

locale topic_table =
  fixes joined :: "'s \<Rightarrow> string set"
    and join subscribe unsubscribe :: "string \<Rightarrow> 's \<Rightarrow> 's"
  assumes join_joined: "joined (join t s) = insert t (joined s)"
    and subscribe_joined: "joined (subscribe t s) = insert t (joined s)"
    and unsubscribe_joined: "joined (unsubscribe t s) = joined s"

text \<open>The topics of the publishes that find their topic not joined, running the calls in order.\<close>

fun refused ::
  "('s \<Rightarrow> string set) \<Rightarrow> (string \<Rightarrow> 's \<Rightarrow> 's) \<Rightarrow> (string \<Rightarrow> 's \<Rightarrow> 's) \<Rightarrow> (string \<Rightarrow> 's \<Rightarrow> 's) \<Rightarrow>
     effect list \<Rightarrow> 's \<Rightarrow> string list" where
  "refused joined join sub unsub [] s = []"
| "refused joined join sub unsub (e # es) s =
     (case e of
        Publish t _ \<Rightarrow> (if t \<in> joined s then [] else [t]) @ refused joined join sub unsub es s
      | FanoutPartial t _ _ _ _ \<Rightarrow> (if t \<in> joined s then [] else [t]) @ refused joined join sub unsub es s
      | JoinTopic t \<Rightarrow> refused joined join sub unsub es (join t s)
      | SubscribeTopic t \<Rightarrow> refused joined join sub unsub es (sub t s)
      | UnsubscribeTopic t \<Rightarrow> refused joined join sub unsub es (unsub t s)
      | _ \<Rightarrow> refused joined join sub unsub es s)"

text \<open>The specification: the table is the set of its topics.\<close>

definition spec_refused :: "effect list \<Rightarrow> string set \<Rightarrow> string list" where
  "spec_refused = refused (\<lambda>J. J) insert insert (\<lambda>t J. J)"

fun topics_opened :: "effect list \<Rightarrow> string set" where
  "topics_opened [] = {}"
| "topics_opened (JoinTopic t # es) = insert t (topics_opened es)"
| "topics_opened (SubscribeTopic t # es) = insert t (topics_opened es)"
| "topics_opened (e # es) = topics_opened es"

lemma spec_refused_simps [simp]:
  "spec_refused [] J = []"
  "spec_refused (Publish t d # es) J = (if t \<in> J then [] else [t]) @ spec_refused es J"
  "spec_refused (FanoutPartial t k ps sg d # es) J = (if t \<in> J then [] else [t]) @ spec_refused es J"
  "spec_refused (JoinTopic t # es) J = spec_refused es (insert t J)"
  "spec_refused (SubscribeTopic t # es) J = spec_refused es (insert t J)"
  by (simp_all add: spec_refused_def)

text \<open>The other effects do not touch the table.\<close>

fun silent :: "effect \<Rightarrow> bool" where
  "silent (Publish _ _) = False"
| "silent (FanoutPartial _ _ _ _ _) = False"
| "silent (JoinTopic _) = False"
| "silent (SubscribeTopic _) = False"
| "silent _ = True"

lemma spec_refused_silent: "silent e \<Longrightarrow> spec_refused (e # es) J = spec_refused es J"
  by (cases e) (simp_all add: spec_refused_def)

lemma effect_cases5:
  obtains (publish) t d where "e = Publish t d" | (fanout) t k ps sg d where "e = FanoutPartial t k ps sg d"
  | (join) t where "e = JoinTopic t" | (subscribe) t where "e = SubscribeTopic t" | (silent) "silent e"
  by (cases e) auto

context topic_table
begin

lemma refused_refines: "refused joined join subscribe unsubscribe es s = spec_refused es (joined s)"
proof (induction es arbitrary: s)
  case (Cons e es)
  then show ?case
    by (cases e) (simp_all add: spec_refused_silent join_joined subscribe_joined unsubscribe_joined)
qed simp

end

lemma spec_refused_mono: "J \<subseteq> K \<Longrightarrow> set (spec_refused es K) \<subseteq> set (spec_refused es J)"
proof (induction es arbitrary: J K)
  case (Cons e es)
  have i: "set (spec_refused es (insert t K)) \<subseteq> set (spec_refused es (insert t J))" for t
    by (rule Cons.IH) (use Cons.prems in blast)
  have k: "set (spec_refused es K) \<subseteq> set (spec_refused es J)" by (rule Cons.IH [OF Cons.prems])
  show ?case
  proof (cases e rule: effect_cases5)
    case silent
    then show ?thesis using k by (simp add: spec_refused_silent)
  qed (use i k Cons.prems in auto)
qed simp

text \<open>Publishing on joined topics only, or on topics the calls before it opened.\<close>

lemma spec_refused_published:
  assumes "\<And>t d. Publish t d \<in> set es \<Longrightarrow> t \<in> J"
    and "\<And>t k ps sg d. FanoutPartial t k ps sg d \<in> set es \<Longrightarrow> t \<in> J"
  shows "spec_refused es J = []"
  using assms
proof (induction es)
  case (Cons e es)
  have IH: "spec_refused es J = []" by (rule Cons.IH, erule Cons.prems(1) [OF list.set_intros(2)], erule Cons.prems(2) [OF list.set_intros(2)])
  then have "spec_refused es (insert t J) = []" for t using spec_refused_mono [of J "insert t J" es] by auto
  moreover have "t \<in> J" if "e = Publish t d" for t d using Cons.prems(1) [of t d] that by simp
  moreover have "t \<in> J" if "e = FanoutPartial t k ps sg d" for t k ps sg d
    using Cons.prems(2) [of t k ps sg d] that by simp
  ultimately show ?case using IH by (cases e rule: effect_cases5) (auto simp: spec_refused_silent)
qed simp

lemma topics_opened_silent: "silent e \<Longrightarrow> topics_opened (e # es) = topics_opened es"
  by (cases e) simp_all

lemma topics_opened_append [simp]: "topics_opened (xs @ ys) = topics_opened xs \<union> topics_opened ys"
proof (induction xs)
  case (Cons e es)
  then show ?case
    by (cases e rule: effect_cases5) (simp_all add: topics_opened_silent)
qed simp

lemma spec_refused_append:
  assumes "spec_refused xs J = []" and "spec_refused ys (J \<union> topics_opened xs) = []"
  shows "spec_refused (xs @ ys) J = []"
  using assms
proof (induction xs arbitrary: J)
  case (Cons e es)
  show ?case
  proof (cases e rule: effect_cases5)
    case silent
    with Cons show ?thesis by (simp add: spec_refused_silent topics_opened_silent)
  next
    case (join t)
    with Cons.prems Cons.IH [of "insert t J"] show ?thesis by simp
  next
    case (subscribe t)
    with Cons.prems Cons.IH [of "insert t J"] show ?thesis by simp
  next
    case (publish t d)
    with Cons.prems Cons.IH [of J] show ?thesis by (simp split: if_splits)
  next
    case (fanout t k ps sg d)
    with Cons.prems Cons.IH [of J] show ?thesis by (simp split: if_splits)
  qed
qed simp

section \<open>The node provides it\<close>

lemma registerVerifyHook_ok: "register_ok a t \<Longrightarrow> fst (registerVerifyHook a cfg t n) = None"
  by (simp add: registerVerifyHook_def Let_def)

lemma joinLocked_ok:
  "fst (joinLocked all_ok cfg t n) = None"
  "dom (n_topics (snd (joinLocked all_ok cfg t n))) = insert t (dom (n_topics n))"
proof -
  obtain n1 where "(if wants_partial cfg t then (None, n) else registerVerifyHook all_ok cfg t n) = (None, n1)"
      "n_topics n1 = n_topics n"
  proof (cases "wants_partial cfg t")
    case False
    have "register_ok all_ok t" by (simp add: all_ok_def)
    then have "fst (registerVerifyHook all_ok cfg t n) = None" by (rule registerVerifyHook_ok)
    then have "(if wants_partial cfg t then (None, n) else registerVerifyHook all_ok cfg t n) =
        (None, snd (registerVerifyHook all_ok cfg t n))"
      using False by (simp add: prod_eq_iff)
    then show ?thesis using that by simp
  qed (use that in simp)
  then show "fst (joinLocked all_ok cfg t n) = None"
    "dom (n_topics (snd (joinLocked all_ok cfg t n))) = insert t (dom (n_topics n))"
    by (auto simp: joinLocked_def all_ok_def)
qed

lemma Subscribe_ok: "dom (n_topics (snd (Subscribe all_ok cfg t n))) = insert t (dom (n_topics n))"
proof -
  obtain n1 where "joinLocked all_ok cfg t n = (None, n1)" "dom (n_topics n1) = insert t (dom (n_topics n))"
    using joinLocked_ok [of cfg t n] by (metis prod.collapse)
  then show ?thesis by (simp add: Subscribe_eq)
qed

interpretation node_table: topic_table "\<lambda>n. dom (n_topics n)" "\<lambda>t n. snd (Join all_ok cfg t n)"
  "\<lambda>t n. snd (Subscribe all_ok cfg t n)" Unsubscribe for cfg
  by unfold_locales (simp_all add: Join_def joinLocked_ok Subscribe_ok Unsubscribe_def split: option.split)

definition node_refused :: "node_cfg \<Rightarrow> effect list \<Rightarrow> node_state \<Rightarrow> string list" where
  "node_refused cfg = refused (\<lambda>n. dom (n_topics n)) (\<lambda>t n. snd (Join all_ok cfg t n))
     (\<lambda>t n. snd (Subscribe all_ok cfg t n)) Unsubscribe"

lemma node_refused_eq: "node_refused cfg es n = spec_refused es (dom (n_topics n))"
  unfolding node_refused_def by (rule node_table.refused_refines)

lemma JoinTopics_ok:
  "JoinTopics all_ok cfg = (None, snd (JoinTopics all_ok cfg)) \<and>
   dom (n_topics (snd (JoinTopics all_ok cfg))) = {BlockTopic, ConsensusBlockTopic, ExecutionPayloadTopic}"
proof -
  have s: "Subscribe all_ok cfg t n = (None, snd (Subscribe all_ok cfg t n))" for t n
    using joinLocked_ok(1) [of cfg t n]
    by (cases "joinLocked all_ok cfg t n") (auto simp: Subscribe_eq subscribe_finish_def all_ok_def)
  have "subscribe_all all_ok cfg ts n = (None, foldl (\<lambda>n t. snd (Subscribe all_ok cfg t n)) n ts)" for ts n
    by (induction ts arbitrary: n) (auto, metis (no_types, lifting) s split_conv option.case(1))
  then have "JoinTopics all_ok cfg = (None, foldl (\<lambda>n t. snd (Subscribe all_ok cfg t n)) (empty_node cfg)
      [BlockTopic, ConsensusBlockTopic, ExecutionPayloadTopic])"
    unfolding JoinTopics_def by blast
  moreover have "dom (n_topics (empty_node cfg)) = {}" by (simp add: empty_node_def)
  ultimately show ?thesis by (simp add: Subscribe_ok insert_commute)
qed

section \<open>What the runner opens\<close>

lemma opened_joins [simp]: "topics_opened (map (\<lambda>x. JoinTopic (f x)) xs) = f ` set xs"
  by (induction xs) simp_all

lemma opened_subscribes [simp]:
  "topics_opened (map (\<lambda>x. SubscribeTopic (f x)) xs) = f ` set xs"
  by (induction xs) simp_all

lemma opened_if: "topics_opened (if b then xs else ys) = (if b then topics_opened xs else topics_opened ys)"
  by simp

lemma topics_opened_Prepare:
  "topics_opened (Prepare r) =
     (let v = r_view r in
      (if r_attest r then (if v_HasAggregators v then {AggregateTopic} else {}) \<union>
         AttestationTopic ` set (v_SubscribedSubnets v) else {}) \<union>
      (if 0 < v_NumColumns v then ColumnTopic ` set (v_CustodyColumns v) else {}) \<union>
      (if r_sync r then insert SyncContributionTopic
         (if v_SyncMember v then {SyncMessageTopic (v_SyncSubnet v)} else {}) else {}) \<union>
      (if r_epbs r \<noteq> None then {PTCVoteTopic} else {}) \<union>
      (if r_decoupled r then {AvailabilityVoteTopic, FinalityAggregateTopic} \<union>
         (if v_FinalityMember v then {FinalityVoteTopic (v_FinalitySubnet v)} else {}) else {}))"
  by (simp add: Prepare_def Let_def opened_if Un_assoc)

definition base_topics :: "NodeRunner \<Rightarrow> string set" where
  "base_topics r = {BlockTopic, ConsensusBlockTopic, ExecutionPayloadTopic} \<union> topics_opened (Prepare r)"

lemma Prepare_refused: "spec_refused (Prepare r) J = []"
  by (rule spec_refused_published) (auto simp: Prepare_def Let_def split: if_splits)

lemma base_topics_members:
  "r_attest r \<Longrightarrow> v_HasAggregators (r_view r) \<Longrightarrow> AggregateTopic \<in> base_topics r"
  "r_attest r \<Longrightarrow> s \<in> set (v_SubscribedSubnets (r_view r)) \<Longrightarrow> AttestationTopic s \<in> base_topics r"
  "0 < v_NumColumns (r_view r) \<Longrightarrow> c \<in> set (v_CustodyColumns (r_view r)) \<Longrightarrow> ColumnTopic c \<in> base_topics r"
  "r_sync r \<Longrightarrow> SyncContributionTopic \<in> base_topics r"
  "r_epbs r \<noteq> None \<Longrightarrow> PTCVoteTopic \<in> base_topics r"
  "r_decoupled r \<Longrightarrow> AvailabilityVoteTopic \<in> base_topics r"
  "r_decoupled r \<Longrightarrow> FinalityAggregateTopic \<in> base_topics r"
  "r_decoupled r \<Longrightarrow> v_FinalityMember (r_view r) \<Longrightarrow>
     FinalityVoteTopic (v_FinalitySubnet (r_view r)) \<in> base_topics r"
  "BlockTopic \<in> base_topics r" "ConsensusBlockTopic \<in> base_topics r" "ExecutionPayloadTopic \<in> base_topics r"
  by (simp_all add: base_topics_def topics_opened_Prepare Let_def)

text \<open>From bring-up on, a call sequence is refused nothing if its publishes stay in what is open.\<close>

lemma node_refused_after_bringup:
  assumes "spec_refused mid (base_topics r) = []"
    and "spec_refused es (base_topics r \<union> topics_opened mid) = []"
  shows "node_refused cfg (Prepare r @ mid @ es) (snd (JoinTopics all_ok cfg)) = []"
proof -
  let ?J = "{BlockTopic, ConsensusBlockTopic, ExecutionPayloadTopic}"
  have "spec_refused (mid @ es) (?J \<union> topics_opened (Prepare r)) = []"
    using spec_refused_append [OF assms] by (simp only: base_topics_def)
  then have "spec_refused (Prepare r @ mid @ es) ?J = []" by (rule spec_refused_append [OF Prepare_refused])
  then show ?thesis using JoinTopics_ok [of cfg] by (simp only: node_refused_eq)
qed

section \<open>The duties of a slot\<close>

text \<open>Which phase a slot's duties belong to.\<close>

definition slot_armed :: "NodeRunner \<Rightarrow> slotState \<Rightarrow> bool" where
  "slot_armed r ss \<longleftrightarrow>
     (aggSubnets ss \<noteq> [] \<longrightarrow> r_attest r \<and> v_HasAggregators (r_view r)) \<and>
     (attestationDuties ss \<noteq> [] \<longrightarrow> r_attest r \<and>
        attestationSubnetsSubscribed ss = set (v_SubscribedSubnets (r_view r))) \<and>
     (acVoteDuties ss \<noteq> [] \<longrightarrow> r_decoupled r) \<and> (ptcDuties ss \<noteq> [] \<longrightarrow> r_epbs r \<noteq> None) \<and>
     (syncAggSubnets ss \<noteq> [] \<longrightarrow> r_sync r)"

lemma AggregateSubnets_has:
  assumes "Node a i = Some v" and "xs \<in> set (v_AggregateSubnets v)" and "xs \<noteq> []"
  shows "v_HasAggregators v"
proof -
  have all: "list_all2 (\<lambda>sp ys. slot_aggregate_subnets sp i = Some ys) (a_Slots a) (v_AggregateSubnets v)"
    using assms(1) by (auto simp: Node_def bind_eq_Some_conv Let_def mapO_Some_iff)
  have has: "v_HasAggregators v \<longleftrightarrow> (\<exists>sp \<in> set (a_Slots a). \<exists>g \<in> set (sp_Aggregators sp). g \<noteq> [])"
    using assms(1) by (clarsimp simp: Node_def bind_eq_Some_conv Let_def)
  obtain k where k: "k < length (v_AggregateSubnets v)" "xs = v_AggregateSubnets v ! k"
    using assms(2) by (auto simp: in_set_conv_nth)
  let ?sp = "a_Slots a ! k"
  have len: "k < length (a_Slots a)" using k(1) list_all2_lengthD [OF all] by simp
  have "slot_aggregate_subnets ?sp i = Some xs" using list_all2_nthD2 [OF all k(1)] k(2) by simp
  then have "memberships (sp_Aggregators ?sp) i \<noteq> []"
    using assms(3) by (auto simp: slot_aggregate_subnets_def)
  then obtain x where "x \<in> set (memberships (sp_Aggregators ?sp) i)" by (metis list.set_intros(1) neq_Nil_conv)
  then have "i \<in> set (sp_Aggregators ?sp ! nat x)" "nat x < length (sp_Aggregators ?sp)"
    by (auto simp: set_memberships)
  then have "\<exists>g \<in> set (sp_Aggregators ?sp). g \<noteq> []" by (metis empty_iff list.set(1) nth_mem)
  moreover have "?sp \<in> set (a_Slots a)" using len by simp
  ultimately show ?thesis using has by blast
qed

lemma round0Warmup_state:
  assumes "round0Warmup L r = Some (r', es)"
  shows "\<exists>b F. r' = r\<lparr>r_round0Done := b, r_finals := F\<rparr>"
proof (cases "r_round0Done r")
  case True
  then have "r' = r\<lparr>r_round0Done := r_round0Done r, r_finals := r_finals r\<rparr>"
    using assms by (simp add: round0Warmup_def)
  then show ?thesis by blast
next
  case False
  then obtain F where "r' = r\<lparr>r_round0Done := True\<rparr>\<lparr>r_finals := F\<rparr>"
    using assms prejoin_view [of L "r\<lparr>r_round0Done := True\<rparr>" 0 r' es] by (auto simp: round0Warmup_def)
  then show ?thesis by auto
qed

lemma setup_phase_state:
  assumes "setup_phase L r slot t ss = Some (r1, ss1, e1)"
  shows "\<exists>b F. r1 = r\<lparr>r_round0Done := b, r_finals := F\<rparr>"
    and "ptcDuties ss1 = ptcDuties ss \<and> syncAggSubnets ss1 = syncAggSubnets ss"
    and "if r_attest r
      then attestationSubnetsSubscribed ss1 = set (v_SubscribedSubnets (r_view r)) \<and>
        acVoteDuties ss1 = acVoteDuties ss \<and>
        go_index (v_AggregateSubnets (r_view r)) slot = Some (aggSubnets ss1) \<and>
        (dialReady ss1 = None \<longleftrightarrow> \<not> needsDial r (attestationDuties ss1))
      else attestationDuties ss1 = attestationDuties ss \<and> aggSubnets ss1 = aggSubnets ss \<and>
        (acVoteDuties ss1 = acVoteDuties ss \<or> r_decoupled r)"
proof -
  have same_r: "\<exists>b F. r = r\<lparr>r_round0Done := b, r_finals := F\<rparr>"
    by (intro exI [of _ "r_round0Done r"] exI [of _ "r_finals r"]) simp
  consider (attest) "r_attest r" "setup_attest r slot t ss = Some (ss1, e1)" "r1 = r"
    | (dec) e ds where "\<not> r_attest r" "r_decoupled r"
        "(if r_segregated r then armFinalitySubRound L r slot t else armFinality L r slot t) = Some (r1, e)"
        "ss1 = ss\<lparr>acVoteDuties := ds\<rparr>"
    | (none) "\<not> r_attest r" "r1 = r" "ss1 = ss"
  proof (cases "r_attest r")
    case True
    then have "setup_attest r slot t ss = Some (ss1, e1) \<and> r1 = r" using assms by (auto simp: setup_phase_def)
    then show ?thesis using attest True by blast
  next
    case na: False
    show ?thesis
    proof (cases "r_decoupled r")
      case True
      let ?arm = "if r_segregated r then armFinalitySubRound L r slot t else armFinality L r slot t"
      have "setup_decoupled L r slot t ss = Some (r1, ss1, e1)" using assms True na by (simp add: setup_phase_def)
      then obtain ds e where "?arm = Some (r1, e)" "ss1 = ss\<lparr>acVoteDuties := ds\<rparr>"
        unfolding setup_decoupled_def by (auto simp: bind_eq_Some_conv simp del: if_split)
      then show ?thesis using dec True na by blast
    next
      case False
      then have "r1 = r \<and> ss1 = ss" using assms na by (simp add: setup_phase_def)
      then show ?thesis using na none by blast
    qed
  qed
  then have *: "(\<exists>b F. r1 = r\<lparr>r_round0Done := b, r_finals := F\<rparr>) \<and>
    (ptcDuties ss1 = ptcDuties ss \<and> syncAggSubnets ss1 = syncAggSubnets ss) \<and>
    (if r_attest r
      then attestationSubnetsSubscribed ss1 = set (v_SubscribedSubnets (r_view r)) \<and>
        acVoteDuties ss1 = acVoteDuties ss \<and>
        go_index (v_AggregateSubnets (r_view r)) slot = Some (aggSubnets ss1) \<and>
        (dialReady ss1 = None \<longleftrightarrow> \<not> needsDial r (attestationDuties ss1))
      else attestationDuties ss1 = attestationDuties ss \<and> aggSubnets ss1 = aggSubnets ss \<and>
        (acVoteDuties ss1 = acVoteDuties ss \<or> r_decoupled r))"
  proof cases
    case attest
    from attest(2) obtain ds aggs where "go_index (v_AggregateSubnets (r_view r)) slot = Some aggs"
      "ss1 = ss\<lparr>attestationDuties := ds, attestationSubnetsSubscribed := set (v_SubscribedSubnets (r_view r)),
         dialReady := (if needsDial r ds then Some False else None), aggSubnets := aggs\<rparr>"
      by (auto simp: setup_attest_def bind_eq_Some_conv Let_def simp del: go_index_Some_iff)
    then show ?thesis using attest(1,3) same_r by (simp del: go_index_Some_iff)
  next
    case dec
    from dec(3) have "r1 = r \<or> (\<exists>w. round0Warmup L r = Some (r1, w))"
      by (auto simp: armFinalitySubRound_def armFinality_def Let_def bind_eq_Some_conv split: if_splits)
    then have "\<exists>b F. r1 = r\<lparr>r_round0Done := b, r_finals := F\<rparr>" using round0Warmup_state same_r by blast
    then show ?thesis using dec by simp
  next
    case none
    then show ?thesis using same_r by simp
  qed
  then show "\<exists>b F. r1 = r\<lparr>r_round0Done := b, r_finals := F\<rparr>"
    "ptcDuties ss1 = ptcDuties ss \<and> syncAggSubnets ss1 = syncAggSubnets ss"
    "if r_attest r
      then attestationSubnetsSubscribed ss1 = set (v_SubscribedSubnets (r_view r)) \<and>
        acVoteDuties ss1 = acVoteDuties ss \<and>
        go_index (v_AggregateSubnets (r_view r)) slot = Some (aggSubnets ss1) \<and>
        (dialReady ss1 = None \<longleftrightarrow> \<not> needsDial r (attestationDuties ss1))
      else attestationDuties ss1 = attestationDuties ss \<and> aggSubnets ss1 = aggSubnets ss \<and>
        (acVoteDuties ss1 = acVoteDuties ss \<or> r_decoupled r)" by blast+
qed

lemma setupSlot_armed:
  assumes "setupSlot L r slot t = Some (r', es)" and "r_slots r' slot = Some ss" and "Node a i = Some (r_view r)"
  shows "slot_armed r ss" and "dialReady ss = None \<Longrightarrow> r_attest r \<Longrightarrow> \<not> needsDial r (attestationDuties ss)"
proof -
  obtain r1 ss1 e1 ss2 e2 ss3 e3 where ph: "setup_phase L r slot t (new_slotState (t + r_blockDue r)) = Some (r1, ss1, e1)"
    and p: "setup_ptc r1 slot t (setup_custody r1 ss1) = Some (ss2, e2)"
    and y: "setup_sync r1 slot t ss2 = Some (ss3, e3)" and ss: "ss = ss3"
    using assms(1,2) by (auto simp: setupSlot_def bind_eq_Some_conv)
  note st = setup_phase_state [OF ph]
  obtain b F where r1: "r1 = r\<lparr>r_round0Done := b, r_finals := F\<rparr>" using st(1) by blast
  let ?keep = "\<lambda>s. (attestationDuties s, dialReady s, attestationSubnetsSubscribed s, aggSubnets s, acVoteDuties s)"
  have "?keep ss2 = ?keep ss1 \<and> syncAggSubnets ss2 = syncAggSubnets ss1 \<and> (ptcDuties ss2 = ptcDuties ss1 \<or> r_epbs r \<noteq> None)"
    using p by (auto simp: setup_ptc_def setup_custody_def r1 bind_eq_Some_conv Let_def split: option.splits if_splits)
  moreover have "?keep ss = ?keep ss2 \<and> ptcDuties ss = ptcDuties ss2 \<and> (syncAggSubnets ss = syncAggSubnets ss2 \<or> r_sync r)"
    using y by (auto simp: ss setup_sync_def r1 bind_eq_Some_conv split: if_splits)
  ultimately have fields: "?keep ss = ?keep ss1" "ptcDuties ss = ptcDuties ss1 \<or> r_epbs r \<noteq> None"
    "syncAggSubnets ss = syncAggSubnets ss1 \<or> r_sync r" by auto
  have agg: "v_HasAggregators (r_view r)" if "go_index (v_AggregateSubnets (r_view r)) slot = Some xs" "xs \<noteq> []" for xs
    using AggregateSubnets_has [OF assms(3) go_index_in_set [OF that(1)] that(2)] .
  show "slot_armed r ss"
    using st(2,3) fields agg unfolding slot_armed_def
    by (cases "r_attest r") (auto simp: new_slotState_def simp del: go_index_Some_iff)
  show "dialReady ss = None \<Longrightarrow> r_attest r \<Longrightarrow> \<not> needsDial r (attestationDuties ss)"
    using st(3) fields(1) by simp
qed

section \<open>No publish is refused\<close>

lemma spec_refused_concat: "(\<And>x K. x \<in> set xs \<Longrightarrow> spec_refused (f x) K = []) \<Longrightarrow> spec_refused (concat (map f xs)) J = []"
proof (induction xs arbitrary: J)
  case (Cons x xs)
  then show ?case by (simp add: spec_refused_append)
qed simp

lemma spec_refused_emit: "\<not> r_partial r \<Longrightarrow> spec_refused (emit C r joins order slot ss at) J = []"
  unfolding emit_def Let_def
  by (simp, rule spec_refused_concat) (simp add: spec_refused_silent)

text \<open>The topics of a slot's joined fan-out subnets.\<close>

definition fanout_subnets :: "slotState \<Rightarrow> int set" where
  "fanout_subnets ss = {ad_Subnet d |d. d \<in> set (attestationDuties ss) \<and> ad_Subnet d \<notin> attestationSubnetsSubscribed ss}"

lemma dialDuties_opens:
  assumes "dialDuties L r slot ss = Some (ss', es)"
  shows "topics_opened es = AttestationTopic ` fanout_subnets ss" and "spec_refused es J = []"
proof -
  obtain acc seen e where f: "foldO (dial_duty L r slot ss) (attestationDuties ss) (([], {}), [], []) = Some (acc, seen, e)"
    and es: "es = e @ [Dial (fst acc)]"
    using assms by (auto simp: dialDuties_def)
  obtain subnets where "set subnets = fanout_subnets ss" and e: "e = map (\<lambda>s. JoinTopic (AttestationTopic s)) subnets"
    using dial_duty_fold [OF f] by (auto simp: fanout_subnets_def)
  then show "topics_opened es = AttestationTopic ` fanout_subnets ss" by (simp add: es)
  show "spec_refused es J = []" by (rule spec_refused_published) (auto simp: es e)
qed

lemma onBlockProcessed_quiet: "e \<in> set (snd (onBlockProcessed r now slot origin at)) \<Longrightarrow> quiet e"
  using quiet_slot_block
  by (auto simp: onBlockProcessed_def on_slot_def split_beta Let_def split: option.splits)

lemma quiet_publishes: "\<not> quiet (Publish t d)" "\<not> quiet (FanoutPartial t k ps sg b)"
  by simp_all

lemma spec_refused_pubs:
  assumes "\<And>x. x \<in> set xs \<Longrightarrow> topic x \<in> J"
  shows "spec_refused (concat (map (\<lambda>x. [OnPublish (q x) (v x) (u x), Publish (topic x) (d x)]) xs)) J = []"
  using assms by (intro spec_refused_published) auto

lemma topic_globals:
  "Topic (MakeAggregate C s n o') = AggregateTopic" "Topic (MakeSyncContribution C s n o') = SyncContributionTopic"
  "Topic (MakeColumn C s c o') = ColumnTopic c" "Topic (MakeBlock C s o' z) = BlockTopic"
  "Topic (MakeConsensusBlock C s o' z) = ConsensusBlockTopic"
  "Topic (MakeExecutionPayload C s o' z) = ExecutionPayloadTopic" "Slot (MakeBlock C s o' z) = s"
  by (simp_all add: make_defs)

lemma no_refusal_slot:
  assumes "slot_armed r ss" and "base_topics r \<subseteq> J"
    and "AttestationTopic ` set order \<subseteq> J"
    and "\<And>c. 0 \<le> c \<Longrightarrow> c < v_NumColumns (r_view r) \<Longrightarrow> c \<in> set (v_CustodyColumns (r_view r))"
  shows "spec_refused (emitGated C r joins order slot ss at) J = []"
    and "spec_refused (emitSyncMessage C r joins slot ss at) J = []"
    and "spec_refused (snd (emitAggregate C r slot ss at)) J = []"
    and "spec_refused (snd (emitSyncContribution C r slot ss at)) J = []"
    and "spec_refused (snd (emitPTCVote C r slot ss at)) J = []"
    and "spec_refused (snd (publishBlock C r at (MakeBlock C slot (r_num r) bs))) J = []"
    and "spec_refused (snd (publishConsensusBlock C r ep at slot)) J = []"
    and "spec_refused (snd (publishExecutionPayload C r at slot)) J = []"
proof -
  have J: "t \<in> base_topics r \<Longrightarrow> t \<in> J" for t using assms(2) by blast
  note m = base_topics_members [THEN J]
  show "spec_refused (emitSyncMessage C r joins slot ss at) J = []"
    by (simp add: emitSyncMessage_def Let_def spec_refused_silent)
  have "aggSubnets ss \<noteq> [] \<Longrightarrow> AggregateTopic \<in> J" "syncAggSubnets ss \<noteq> [] \<Longrightarrow> SyncContributionTopic \<in> J"
    "ptcDuties ss \<noteq> [] \<Longrightarrow> PTCVoteTopic \<in> J" "acVoteDuties ss \<noteq> [] \<Longrightarrow> AvailabilityVoteTopic \<in> J"
    using assms(1) m(1,4-6) unfolding slot_armed_def by blast+
  then have globals: "x \<in> set (aggSubnets ss) \<Longrightarrow> AggregateTopic \<in> J"
    "x \<in> set (syncAggSubnets ss) \<Longrightarrow> SyncContributionTopic \<in> J"
    "p \<in> set (ptcDuties ss) \<Longrightarrow> PTCVoteTopic \<in> J" "d \<in> set (acVoteDuties ss) \<Longrightarrow> AvailabilityVoteTopic \<in> J" for x p d
    by (metis empty_iff list.set(1))+
  note pubs = Let_def topic_globals topic_simps spec_refused_pubs globals
  show "spec_refused (snd (emitAggregate C r slot ss at)) J = []"
    by (simp add: emitAggregate_def pubs)
  show "spec_refused (snd (emitSyncContribution C r slot ss at)) J = []"
    by (simp add: emitSyncContribution_def pubs)
  show "spec_refused (snd (emitPTCVote C r slot ss at)) J = []"
    by (simp add: emitPTCVote_def pubs)
  have "spec_refused (emitACVote C r slot ss at) J = []"
    by (simp add: emitACVote_def pubs)
  moreover have "spec_refused (emitPartial C r order slot ss w v at) J = []" for w v
    using assms(3) by (intro spec_refused_published) (auto simp: emitPartial_def Let_def)
  ultimately show "spec_refused (emitGated C r joins order slot ss at) J = []"
    using spec_refused_emit [of r C joins order slot ss at J] by (cases "r_partial r") (simp_all add: emitGated_def emit_def Let_def)
  have cols: "e \<in> set (burst_columns C r slot at) \<Longrightarrow> (\<forall>t d. e = Publish t d \<longrightarrow> t \<in> J) \<and> (\<nexists>t k ps sg d. e = FanoutPartial t k ps sg d)" for e
    using m(3) assms(4) by (auto simp: burst_columns_def topic_globals Let_def)
  have one: "spec_refused (OnPublish q b u # Publish t d # es) J = []"
    if "t \<in> J" and "\<And>e. e \<in> set es \<Longrightarrow> quiet e \<or> e \<in> set (burst_columns C r slot at)" for q b u t d es
    using that cols quiet_publishes by (intro spec_refused_published) fastforce+
  show "spec_refused (snd (publishConsensusBlock C r ep at slot)) J = []"
    unfolding publishConsensusBlock_def Let_def split_beta snd_conv append_Cons append_Nil topic_globals
    using m(10) by (intro one) (auto simp: onBlockProcessed_quiet)
  show "spec_refused (snd (publishExecutionPayload C r at slot)) J = []"
    unfolding publishExecutionPayload_def Let_def split_beta snd_conv append_Cons append_Nil topic_globals
    using m(11) by (intro one) (auto simp: quiet_marks)
  show "spec_refused (snd (publishBlock C r at (MakeBlock C slot (r_num r) bs))) J = []"
    unfolding publishBlock_def Let_def split_beta snd_conv append_Cons append_Nil topic_globals
    using m(9) by (intro one) (auto simp: quiet_marks onBlockProcessed_quiet split: if_splits)
qed

text \<open>The duty fields of a slot: setup writes them, no arrival and no vote changes them.\<close>

definition slot_duties ::
  "slotState \<Rightarrow> AttestDuty list \<times> int set \<times> ACVoteDuty list \<times> int list \<times> PTCDuty list \<times> int list" where
  "slot_duties ss = (attestationDuties ss, attestationSubnetsSubscribed ss, acVoteDuties ss, aggSubnets ss,
     ptcDuties ss, syncAggSubnets ss)"

lemma slot_duties_crit [simp]: "slot_duties (fst (crit_step r slot c ss)) = slot_duties ss"
  by (cases c) (auto simp: slot_duties_def crit_defs split_beta Let_def)

lemma slot_duties_run [simp]: "slot_duties (fst (run (crit_step r slot) cs ss)) = slot_duties ss"
  by (induction cs arbitrary: ss) (simp_all add: split_beta)

lemma slot_duties_arrive: "slot_duties (fst (arrive r slot e ss)) = slot_duties ss"
  by (rule arrive_is_crit [of r slot e ss]) simp

lemma slot_armed_duties: "slot_duties ss2 = slot_duties ss \<Longrightarrow> slot_armed r ss \<Longrightarrow> slot_armed r ss2"
  by (simp add: slot_duties_def slot_armed_def)


definition ex_plan_runner :: NodeRunner where
  "ex_plan_runner = base_runner 0 (the (Node example_plan 0)) [] ex_cfg"

definition ex_plan_setup :: "NodeRunner \<times> effect list" where
  "ex_plan_setup = the (setupSlot ex_rng ex_plan_runner 0 0)"


section \<open>Finality\<close>

lemma mapO_SomeD: "mapO f xs = Some ys \<Longrightarrow> \<forall>y \<in> set ys. \<exists>x \<in> set xs. f x = Some y"
  by (induction xs arbitrary: ys) (auto split: option.splits)

text \<open>
  C34: no finality publish is refused either.  For a member node under the decoupled phase, every vote
  of a pre-joined round, every partial fan-out of it and every aggregate finds its topic joined on the
  node brought up and warmed up by the round's pre-join.
\<close>

theorem no_finality_publish_refused:
  assumes "r_decoupled r" and "v_FinalityMember (r_view r)" and "n < int (length (v_FinalityVoteDuties (r_view r)))"
    and "prejoinFinality L r n = Some (r', mid)" and "r_finals r' n = Some fs"
    and "set order = {ad_Subnet d |d. d \<in> set (duties fs) \<and> ad_Subnet d \<noteq> ownSubnet fs}"
  shows "node_refused cfg (Prepare r @ mid @ snd (emitFinalityVotes C r order n fs at)) (snd (JoinTopics all_ok cfg)) = [] \<and>
    (\<forall>fs' es. emitFinalityAggregate C r n fs at = Some (fs', es) \<longrightarrow>
       node_refused cfg (Prepare r @ mid @ es) (snd (JoinTopics all_ok cfg)) = [])"
proof -
  obtain own where own: "ownSubnet fs = own" "own = v_FinalitySubnet (r_view r)"
    and mid: "mid = map (\<lambda>s. JoinTopic (FinalityVoteTopic s)) (foreign_subnets own (duties fs)) @
      [Dial (voteDialed fs @ aggregateDialed fs)] @ map (\<lambda>t. SubscribeTopic t) (aggregateSubscribed fs)"
    by (rule prejoin_Some [OF assms(4,2,3)]) (use assms(5) in auto)
  let ?J = "base_topics r \<union> topics_opened mid"
  have m: "spec_refused mid (base_topics r) = []" by (rule spec_refused_published) (auto simp: mid)
  have foreign: "FinalityVoteTopic s \<in> ?J" if "s \<in> set order" for s
    using that assms(6) by (simp add: mid set_foreign_subnets own(1))
  have vote: "FinalityVoteTopic (ad_Subnet d) \<in> ?J" if "d \<in> set (duties fs)" for d
    using that base_topics_members(8) [OF assms(1,2)] by (cases "ad_Subnet d = own") (auto simp: mid set_foreign_subnets own(2))
  have aggt: "FinalityAggregateTopic \<in> ?J" using base_topics_members(7) [OF assms(1)] by simp
  have "spec_refused (snd (emitFinalityVotes C r order n fs at)) ?J = []"
    using foreign vote
    by (intro spec_refused_published) (auto simp: emitFinalityVotes_def emitFinalityVotesPartial_def Let_def split: if_splits)
  moreover have "spec_refused es ?J = []" if "emitFinalityAggregate C r n fs at = Some (fs', es)" for fs' es
  proof -
    have "e \<in> set es \<Longrightarrow> (\<forall>t d. e = Publish t d \<longrightarrow> t = FinalityAggregateTopic) \<and> (\<nexists>t k ps sg d. e = FanoutPartial t k ps sg d)" for e
      using that by (auto simp: emitFinalityAggregate_def Let_def dest!: mapO_SomeD split: if_splits)
        (drule (1) bspec, force)+
    then have "Publish t d \<in> set es \<Longrightarrow> t = FinalityAggregateTopic" "FanoutPartial t k ps sg d \<notin> set es"
      for t d k ps sg by blast+
    then show ?thesis using aggt by (intro spec_refused_published) blast+
  qed
  ultimately show ?thesis using node_refused_after_bringup [OF m] by blast
qed

theorem no_finality_publish_refused_witness:
  "\<exists>r' mid fs. prejoinFinality ex_rng ex_frunner 0 = Some (r', mid) \<and> r_finals r' 0 = Some fs \<and>
     node_refused ex_node_cfg (Prepare ex_frunner @ mid @ snd (emitFinalityVotes fixed_codec ex_frunner [1] 0 fs 9))
       (snd (JoinTopics all_ok ex_node_cfg)) = []"
proof -
  let ?p = "the (prejoinFinality ex_rng ex_frunner 0)"
  let ?fs = "the (r_finals (fst ?p) 0)"
  have "prejoinFinality ex_rng ex_frunner 0 \<noteq> None" by code_simp
  then have p: "prejoinFinality ex_rng ex_frunner 0 = Some (fst ?p, snd ?p)" by auto
  have "r_finals (fst ?p) 0 \<noteq> None" by code_simp
  then have fs: "r_finals (fst ?p) 0 = Some ?fs" by auto
  have "map ad_Subnet (filter (\<lambda>d. ad_Subnet d \<noteq> ownSubnet ?fs) (duties ?fs)) = [1]" by code_simp
  then have "set [1] = set (map ad_Subnet (filter (\<lambda>d. ad_Subnet d \<noteq> ownSubnet ?fs) (duties ?fs)))" by simp
  then have o1: "set [1] = {ad_Subnet d |d. d \<in> set (duties ?fs) \<and> ad_Subnet d \<noteq> ownSubnet ?fs}" by auto
  have "r_decoupled ex_frunner" "v_FinalityMember (r_view ex_frunner)"
    "0 < int (length (v_FinalityVoteDuties (r_view ex_frunner)))"
    by (simp_all add: ex_frunner_def base_runner_def ex_fview_def)
  from no_finality_publish_refused [OF this p fs o1, of ex_node_cfg fixed_codec 9] p fs show ?thesis by blast
qed

end
