(* ===== verification/Metrics.thy ===== *)
theory Metrics
  imports Wire Complex_Main "HOL-Library.Multiset"
begin

text \<open>
  The metrics of a run (src/metrics/tracer.go): the in-process recorder of publishes and arrivals,
  the rates read from it, the CSV and log rows, and the percentile summary.

  The publish map is the list of its entries, one per message identity, in the order a \<open>range\<close> over
  it visits them; no theorem assumes anything of that order.  The rates divide integers that fit a
  \<open>float64\<close> exactly and are rationals here.  The rank of a percentile \<open>p\<close> of \<open>n\<close> samples is computed in
  the code as \<open>Ceil(p/100*float64(n))\<close>: for the four percentiles in use the rounded product is on the
  same side of the next integer as the exact one while \<open>n\<close> stays below \<open>2 ^ 40\<close>, so the rank is the
  exact ceiling here.
\<close>

section \<open>The recorder\<close>

record pubRec =
  pr_at :: instant
  pr_voted :: bool

record Arrival =
  arr_Node :: int
  arr_ID :: MsgID
  arr_Delay :: dur
  arr_VotedBlock :: bool

record Recorder =
  mr_pub :: "(MsgID \<times> pubRec) list"
  mr_arrivals :: "Arrival list"
  mr_orphans :: nat

definition NewRecorder :: Recorder where
  "NewRecorder = \<lparr>mr_pub = [], mr_arrivals = [], mr_orphans = 0\<rparr>"

fun set_pub :: "MsgID \<Rightarrow> pubRec \<Rightarrow> (MsgID \<times> pubRec) list \<Rightarrow> (MsgID \<times> pubRec) list" where
  "set_pub k p [] = [(k, p)]"
| "set_pub k p ((j, q) # xs) = (if j = k then (k, p) # xs else (j, q) # set_pub k p xs)"

definition Recorder_OnPublish :: "Recorder \<Rightarrow> MsgID \<Rightarrow> bool \<Rightarrow> instant \<Rightarrow> Recorder" where
  "Recorder_OnPublish r ident vote t = r\<lparr>mr_pub := set_pub ident \<lparr>pr_at = t, pr_voted = vote\<rparr> (mr_pub r)\<rparr>"

definition Recorder_OnReceive :: "Recorder \<Rightarrow> int \<Rightarrow> MsgID \<Rightarrow> instant \<Rightarrow> Recorder" where
  "Recorder_OnReceive r rcv ident t =
     (case map_of (mr_pub r) ident of
        None \<Rightarrow> r\<lparr>mr_orphans := mr_orphans r + 1\<rparr>
      | Some p \<Rightarrow> r\<lparr>mr_arrivals := mr_arrivals r @
          [\<lparr>arr_Node = rcv, arr_ID = ident, arr_Delay = t - pr_at p, arr_VotedBlock = pr_voted p\<rparr>]\<rparr>)"

section \<open>Rates\<close>

definition rate :: "nat \<Rightarrow> nat \<Rightarrow> rat" where
  "rate part whole = (if whole = 0 then 0 else of_nat part / of_nat whole)"

text \<open>The counting loop of \<open>fractionVoted\<close>: the two counters after all entries.\<close>

fun count_votes :: "int \<Rightarrow> Kind \<Rightarrow> (MsgID \<times> pubRec) list \<Rightarrow> nat \<times> nat \<Rightarrow> nat \<times> nat" where
  "count_votes slot kind [] acc = acc"
| "count_votes slot kind ((ident, p) # xs) (all, votes) =
     (if mid_kind ident \<noteq> kind \<or> id_slot (mid_ident ident) \<noteq> slot then count_votes slot kind xs (all, votes)
      else count_votes slot kind xs (all + 1, if pr_voted p then votes + 1 else votes))"

definition fractionVoted :: "Recorder \<Rightarrow> int \<Rightarrow> Kind \<Rightarrow> rat" where
  "fractionVoted r slot kind =
     (case count_votes slot kind (mr_pub r) (0, 0) of (all, votes) \<Rightarrow> rate votes all)"

definition FractionVotedBlock :: "Recorder \<Rightarrow> int \<Rightarrow> rat" where
  "FractionVotedBlock r slot = fractionVoted r slot KindAttestation"

definition FractionVotedHead :: "Recorder \<Rightarrow> int \<Rightarrow> rat" where
  "FractionVotedHead r slot = fractionVoted r slot KindSyncMessage"

definition FractionVotedACVote :: "Recorder \<Rightarrow> int \<Rightarrow> rat" where
  "FractionVotedACVote r slot = fractionVoted r slot KindACVote"

definition FractionVotedPTC :: "Recorder \<Rightarrow> int \<Rightarrow> rat" where
  "FractionVotedPTC r slot = fractionVoted r slot KindPTCVote"

text \<open>The slot's proposer: the origin of its first legacy block the \<open>range\<close> meets, \<open>-1\<close> if there is none.\<close>

definition slot_proposer :: "Recorder \<Rightarrow> int \<Rightarrow> int" where
  "slot_proposer r slot =
     (case find (\<lambda>(ident, _). mid_kind ident = KindBlock \<and> id_slot (mid_ident ident) = slot) (mr_pub r) of
        None \<Rightarrow> -1
      | Some (ident, _) \<Rightarrow> id_origin (mid_ident ident))"

definition columns_arrived :: "Recorder \<Rightarrow> int \<Rightarrow> dur \<Rightarrow> int \<Rightarrow> int set" where
  "columns_arrived r slot due nd =
     set (map (\<lambda>a. id_subnet (mid_ident (arr_ID a)))
       (filter (\<lambda>a. mid_kind (arr_ID a) = KindColumn \<and> id_slot (mid_ident (arr_ID a)) = slot \<and>
                    arr_Delay a \<le> due \<and> arr_Node a = nd) (mr_arrivals r)))"

text \<open>\<open>custody\<close> is the map from nodes to their custody columns, in the order it is visited.\<close>

definition custody_complete :: "Recorder \<Rightarrow> int \<Rightarrow> dur \<Rightarrow> int \<times> int list \<Rightarrow> bool" where
  "custody_complete r slot due = (\<lambda>(nd, cols).
     nd = slot_proposer r slot \<or> list_all (\<lambda>c. c \<in> columns_arrived r slot due nd) cols)"

definition CustodyCompleteRate :: "Recorder \<Rightarrow> int \<Rightarrow> (int \<times> int list) list \<Rightarrow> dur \<Rightarrow> rat" where
  "CustodyCompleteRate r slot custody due =
     (let custodiers = filter (\<lambda>(nd, cols). cols \<noteq> []) custody
      in rate (length (filter (custody_complete r slot due) custodiers)) (length custodiers))"

definition finality_votes :: "Recorder \<Rightarrow> int \<Rightarrow> int \<Rightarrow> MsgID list" where
  "finality_votes r fslot subnet =
     filter (\<lambda>ident. mid_kind ident = KindFinalityVote \<and> id_slot (mid_ident ident) = fslot \<and>
                     id_subnet (mid_ident ident) = subnet) (map fst (mr_pub r))"

definition vote_arrived :: "Recorder \<Rightarrow> int \<Rightarrow> int \<Rightarrow> int list \<Rightarrow> dur \<Rightarrow> int \<Rightarrow> int \<Rightarrow> int \<Rightarrow> bool" where
  "vote_arrived r fslot subnet aggregators due val origin agg \<longleftrightarrow>
     (\<exists>a \<in> set (mr_arrivals r). mid_kind (arr_ID a) = KindFinalityVote \<and>
        id_slot (mid_ident (arr_ID a)) = fslot \<and> id_subnet (mid_ident (arr_ID a)) = subnet \<and>
        arr_Node a \<in> set aggregators \<and> arr_Delay a \<le> due \<and>
        id_attester (mid_ident (arr_ID a)) = val \<and> id_origin (mid_ident (arr_ID a)) = origin \<and> arr_Node a = agg)"

definition coverage_pairs :: "Recorder \<Rightarrow> int \<Rightarrow> int \<Rightarrow> int list \<Rightarrow> (MsgID \<times> int) list" where
  "coverage_pairs r fslot subnet aggregators =
     concat (map (\<lambda>v. map (\<lambda>agg. (v, agg)) (filter (\<lambda>agg. agg \<noteq> id_origin (mid_ident v)) aggregators))
       (finality_votes r fslot subnet))"

definition FinalityCoverageAtDeadline :: "Recorder \<Rightarrow> int \<Rightarrow> int \<Rightarrow> int list \<Rightarrow> dur \<Rightarrow> rat" where
  "FinalityCoverageAtDeadline r fslot subnet aggregators due =
     (let pairs = coverage_pairs r fslot subnet aggregators in
      rate (length (filter (\<lambda>(v, agg). vote_arrived r fslot subnet aggregators due
              (id_attester (mid_ident v)) (id_origin (mid_ident v)) agg) pairs)) (length pairs))"

section \<open>Rows\<close>

fun kind_num :: "Kind \<Rightarrow> int" where
  "kind_num KindBlock = 1"
| "kind_num KindAttestation = 2"
| "kind_num KindAggregate = 3"
| "kind_num KindColumn = 4"
| "kind_num KindSyncMessage = 5"
| "kind_num KindSyncContribution = 6"
| "kind_num KindACVote = 7"
| "kind_num KindFinalityVote = 8"
| "kind_num KindFinalityAggregate = 9"
| "kind_num KindConsensusBlock = 10"
| "kind_num KindExecutionPayload = 11"
| "kind_num KindPTCVote = 12"

definition Milliseconds :: "dur \<Rightarrow> int" where
  "Milliseconds d = go_div d 1000000"

definition csv_header :: "string list" where
  "csv_header = [''node'', ''slot'', ''kind'', ''subnet'', ''attester'', ''delay_ms'', ''voted_block'']"

definition csv_row :: "Arrival \<Rightarrow> string list" where
  "csv_row a =
     [fmt_d (arr_Node a), fmt_d (id_slot (mid_ident (arr_ID a))), fmt_d (kind_num (mid_kind (arr_ID a))),
      fmt_d (id_subnet (mid_ident (arr_ID a))), fmt_d (id_attester (mid_ident (arr_ID a))),
      fmt_d (Milliseconds (arr_Delay a)), if arr_VotedBlock a then ''true'' else ''false'']"

text \<open>The rows handed to the CSV writer, in order.\<close>

definition WriteCSV :: "Recorder \<Rightarrow> string list list" where
  "WriteCSV r = csv_header # map csv_row (mr_arrivals r)"

text \<open>One structured log record: its message and its attributes, in order.\<close>

datatype log_value = LInt int | LBool bool

definition SlogTracer_OnPublish :: "MsgID \<Rightarrow> bool \<Rightarrow> instant \<Rightarrow> string \<times> (string \<times> log_value) list" where
  "SlogTracer_OnPublish ident vote t =
     (''publish'', [(''kind'', LInt (kind_num (mid_kind ident))), (''slot'', LInt (id_slot (mid_ident ident))),
        (''subnet'', LInt (id_subnet (mid_ident ident))), (''attester'', LInt (id_attester (mid_ident ident))),
        (''origin'', LInt (id_origin (mid_ident ident))), (''voted_block'', LBool vote), (''t_ns'', LInt t)])"

definition SlogTracer_OnReceive :: "int \<Rightarrow> MsgID \<Rightarrow> instant \<Rightarrow> string \<times> (string \<times> log_value) list" where
  "SlogTracer_OnReceive rcv ident t =
     (''arrival'', [(''node'', LInt rcv), (''kind'', LInt (kind_num (mid_kind ident))),
        (''slot'', LInt (id_slot (mid_ident ident))),
        (''subnet'', LInt (id_subnet (mid_ident ident))), (''attester'', LInt (id_attester (mid_ident ident))),
        (''origin'', LInt (id_origin (mid_ident ident))), (''t_ns'', LInt t)])"

section \<open>Percentiles\<close>

definition percentile_rank :: "nat \<Rightarrow> nat \<Rightarrow> nat" where
  "percentile_rank n p = max ((p * n + 99) div 100) 1"

definition percentile :: "dur list \<Rightarrow> nat \<Rightarrow> dur" where
  "percentile ds p = (if ds = [] then 0 else ds ! (percentile_rank (length ds) p - 1))"

record Summary =
  sm_Count :: nat
  sm_P50 :: dur
  sm_P90 :: dur
  sm_P99 :: dur
  sm_P100 :: dur

definition Summarize :: "dur list \<Rightarrow> Summary" where
  "Summarize delays =
     (let ds = sort delays in
      \<lparr>sm_Count = length ds, sm_P50 = percentile ds 50, sm_P90 = percentile ds 90,
       sm_P99 = percentile ds 99, sm_P100 = percentile ds 100\<rparr>)"

end
