(* ===== verification/MetricsProps.thy ===== *)
theory MetricsProps
  imports Metrics Publishing
begin

text \<open>What the metrics of a run say about it: the arrivals, the rates, the percentiles, the log.\<close>

section \<open>Arrivals\<close>

datatype trace_event = TPublish MsgID bool instant | TReceive int MsgID instant

fun record_event :: "Recorder \<Rightarrow> trace_event \<Rightarrow> Recorder" where
  "record_event r (TPublish ident vote t) = Recorder_OnPublish r ident vote t"
| "record_event r (TReceive rcv ident t) = Recorder_OnReceive r rcv ident t"

definition record_all :: "trace_event list \<Rightarrow> Recorder" where
  "record_all es = foldl record_event NewRecorder es"

text \<open>The reference: the last publish of an identity before a receive decides what it records.\<close>

fun last_publish :: "MsgID \<Rightarrow> trace_event list \<Rightarrow> pubRec option" where
  "last_publish ident [] = None"
| "last_publish ident (e # es) =
     (case last_publish ident es of
        Some p \<Rightarrow> Some p
      | None \<Rightarrow> (case e of TPublish j vote t \<Rightarrow> if j = ident then Some \<lparr>pr_at = t, pr_voted = vote\<rparr> else None
                          | _ \<Rightarrow> None))"

definition arrival_of :: "trace_event list \<Rightarrow> nat \<Rightarrow> Arrival list" where
  "arrival_of es i =
     (case es ! i of
        TPublish _ _ _ \<Rightarrow> []
      | TReceive rcv ident t \<Rightarrow>
          (case last_publish ident (take i es) of
             None \<Rightarrow> []
           | Some p \<Rightarrow> [\<lparr>arr_Node = rcv, arr_ID = ident, arr_Delay = t - pr_at p, arr_VotedBlock = pr_voted p\<rparr>]))"

fun is_receive :: "trace_event \<Rightarrow> bool" where
  "is_receive (TReceive _ _ _) \<longleftrightarrow> True"
| "is_receive (TPublish _ _ _) \<longleftrightarrow> False"

lemma map_of_set_pub [simp]: "map_of (set_pub k p xs) = (map_of xs)(k \<mapsto> p)"
  by (induction k p xs rule: set_pub.induct) (auto simp: fun_eq_iff)

lemma set_pub_keys: "fst ` set (set_pub k p xs) = insert k (fst ` set xs)"
  by (induction k p xs rule: set_pub.induct) auto

lemma distinct_set_pub: "distinct (map fst xs) \<Longrightarrow> distinct (map fst (set_pub k p xs))"
  by (induction k p xs rule: set_pub.induct) (simp_all add: set_pub_keys, blast)

lemma last_publish_append:
  "last_publish ident (xs @ ys) = (case last_publish ident ys of None \<Rightarrow> last_publish ident xs | Some p \<Rightarrow> Some p)"
  by (induction xs) (auto split: option.split)

lemma record_all_snoc: "record_all (es @ [e]) = record_event (record_all es) e"
  by (simp add: record_all_def)

lemma record_all_pub: "map_of (mr_pub (record_all es)) ident = last_publish ident es"
proof (induction es rule: rev_induct)
  case (snoc e es)
  then show ?case
    by (cases e) (auto simp: record_all_snoc last_publish_append Recorder_OnPublish_def Recorder_OnReceive_def
        split: option.split)
qed (simp add: record_all_def NewRecorder_def)

lemma arrival_of_append: "i < length es \<Longrightarrow> arrival_of (es @ ys) i = arrival_of es i"
proof -
  assume "i < length es"
  then have "take i (es @ ys) = take i es" "(es @ ys) ! i = es ! i" by (simp_all add: nth_append)
  then show ?thesis by (simp only: arrival_of_def)
qed

text \<open>
  C26: every receive is accounted for, against the publish it belongs to.  Over any sequence of
  publishes and receives the arrivals are, in order, the receives whose message was published before,
  each with the delay and the vote of its last publish, and the orphans are all the others.
\<close>

theorem arrivals_exact:
  "mr_arrivals (record_all es) = concat (map (arrival_of es) [0..<length es]) \<and>
   length (mr_arrivals (record_all es)) + mr_orphans (record_all es) = length (filter is_receive es)"
proof (induction es rule: rev_induct)
  case (snoc e es)
  let ?r = "record_all es"
  have same: "map (arrival_of (es @ [e])) [0..<length es] = map (arrival_of es) [0..<length es]"
    by (rule map_cong [OF refl]) (simp add: arrival_of_append)
  have "concat (map (arrival_of (es @ [e])) [0..<length es]) = mr_arrivals ?r" unfolding same using snoc by simp
  moreover have "mr_arrivals (record_event ?r e) = mr_arrivals ?r @ arrival_of (es @ [e]) (length es)"
    by (cases e) (auto simp: arrival_of_def Recorder_OnPublish_def Recorder_OnReceive_def record_all_pub split: option.split)
  moreover have "length (mr_arrivals (record_event ?r e)) + mr_orphans (record_event ?r e) =
      length (filter is_receive (es @ [e]))"
    using snoc by (cases e) (auto simp: Recorder_OnPublish_def Recorder_OnReceive_def split: option.split)
  ultimately show ?case by (simp add: record_all_snoc del: filter_append)
qed (simp add: record_all_def NewRecorder_def)

section \<open>Rates\<close>

definition counted :: "int \<Rightarrow> Kind \<Rightarrow> MsgID \<times> pubRec \<Rightarrow> bool" where
  "counted slot kind e \<longleftrightarrow> mid_kind (fst e) = kind \<and> id_slot (mid_ident (fst e)) = slot"

lemma count_votes_eq:
  "count_votes slot kind xs (t, v) =
     (t + length (filter (counted slot kind) xs), v + length (filter (\<lambda>e. counted slot kind e \<and> pr_voted (snd e)) xs))"
  by (induction slot kind xs "(t, v)" arbitrary: t v rule: count_votes.induct) (auto simp: counted_def)

lemma record_all_keys: "distinct (map fst (mr_pub (record_all es)))"
proof (induction es rule: rev_induct)
  case (snoc e es)
  then show ?case
    by (cases e) (auto simp: record_all_snoc Recorder_OnPublish_def Recorder_OnReceive_def distinct_set_pub split: option.split)
qed (simp add: record_all_def NewRecorder_def)

lemma length_filter_card:
  assumes "distinct (map fst xs)"
  shows "length (filter P xs) = card {k. \<exists>p. map_of xs k = Some p \<and> P (k, p)}"
proof -
  have "length (filter P xs) = card (fst ` set (filter P xs))"
    using assms distinct_card [of "map fst (filter P xs)"] by (simp add: distinct_map_filter)
  also have "fst ` set (filter P xs) = {k. \<exists>p. map_of xs k = Some p \<and> P (k, p)}"
    using assms by (force simp: image_iff)
  finally show ?thesis .
qed

text \<open>
  The fraction of votes for the block is what its name says.  After any run it is the share, among
  the distinct messages of the kind published for the slot, of those whose last publish carried the
  vote, and 0 when none was published; it does not depend on the order the entries are visited in.
\<close>

theorem fractionVoted_exact:
  "fractionVoted (record_all es) slot kind =
     rate (card {m. \<exists>p. last_publish m es = Some p \<and> pr_voted p \<and> mid_kind m = kind \<and> id_slot (mid_ident m) = slot})
          (card {m. last_publish m es \<noteq> None \<and> mid_kind m = kind \<and> id_slot (mid_ident m) = slot})"
proof -
  let ?xs = "mr_pub (record_all es)"
  have "length (filter (counted slot kind) ?xs) =
      card {m. last_publish m es \<noteq> None \<and> mid_kind m = kind \<and> id_slot (mid_ident m) = slot}"
    unfolding length_filter_card [OF record_all_keys] record_all_pub counted_def by (rule arg_cong [of _ _ card]) auto
  moreover have "length (filter (\<lambda>e. counted slot kind e \<and> pr_voted (snd e)) ?xs) =
      card {m. \<exists>p. last_publish m es = Some p \<and> pr_voted p \<and> mid_kind m = kind \<and> id_slot (mid_ident m) = slot}"
    unfolding length_filter_card [OF record_all_keys] record_all_pub counted_def by (rule arg_cong [of _ _ card]) auto
  ultimately show ?thesis by (simp add: fractionVoted_def count_votes_eq)
qed

text \<open>Every rate lies between 0 and 1, and is 1 exactly if nothing is missing.\<close>

lemma rate_bounds: "part \<le> whole \<Longrightarrow> 0 \<le> rate part whole \<and> rate part whole \<le> 1"
  by (auto simp: rate_def)

lemma rate_1: "part \<le> whole \<Longrightarrow> rate part whole = 1 \<longleftrightarrow> whole \<noteq> 0 \<and> part = whole"
  by (auto simp: rate_def)

lemma length_filter_all: "length (filter P xs) = length xs \<longleftrightarrow> (\<forall>x \<in> set xs. P x)"
  by (induction xs) (auto, metis Suc_n_not_le_n length_filter_le)

text \<open>
  Full coverage means what the report reads into it.  The finality coverage of a subnet lies
  between 0 and 1 and is 1 exactly when there is a vote an aggregator is expected to receive and every
  published vote of the subnet reached every aggregator other than its publisher by the deadline.
\<close>

theorem FinalityCoverage_full_iff:
  "0 \<le> FinalityCoverageAtDeadline r fslot subnet aggs due \<and> FinalityCoverageAtDeadline r fslot subnet aggs due \<le> 1 \<and>
   (FinalityCoverageAtDeadline r fslot subnet aggs due = 1 \<longleftrightarrow>
      (\<exists>v \<in> set (finality_votes r fslot subnet). \<exists>g \<in> set aggs. g \<noteq> id_origin (mid_ident v)) \<and>
      (\<forall>v \<in> set (finality_votes r fslot subnet). \<forall>g \<in> set aggs. g = id_origin (mid_ident v) \<or>
         (\<exists>a \<in> set (mr_arrivals r). arr_Node a = g \<and> arr_Delay a \<le> due \<and> mid_kind (arr_ID a) = KindFinalityVote \<and>
            id_slot (mid_ident (arr_ID a)) = fslot \<and> id_subnet (mid_ident (arr_ID a)) = subnet \<and>
            id_attester (mid_ident (arr_ID a)) = id_attester (mid_ident v) \<and>
            id_origin (mid_ident (arr_ID a)) = id_origin (mid_ident v))))"
proof -
  let ?ps = "coverage_pairs r fslot subnet aggs"
  let ?ok = "\<lambda>(v, g). vote_arrived r fslot subnet aggs due (id_attester (mid_ident v)) (id_origin (mid_ident v)) g"
  have cov: "FinalityCoverageAtDeadline r fslot subnet aggs due = rate (length (filter ?ok ?ps)) (length ?ps)"
    by (simp add: FinalityCoverageAtDeadline_def Let_def)
  have set: "(v, g) \<in> set ?ps \<longleftrightarrow> v \<in> set (finality_votes r fslot subnet) \<and> g \<in> set aggs \<and> g \<noteq> id_origin (mid_ident v)" for v g
    by (auto simp: coverage_pairs_def)
  have "length ?ps \<noteq> 0 \<longleftrightarrow> (\<exists>v \<in> set (finality_votes r fslot subnet). \<exists>g \<in> set aggs. g \<noteq> id_origin (mid_ident v))"
    using set by (metis length_0_conv list.set_intros(1) list.set(1) empty_iff neq_Nil_conv surj_pair)
  moreover have "length (filter ?ok ?ps) = length ?ps \<longleftrightarrow>
      (\<forall>v \<in> set (finality_votes r fslot subnet). \<forall>g \<in> set aggs. g = id_origin (mid_ident v) \<or>
         vote_arrived r fslot subnet aggs due (id_attester (mid_ident v)) (id_origin (mid_ident v)) g)"
  proof -
    have "(\<forall>x \<in> set ?ps. ?ok x) \<longleftrightarrow> (\<forall>v g. (v, g) \<in> set ?ps \<longrightarrow>
        vote_arrived r fslot subnet aggs due (id_attester (mid_ident v)) (id_origin (mid_ident v)) g)" by auto
    then show ?thesis unfolding length_filter_all set by blast
  qed
  ultimately show ?thesis
    using rate_bounds [OF length_filter_le, of ?ok ?ps] rate_1 [OF length_filter_le, of ?ok ?ps]
    unfolding cov vote_arrived_def by blast
qed

theorem FinalityCoverage_full_iff_witness:
  "FinalityCoverageAtDeadline (record_all [TPublish (FinalityVoteID 2 1 9 4) True 100, TReceive 5 (FinalityVoteID 2 1 9 4) 130])
     2 1 [4, 5] 30 = 1"
proof -
  let ?r = "record_all [TPublish (FinalityVoteID 2 1 9 4) True 100, TReceive 5 (FinalityVoteID 2 1 9 4) 130]"
  have "finality_votes ?r 2 1 = [FinalityVoteID 2 1 9 4]"
    "mr_arrivals ?r = [\<lparr>arr_Node = 5, arr_ID = FinalityVoteID 2 1 9 4, arr_Delay = 30, arr_VotedBlock = True\<rparr>]" by code_simp+
  then show ?thesis
    using FinalityCoverage_full_iff [of ?r 2 1 "[4, 5]" 30] by (simp add: msgid_defs mkMsgID_def mkIdentity_def)
qed

section \<open>Percentiles\<close>

lemma ceil_rank:
  assumes "m \<le> 100 * n" and "0 < (n::nat)"
  shows "max ((m + 99) div 100) 1 \<le> n" "m \<le> 100 * max ((m + 99) div 100) 1"
    "0 < m \<Longrightarrow> 100 * (max ((m + 99) div 100) 1 - 1) < m"
proof -
  define q where "q = (m + 99) div 100"
  have "100 * q + (m + 99) mod 100 = m + 99" "(m + 99) mod 100 < 100" unfolding q_def by simp_all
  then have q: "100 * q \<le> m + 99" "m < 100 * q + 1" by linarith+
  then have "q \<le> n" using assms by linarith
  then show "max ((m + 99) div 100) 1 \<le> n" "m \<le> 100 * max ((m + 99) div 100) 1"
    using assms q unfolding q_def [symmetric] by linarith+
  assume "0 < m"
  then show "100 * (max ((m + 99) div 100) 1 - 1) < m" using q unfolding q_def [symmetric] by linarith
qed

lemma percentile_rank_bounds:
  assumes "0 < n" and "p \<le> 100"
  shows "1 \<le> percentile_rank n p" "percentile_rank n p \<le> n"
    and "p * n \<le> 100 * percentile_rank n p" and "0 < p \<Longrightarrow> 100 * (percentile_rank n p - 1) < p * n"
  unfolding percentile_rank_def using ceil_rank [of "p * n" n] assms by simp_all

text \<open>
  A percentile is the nearest-rank one.  For a non-empty sample, the \<open>p\<close>-th percentile of the
  summary's sorted copy is the least sample such that at least \<open>p\<close> percent of the samples are at most it.
\<close>

theorem percentile_nearest_rank:
  assumes "delays \<noteq> []" and "0 < p" and "p \<le> 100"
  defines "x \<equiv> percentile (sort delays) p"
  shows "x \<in> set delays \<and> p * length delays \<le> 100 * length (filter (\<lambda>d. d \<le> x) delays) \<and>
    (\<forall>y < x. 100 * length (filter (\<lambda>d. d \<le> y) delays) < p * length delays)"
proof -
  let ?s = "sort delays" and ?k = "percentile_rank (length delays) p"
  have k: "1 \<le> ?k" "?k \<le> length delays" "p * length delays \<le> 100 * ?k" "100 * (?k - 1) < p * length delays"
    using percentile_rank_bounds [of "length delays" p] assms(1-3) by simp_all
  have "?s \<noteq> []" using assms(1) by (metis length_0_conv length_sort)
  then have x: "x = ?s ! (?k - 1)" by (simp add: x_def percentile_def)
  have cnt: "length (filter (\<lambda>d. d \<le> y) delays) = length (filter (\<lambda>d. d \<le> y) ?s)" for y
    by (metis filter_sort length_sort)
  have "?s = take ?k ?s @ drop ?k ?s" by simp
  have "\<forall>d \<in> set (take ?k ?s). d \<le> x"
  proof
    fix d assume "d \<in> set (take ?k ?s)"
    then obtain i where i: "i < ?k" "i < length ?s" "d = ?s ! i" by (auto simp: in_set_conv_nth)
    then have "i \<le> ?k - 1" "?k - 1 < length ?s" using k(1,2) by simp_all
    then show "d \<le> x" unfolding x i(3) by (rule sorted_nth_mono [OF sorted_sort])
  qed
  then have "filter (\<lambda>d. d \<le> x) (take ?k ?s) = take ?k ?s" by (simp add: filter_id_conv)
  then have "?k \<le> length (filter (\<lambda>d. d \<le> x) ?s)"
    using k(2) by (metis append_take_drop_id filter_append length_append length_sort length_take le_add1 min_absorb2)
  moreover have "length (filter (\<lambda>d. d \<le> y) ?s) \<le> ?k - 1" if "y < x" for y
  proof -
    have "\<forall>d \<in> set (drop (?k - 1) ?s). \<not> d \<le> y"
    proof
      fix d assume "d \<in> set (drop (?k - 1) ?s)"
      then obtain i where i: "i < length ?s - (?k - 1)" "d = ?s ! (?k - 1 + i)" by (auto simp: in_set_conv_nth)
      then have "?k - 1 + i < length ?s" by linarith
      then have "x \<le> d" unfolding x i(2) by (intro sorted_nth_mono) simp_all
      then show "\<not> d \<le> y" using that by simp
    qed
    then have "filter (\<lambda>d. d \<le> y) (drop (?k - 1) ?s) = []" by (simp add: filter_empty_conv)
    then have "filter (\<lambda>d. d \<le> y) ?s = filter (\<lambda>d. d \<le> y) (take (?k - 1) ?s)"
      by (metis append_Nil2 append_take_drop_id filter_append)
    then show ?thesis by (metis length_filter_le length_take min.coboundedI2 min.commute le_trans min.cobounded2)
  qed
  moreover have "x \<in> set delays" using k unfolding x by (metis One_nat_def Suc_le_eq Suc_pred length_sort nth_mem set_sort)
  ultimately show ?thesis using k(3,4) unfolding cnt by (fastforce intro: le_less_trans)
qed

theorem percentile_nearest_rank_witness:
  "percentile (sort [40, 10, 30, 20]) 50 \<in> set [40, 10, 30, 20]"
  by (rule conjunct1 [OF percentile_nearest_rank]) simp_all

section \<open>The runner's trace\<close>

fun trace_of :: "effect \<Rightarrow> trace_event list" where
  "trace_of (OnPublish ident vote t) = [TPublish ident vote t]"
| "trace_of (OnReceive rcv ident t) = [TReceive rcv ident t]"
| "trace_of _ = []"

definition trace :: "effect list \<Rightarrow> trace_event list" where
  "trace es = concat (map trace_of es)"

lemma trace_Nil [simp]: "trace [] = []"
  by (simp add: trace_def)

lemma trace_Cons: "trace (e # es) = trace_of e @ trace es"
  by (simp add: trace_def)

lemma trace_append [simp]: "trace (xs @ ys) = trace xs @ trace ys"
  by (simp add: trace_def)

lemma trace_concat: "trace (concat (map f xs)) = concat (map (\<lambda>x. trace (f x)) xs)"
  by (induction xs) (simp_all add: trace_def)

lemma trace_bursts:
  "trace (concat (map (\<lambda>d. [OnPublish (i d) (v d) (t d), Publish (topic d) (data d)]) ds)) = map (\<lambda>d. TPublish (i d) (v d) (t d)) ds"
  by (induction ds) (simp_all add: trace_def)

lemma trace_quiet: "(\<And>e. e \<in> set es \<Longrightarrow> quiet e) \<Longrightarrow> trace es = []"
proof (induction es)
  case (Cons e es)
  then have "quiet e" "trace es = []" by simp_all
  then show ?case by (cases e) (simp_all add: trace_def)
qed (simp add: trace_def)

lemma last_publish_Some: "last_publish m es = Some p \<Longrightarrow> TPublish m (pr_voted p) (pr_at p) \<in> set es"
  by (induction es) (auto split: option.splits trace_event.splits if_splits)

lemma last_publish_None: "last_publish m es = None \<longleftrightarrow> (\<forall>v t. TPublish m v t \<notin> set es)"
proof (induction es)
  case (Cons e es)
  then show ?case by (cases e) (auto split: option.split)
qed simp

text \<open>A run of publishes of different messages is recorded as it is.\<close>

lemma set_pub_new: "k \<notin> fst ` set xs \<Longrightarrow> set_pub k p xs = xs @ [(k, p)]"
  by (induction k p xs rule: set_pub.induct) auto

lemma record_all_publishes:
  assumes "distinct (map fst ps)"
  shows "mr_pub (record_all (map (\<lambda>(m, v, t). TPublish m v t) ps)) =
    map (\<lambda>(m, v, t). (m, \<lparr>pr_at = t, pr_voted = v\<rparr>)) ps"
  using assms
proof (induction ps rule: rev_induct)
  case (snoc q ps)
  obtain m v t where q: "q = (m, v, t)" by (cases q) auto
  have "m \<notin> fst ` set (map (\<lambda>(m, v, t). (m, \<lparr>pr_at = t, pr_voted = v\<rparr>)) ps)"
    using snoc.prems by (force simp: q)
  with snoc show ?case by (simp add: q record_all_snoc Recorder_OnPublish_def set_pub_new)
qed (simp add: record_all_def NewRecorder_def)

text \<open>
  C33: the headline number reports the decisions.  If the nodes of a fleet, with pairwise different
  voters, emit their availability votes of a slot, the reported fraction is the share of the voters
  whose node decided for the slot's block.
\<close>

theorem ac_fraction_reports_decisions:
  fixes fleet :: "(NodeRunner \<times> slotState) list"
  assumes "distinct (concat (map (\<lambda>(r, ss). map acd_Val (acVoteDuties ss)) fleet))"
  shows "FractionVotedACVote (record_all (trace (concat (map (\<lambda>(r, ss). emitACVote C r slot ss t) fleet)))) slot =
    rate (sum_list (map (\<lambda>(r, ss). if votedForSlotBlock ss then length (acVoteDuties ss) else 0) fleet))
         (sum_list (map (\<lambda>(r, ss). length (acVoteDuties ss)) fleet))"
proof -
  define row :: "NodeRunner \<times> slotState \<Rightarrow> _" where "row = (\<lambda>(r, ss). map (\<lambda>d. (ACVoteID slot (acd_Val d) (r_num r), votedForSlotBlock ss, t)) (acVoteDuties ss))"
  let ?ps = "concat (map row fleet)"
  have one: "trace (emitACVote C r slot ss t) = map (\<lambda>(m, v, t). TPublish m v t) (row (r, ss))" for r ss
    unfolding emitACVote_def Let_def row_def by (simp add: trace_bursts comp_def)
  have tr: "trace (concat (map (\<lambda>(r, ss). emitACVote C r slot ss t) fleet)) = map (\<lambda>(m, v, t). TPublish m v t) ?ps"
    by (induction fleet) (auto simp: one)
  have val: "map (\<lambda>q. id_attester (mid_ident (fst q))) ?ps = concat (map (\<lambda>(r, ss). map acd_Val (acVoteDuties ss)) fleet)"
    by (induction fleet) (auto simp: row_def msgid_defs mkMsgID_def mkIdentity_def comp_def)
  have "map (\<lambda>q. id_attester (mid_ident (fst q))) ?ps = map (\<lambda>m. id_attester (mid_ident m)) (map fst ?ps)" by simp
  then have "distinct (map fst ?ps)" using assms val by (metis distinct_map)
  note pub = record_all_publishes [OF this]
  let ?es = "map (\<lambda>(m, v, t). (m, \<lparr>pr_at = t, pr_voted = v\<rparr>)) ?ps"
  have all: "\<forall>e \<in> set ?es. counted slot KindACVote e"
    by (auto simp: row_def counted_def msgid_defs mkMsgID_def mkIdentity_def)
  have "filter (counted slot KindACVote) ?es = ?es" using all by (simp add: filter_id_conv)
  moreover have "filter (\<lambda>e. counted slot KindACVote e \<and> pr_voted (snd e)) ?es = filter (\<lambda>e. pr_voted (snd e)) ?es"
    using all by (intro filter_cong) auto
  moreover have "length ?es = sum_list (map (\<lambda>(r, ss). length (acVoteDuties ss)) fleet)"
    by (induction fleet) (auto simp: row_def)
  moreover have "length (filter (\<lambda>e. pr_voted (snd e)) ?es) =
      sum_list (map (\<lambda>(r, ss). if votedForSlotBlock ss then length (acVoteDuties ss) else 0) fleet)"
    by (induction fleet) (auto simp: row_def filter_map comp_def)
  ultimately show ?thesis unfolding tr by (simp add: FractionVotedACVote_def fractionVoted_def count_votes_eq pub)
qed

theorem ac_fraction_reports_decisions_witness:
  "\<forall>C (r :: NodeRunner). FractionVotedACVote (record_all (trace (concat (map (\<lambda>(r, ss). emitACVote C r 3 ss 7)
     [(r, new_slotState 0\<lparr>acVoteDuties := [\<lparr>acd_Val = 1\<rparr>, \<lparr>acd_Val = 4\<rparr>], votedForSlotBlock := True\<rparr>),
      (r, new_slotState 0\<lparr>acVoteDuties := [\<lparr>acd_Val = 2\<rparr>]\<rparr>)])))) 3 = 2 / 3"
proof (intro allI)
  fix C and r :: NodeRunner
  let ?fleet = "[(r, new_slotState 0\<lparr>acVoteDuties := [\<lparr>acd_Val = 1\<rparr>, \<lparr>acd_Val = 4\<rparr>], votedForSlotBlock := True\<rparr>),
      (r, new_slotState 0\<lparr>acVoteDuties := [\<lparr>acd_Val = 2\<rparr>]\<rparr>)]"
  have "distinct (concat (map (\<lambda>(r, ss). map acd_Val (acVoteDuties ss)) ?fleet))" by (simp add: new_slotState_def)
  from ac_fraction_reports_decisions [OF this, of C 3 7]
  show "FractionVotedACVote (record_all (trace (concat (map (\<lambda>(r, ss). emitACVote C r 3 ss 7) ?fleet)))) 3 = 2 / 3"
    by (simp add: new_slotState_def rate_def)
qed

section \<open>Custody\<close>

lemma trace_marks: "trace (snd (markColumnsComplete r slot t)) = []" "trace (snd (onPayloadProcessed r slot t)) = []"
  "trace (snd (markCustodyHeld r slot)) = []" "trace (snd (onBlockProcessed r now slot origin t)) = []"
  by (rule trace_quiet, simp_all add: quiet_marks onBlockProcessed_quiet)+

lemma trace_columns:
  "trace (burst_columns C r slot t) = map (\<lambda>c. TPublish (ColumnID slot c (r_num r)) False t) [0..v_NumColumns (r_view r) - 1]"
  unfolding burst_columns_def Let_def by (rule trace_bursts)

lemma record_publishes_arrivals: "mr_arrivals (record_all (map (\<lambda>(m, v, t). TPublish m v t) ps)) = []"
  by (induction ps rule: rev_induct)
    (auto simp: record_all_snoc Recorder_OnPublish_def record_all_def NewRecorder_def)

definition column_publishes :: "NodeRunner \<Rightarrow> int \<Rightarrow> instant \<Rightarrow> (MsgID \<times> bool \<times> instant) list" where
  "column_publishes r slot t = map (\<lambda>c. (ColumnID slot c (r_num r), False, t)) [0..v_NumColumns (r_view r) - 1]"

lemma publishBlock_trace:
  "trace (snd (publishBlock C r t msg)) =
     map (\<lambda>(m, v, t). TPublish m v t) ((BlockID (Slot msg) (r_num r), False, t) # column_publishes r (Slot msg) t)"
  by (simp add: publishBlock_def Let_def split_beta trace_marks trace_columns quiet_marks column_publishes_def comp_def trace_Cons)

lemma epbs_trace:
  "trace (snd (publishConsensusBlock C r ep t slot) @ snd (publishExecutionPayload C r' u slot)) =
     map (\<lambda>(m, v, t). TPublish m v t)
       ((ConsensusBlockID slot (r_num r), False, t) # (ExecutionPayloadID slot (r_num r'), False, u) # column_publishes r' slot u)"
  by (simp add: publishConsensusBlock_def publishExecutionPayload_def Let_def split_beta trace_marks trace_columns
      quiet_marks column_publishes_def comp_def trace_Cons)

lemma slot_proposer_none:
  assumes "\<forall>e \<in> set (mr_pub rec). mid_kind (fst e) \<noteq> KindBlock"
  shows "slot_proposer rec slot = -1"
proof -
  have "find (\<lambda>(ident, _). mid_kind ident = KindBlock \<and> id_slot (mid_ident ident) = slot) xs = None"
    if "\<forall>e \<in> set xs. mid_kind (fst e) \<noteq> KindBlock" for xs :: "(MsgID \<times> pubRec) list"
    using that by (induction xs) auto
  from this [OF assms] show ?thesis by (simp only: slot_proposer_def option.case)
qed

lemma kinds_of_ids:
  "mid_kind (BlockID slot n) = KindBlock" "mid_kind (ConsensusBlockID slot n) = KindConsensusBlock"
  "mid_kind (ExecutionPayloadID slot n) = KindExecutionPayload" "mid_kind (ColumnID slot c n) = KindColumn"
  by (simp_all add: msgid_defs mkMsgID_def)

lemma column_publishes_ids:
  "distinct (map fst (column_publishes r slot t))"
  "mid_kind m \<noteq> KindColumn \<Longrightarrow> m \<notin> fst ` set (column_publishes r slot t)"
  by (auto simp: column_publishes_def comp_def distinct_map inj_on_def msgid_defs mkMsgID_def mkIdentity_def)

text \<open>
  C39: who counts as the slot's proposer.  The node that ran the legacy publish is the proposer of the
  slot and counts as holding its custody without an arrival; the node that ran both ePBS publishes,
  columns included, is not recognised, and counts as missing its custody.
\<close>

theorem epbs_proposer_not_counted:
  assumes "0 \<le> r_num r"
  shows "CustodyCompleteRate (record_all (trace (snd (publishBlock C r t msg)))) (Slot msg) [(r_num r, c # cs)] due = 1 \<and>
    CustodyCompleteRate (record_all (trace (snd (publishConsensusBlock C r ep t slot) @
      snd (publishExecutionPayload C (fst (publishConsensusBlock C r ep t slot)) u slot)))) slot [(r_num r, c # cs)] due = 0"
proof
  let ?legacy = "(BlockID (Slot msg) (r_num r), False, t) # column_publishes r (Slot msg) t"
  have "distinct (map fst ?legacy)" by (simp add: column_publishes_ids kinds_of_ids)
  note pub = record_all_publishes [OF this]
  show "CustodyCompleteRate (record_all (trace (snd (publishBlock C r t msg)))) (Slot msg) [(r_num r, c # cs)] due = 1"
    unfolding publishBlock_trace CustodyCompleteRate_def custody_complete_def slot_proposer_def pub
    by (simp add: msgid_defs mkMsgID_def mkIdentity_def rate_def)
next
  define r' where "r' = fst (publishConsensusBlock C r ep t slot)"
  have num: "r_num r' = r_num r"
    by (simp add: r'_def publishConsensusBlock_def Let_def split_beta onBlockProcessed_def on_slot_def split: option.split)
  let ?epbs = "(ConsensusBlockID slot (r_num r), False, t) # (ExecutionPayloadID slot (r_num r'), False, u) # column_publishes r' slot u"
  have "ConsensusBlockID slot (r_num r) \<noteq> ExecutionPayloadID slot (r_num r')"
    by (metis Kind.distinct kinds_of_ids(2,3))
  then have "distinct (map fst ?epbs)" by (simp add: column_publishes_ids kinds_of_ids)
  note pub = record_all_publishes [OF this]
  let ?log = "mr_pub (record_all (map (\<lambda>(m, v, t). TPublish m v t) ?epbs))"
  have "\<forall>e \<in> set ?log. mid_kind (fst e) \<noteq> KindBlock"
    unfolding pub by (auto simp: column_publishes_def kinds_of_ids)
  then have none: "slot_proposer (record_all (map (\<lambda>(m, v, t). TPublish m v t) ?epbs)) slot = -1"
    by (rule slot_proposer_none)
  show "CustodyCompleteRate (record_all (trace (snd (publishConsensusBlock C r ep t slot) @
      snd (publishExecutionPayload C (fst (publishConsensusBlock C r ep t slot)) u slot)))) slot [(r_num r, c # cs)] due = 0"
    unfolding r'_def [symmetric] epbs_trace CustodyCompleteRate_def custody_complete_def none columns_arrived_def
      record_publishes_arrivals
    using assms by (simp add: rate_def)
qed

theorem epbs_proposer_not_counted_witness:
  "\<forall>C ep r. CustodyCompleteRate (record_all (trace (snd (publishConsensusBlock C (r\<lparr>r_num := 4\<rparr>) ep 10 3) @
      snd (publishExecutionPayload C (fst (publishConsensusBlock C (r\<lparr>r_num := 4\<rparr>) ep 10 3)) 20 3)))) 3 [(4, [0, 1])] 50 = 0"
proof (intro allI)
  fix C ep and r :: NodeRunner
  show "CustodyCompleteRate (record_all (trace (snd (publishConsensusBlock C (r\<lparr>r_num := 4\<rparr>) ep 10 3) @
      snd (publishExecutionPayload C (fst (publishConsensusBlock C (r\<lparr>r_num := 4\<rparr>) ep 10 3)) 20 3)))) 3 [(4, [0, 1])] 50 = 0"
    using epbs_proposer_not_counted [where r = "r\<lparr>r_num := 4\<rparr>" and c = 0 and cs = "[1]"] by simp
qed

end
