(* ===== verification/PartialProps.thy ===== *)
theory PartialProps
  imports PartialSystem
begin

text \<open>
  What the partial transport guarantees (src/node/partial.go): the properties of the receive path,
  the verifier callback, the publish tick, sealing and pruning, over every reachable state of
  \<open>PartialSystem\<close>, and a concrete run on which they are evaluated.
\<close>

section \<open>A concrete run\<close>

text \<open>A committee of four; every RPC decodes to one batch with the votes of positions 1 and 3.\<close>

definition ex_resolver :: PartialResolver where
  "ex_resolver = \<lparr>res_CommitteeSize = (\<lambda>k s g. 4), res_Identity = (\<lambda>k s g p. (p + 10, p))\<rparr>"

definition ex_batch :: BatchedAttestation where
  "ex_batch = \<lparr>ba_AttestationData = [7], ba_AttestorIndices = [1, 3], ba_Signatures = [[1], [1]]\<rparr>"

definition ex_codec :: envelope_codec where
  "ex_codec = \<lparr>enc_ctrl = (\<lambda>mds. Some [1]), dec_ctrl = (\<lambda>bs. Some []),
     enc_data = (\<lambda>bs. Some [2]), dec_data = (\<lambda>bs. Some [ex_batch])\<rparr>"

definition ex_opts :: PartialOpts where
  "ex_opts = \<lparr>po_PublishInterval = 0, po_MaxPeersPerAttestation = 0, po_MaxIWantPerPosition = 0,
     po_DisableMetadataGossip = False, po_Seed = 1, po_Resolver = Some ex_resolver\<rparr>"

definition ex_mgr :: partialManager where
  "ex_mgr = \<lparr>pm_interval = 20000000, pm_maxPeers = 16, pm_maxIWant = 10, pm_disableGossip = False,
     pm_groups = Map.empty, pm_floor = Map.empty\<rparr>"

definition ex_topic :: string where
  "ex_topic = AttestationTopic 3"

definition ex_rpc :: partial_rpc where
  "ex_rpc = \<lparr>rpc_TopicID = ex_topic, rpc_GroupID = groupKeyBytes 5, rpc_PartsMetadata = [],
     rpc_PartialMessage = [9]\<rparr>"

definition ex_job :: verify_job where
  "ex_job = \<lparr>job_class = vcConsensus, job_group = 5, job_topic = ex_topic, job_data = [7],
     job_fresh = [1, 3]\<rparr>"

definition ex_after_rpc :: partialManager where
  "ex_after_rpc = fst (snd (onIncomingRPC byte_bitmaps ex_codec ex_resolver ''p'' ex_rpc ex_mgr Map.empty))"

definition ex_state :: psys where
  "ex_state = (pinit ex_mgr)\<lparr>ps_mgr := ex_after_rpc, ps_jobs := [ex_job]\<rparr>"

lemma ex_mgr_new: "newPartialManager ex_opts 8 = Some ex_mgr"
  by (simp add: newPartialManager_def ex_opts_def ex_mgr_def)

lemma ex_kind: "partialKindFor ex_topic = Some (KindAttestation, 3)"
  by code_simp

lemma ex_jobs: "snd (snd (snd (onIncomingRPC byte_bitmaps ex_codec ex_resolver ''p'' ex_rpc ex_mgr Map.empty))) = [ex_job]"
  by code_simp

lemma ex_reach: "preach byte_bitmaps ex_codec ex_resolver ex_mgr ex_state"
proof -
  obtain e m pst js where h: "onIncomingRPC byte_bitmaps ex_codec ex_resolver ''p'' ex_rpc ex_mgr Map.empty =
      (e, m, pst, js)"
    by (cases "onIncomingRPC byte_bitmaps ex_codec ex_resolver ''p'' ex_rpc ex_mgr Map.empty")
  have "pstep byte_bitmaps ex_codec ex_resolver (pinit ex_mgr)
      ((pinit ex_mgr)\<lparr>ps_mgr := m, ps_jobs := ps_jobs (pinit ex_mgr) @ js\<rparr>)"
    using h by (intro pstep.rpc) (simp add: pinit_def)
  moreover have "js = [ex_job]" using ex_jobs h by simp
  moreover have "m = ex_after_rpc" using h by (simp add: ex_after_rpc_def)
  ultimately have "pstep byte_bitmaps ex_codec ex_resolver (pinit ex_mgr) ex_state"
    by (simp add: ex_state_def pinit_def)
  then show ?thesis by (rule preach.step [OF preach.start])
qed

lemma ex_group:
  "map_option g_committeeSize (pm_group ex_after_rpc ex_topic 5) = Some 4"
  "Option.bind (pm_group ex_after_rpc ex_topic 5) (\<lambda>g. map_option validating (g_buckets g [7])) = Some {1, 3}"
  by code_simp+

lemma ex_group_obtain:
  obtains g b where "pm_group (ps_mgr ex_state) ex_topic 5 = Some g" and "g_buckets g [7] = Some b"
    and "g_committeeSize g = 4" and "validating b = {1, 3}"
proof -
  from ex_group(1) obtain g where g: "pm_group ex_after_rpc ex_topic 5 = Some g" "g_committeeSize g = 4"
    by auto
  with ex_group(2) obtain b where "g_buckets g [7] = Some b" "validating b = {1, 3}" by auto
  then show thesis using g that by (simp add: ex_state_def)
qed

section \<open>Invariants of every reachable state\<close>

lemma preach_bucket:
  assumes "bitmap_ok B" and "fresh_manager m0" and "preach B E R m0 s"
    and "pm_group (ps_mgr s) t k = Some g" and "g_buckets g d = Some b"
  shows "group_ok R (ps_mgr s) t k g" and "bk_data b = d"
    and "bucket_inv (pm_maxPeers (ps_mgr s)) (pm_maxIWant (ps_mgr s)) (g_committeeSize g) b"
proof -
  show ok: "group_ok R (ps_mgr s) t k g"
    by (rule manager_inv_group [OF preach_manager_inv [OF assms(1-3)] assms(4)])
  then show "bk_data b = d"
    "bucket_inv (pm_maxPeers (ps_mgr s)) (pm_maxIWant (ps_mgr s)) (g_committeeSize g) b"
    using assms(5) unfolding group_ok_def buckets_ok_def by blast+
qed

text \<open>
  C1: whatever the peers send, every bucket of the transport stays well formed.  In each state the
  manager can reach from its construction, the votes of a bucket are split between those still in
  the verifier and those validated, never both; all lie inside the committee width the resolver
  gave; no vote was forwarded more often than the forward cap, only validated votes were forwarded,
  and no position was requested more often than the request cap.
\<close>

theorem reachable_buckets_wf:
  assumes "bitmap_ok B" and "0 \<le> D" and "newPartialManager opts D = Some m0"
    and "preach B E R m0 s"
    and "pm_group (ps_mgr s) t k = Some g" and "g_buckets g d = Some b"
  shows "validating b \<inter> validated b = {} \<and> validating b \<union> validated b = dom (attestations b) \<and>
    dom (attestations b) \<subseteq> {0..<res_CommitteeSize R (g_kind g) (g_subnet g) k} \<and>
    sendCount b pos \<le> pm_maxPeers (ps_mgr s) \<and> (0 < sendCount b pos \<longrightarrow> pos \<in> validated b) \<and>
    requestCount b pos \<le> pm_maxIWant (ps_mgr s) \<and> bk_data b = d"
proof -
  note pb = preach_bucket [OF assms(1) newPartialManager_fresh [OF assms(2,3)] assms(4-6)]
  have "g_committeeSize g = res_CommitteeSize R (g_kind g) (g_subnet g) k"
    using pb(1) unfolding group_ok_def by blast
  moreover have "dom (attestations b) \<subseteq> {0..<g_committeeSize g}"
    using bucket_inv_held [OF pb(3)] unfolding subset_eq atLeastLessThan_iff by blast
  ultimately show ?thesis using pb(2,3) unfolding bucket_inv_def by simp
qed

theorem reachable_buckets_wf_witness:
  "\<exists>g b. pm_group (ps_mgr ex_state) ex_topic 5 = Some g \<and> g_buckets g [7] = Some b \<and>
     validating b = {1, 3} \<and> 3 \<in> dom (attestations b) \<and> 3 \<notin> validated b"
proof -
  obtain g b where gb: "pm_group (ps_mgr ex_state) ex_topic 5 = Some g" "g_buckets g [7] = Some b"
    "validating b = {1, 3}"
    by (rule ex_group_obtain)
  have "(0::int) \<le> 8" by simp
  note wf = reachable_buckets_wf [OF byte_bitmaps_ok this ex_mgr_new ex_reach gb(1,2)]
  have "3 \<in> validating b \<union> validated b" using gb(3) by simp
  then have "3 \<in> dom (attestations b)" using wf by blast
  moreover have "3 \<notin> validated b" using wf gb(3) by auto
  moreover note gb
  ultimately have "3 \<in> dom (attestations b) \<and> 3 \<notin> validated b" by blast
  then show ?thesis using gb by blast
qed

text \<open>
  C9: no vote is lost in the verifier and none is verified twice.  In every reachable state the
  votes of a bucket that wait for validation are exactly the votes of the submitted items whose
  callback is still to come, and each vote is in exactly one of them; once the queue has drained,
  nothing is left waiting.
\<close>

theorem validating_is_pending:
  assumes "bitmap_ok B" and "0 \<le> D" and "newPartialManager opts D = Some m0"
    and "preach B E R m0 s"
    and "pm_group (ps_mgr s) t k = Some g" and "g_buckets g d = Some b"
  shows "distinct (pending (ps_jobs s) t k d) \<and> set (pending (ps_jobs s) t k d) = validating b \<and>
    (ps_jobs s = [] \<longrightarrow> validated b = dom (attestations b))"
proof -
  note fm = newPartialManager_fresh [OF assms(2,3)]
  note pb = preach_bucket [OF assms(1) fm assms(4-6)]
  have "alive (ps_mgr s) t k" using pb(1) by (auto simp: group_ok_def alive_def)
  moreover have "loc_ok s t k d" using preach_inv [OF assms(1) fm assms(4)] by (simp add: psys_inv_def)
  moreover have "vstate (ps_mgr s) t k d = (validating b, validated b)" using assms(5,6) by (simp add: vstate_def)
  ultimately have v: "distinct (pending (ps_jobs s) t k d)" "set (pending (ps_jobs s) t k d) = validating b"
    by (simp_all add: loc_ok_def)
  have "validated b = dom (attestations b)" if "ps_jobs s = []"
  proof -
    have "validating b = {}" using v(2) that by simp
    then show ?thesis using pb(3) by (simp add: bucket_inv_def)
  qed
  then show ?thesis using v by blast
qed

theorem validating_is_pending_witness:
  "set (pending (ps_jobs ex_state) ex_topic 5 [7]) = {1, 3}"
proof -
  obtain g b where gb: "pm_group (ps_mgr ex_state) ex_topic 5 = Some g" "g_buckets g [7] = Some b"
    "validating b = {1, 3}"
    by (rule ex_group_obtain)
  then show ?thesis
    using validating_is_pending [OF byte_bitmaps_ok _ ex_mgr_new ex_reach gb(1,2)] by simp
qed

text \<open>
  C2: a vote arrives at most once.  Over a whole run of the transport, no (topic, group,
  attestation data, position) is reported to the node's sink twice, whatever is redelivered, in
  whatever order the verifier callbacks run and whatever is pruned in between.
\<close>

theorem arrivals_at_most_once:
  assumes "bitmap_ok B" and "0 \<le> D" and "newPartialManager opts D = Some m0"
    and "preach B E R m0 s"
  shows "distinct (ps_arrived s)"
  using preach_inv [OF assms(1) newPartialManager_fresh [OF assms(2,3)] assms(4)]
  by (simp add: psys_inv_def)

theorem arrivals_at_most_once_witness:
  "\<exists>s. preach byte_bitmaps ex_codec ex_resolver ex_mgr s \<and> ps_arrived s \<noteq> [] \<and> distinct (ps_arrived s)"
proof -
  let ?mv = "markValidated ex_resolver True 0 (job_topic ex_job) (job_group ex_job) (job_data ex_job)
      (job_fresh ex_job) (ps_mgr ex_state)"
  obtain m promoted recs where h: "?mv = (m, promoted, recs)" by (cases ?mv) auto
  let ?s = "ex_state\<lparr>ps_mgr := m, ps_jobs := [] @ [], ps_arrived := ps_arrived ex_state @ arrivals_of ex_job promoted\<rparr>"
  have step: "pstep byte_bitmaps ex_codec ex_resolver ex_state ?s"
    using h by (intro pstep.verified) (simp_all add: ex_state_def)
  have r: "preach byte_bitmaps ex_codec ex_resolver ex_mgr ?s" by (rule preach.step [OF ex_reach step])
  have inv: "manager_inv ex_resolver (ps_mgr ex_state)"
    using preach_manager_inv [OF byte_bitmaps_ok newPartialManager_fresh [OF _ ex_mgr_new] ex_reach] by simp
  obtain g b where gb: "pm_group (ps_mgr ex_state) ex_topic 5 = Some g" "g_buckets g [7] = Some b"
    "validating b = {1, 3}"
    by (rule ex_group_obtain)
  have "set promoted = {1, 3}"
    using markValidated_effect(4) [OF inv h] gb by (simp add: ex_job_def vstate_def)
  then have "promoted \<noteq> []" by auto
  then have "ps_arrived ?s \<noteq> []" by (simp add: arrivals_of_def)
  then show ?thesis
    using r arrivals_at_most_once [OF byte_bitmaps_ok _ ex_mgr_new r] by auto
qed

text \<open>
  A pruned group stays pruned.  In every reachable state no group of a kind exists at or below
  the kind's floor, so a straggling RPC, a late verifier callback or a tick never brings one back.
\<close>

theorem pruned_stays_pruned:
  assumes "bitmap_ok B" and "0 \<le> D" and "newPartialManager opts D = Some m0"
    and "preach B E R m0 s"
    and "pm_floor (ps_mgr s) kind = Some fl" and "k \<le> fl" and "partialKindFor t = Some (kind, subnet)"
  shows "pm_group (ps_mgr s) t k = None"
proof (rule ccontr)
  assume "pm_group (ps_mgr s) t k \<noteq> None"
  then obtain g where g: "pm_group (ps_mgr s) t k = Some g" by blast
  have "group_ok R (ps_mgr s) t k g"
    by (rule manager_inv_group [OF preach_manager_inv [OF assms(1) newPartialManager_fresh [OF assms(2,3)] assms(4)] g])
  then show False using assms(5-7) by (simp add: group_ok_def below_floor_def)
qed

theorem pruned_stays_pruned_witness:
  "pm_group (prune ex_after_rpc KindAttestation 5) ex_topic 5 = None"
proof -
  let ?s = "ex_state\<lparr>ps_mgr := prune (ps_mgr ex_state) KindAttestation 5\<rparr>"
  have r: "preach byte_bitmaps ex_codec ex_resolver ex_mgr ?s"
    by (rule preach.step [OF ex_reach pstep.prunes])
  have "pm_floor (ps_mgr ?s) KindAttestation = Some 5 \<or>
      (\<exists>fl. pm_floor (ps_mgr ?s) KindAttestation = Some fl \<and> 5 \<le> fl)"
    by (auto simp: prune_def split: option.split)
  then obtain fl where fl: "pm_floor (ps_mgr ?s) KindAttestation = Some fl" "5 \<le> fl" by auto
  have "pm_group (ps_mgr ?s) ex_topic 5 = None"
    by (rule pruned_stays_pruned [OF byte_bitmaps_ok _ ex_mgr_new r fl ex_kind]) simp
  then show ?thesis by (simp add: ex_state_def)
qed

text \<open>
  C25: the tick never panics.  In every reachable state one publish tick of any group, over any
  peer states and iteration orders, completes: every position it claims is held, so its signature
  can be read.
\<close>

theorem tick_never_panics:
  assumes "bitmap_ok B" and "0 \<le> D" and "newPartialManager opts D = Some m0"
    and "preach B E R m0 s"
  shows "publishActions B E (ps_mgr s) t k ord pst rq acc \<noteq> None"
  using publishActions_grows [OF assms(1) preach_manager_inv [OF assms(1) newPartialManager_fresh [OF assms(2,3)] assms(4)]]
  by (metis option.distinct(1))

theorem tick_never_panics_witness:
  "publishActions byte_bitmaps ex_codec (ps_mgr ex_state) ex_topic 5
     \<lparr>io_buckets = [[7]], io_peers = (\<lambda>_. []), io_served = [''q''], io_served_buckets = (\<lambda>_. [[7]])\<rparr>
     [''q'' \<mapsto> zero_peer_state] (\<lambda>_. True) (\<lambda>_ _. True) \<noteq> None"
  by (rule tick_never_panics [OF byte_bitmaps_ok _ ex_mgr_new ex_reach]) simp

section \<open>Forwarding\<close>


definition ex_bucket :: partialBucket where
  "ex_bucket = storeLocal (storeLocal (newPartialBucket [7]) 2 [1]) 0 [1]"

lemma ex_bucket_inv: "bucket_inv 16 10 4 ex_bucket"
  unfolding ex_bucket_def by (intro storeLocal_inv bucket_inv_new) simp_all


text \<open>
  What is asked of a gossip peer is missing, and asked of gossip peers only; the counters of a
  selection only grow and never pass the request cap.
\<close>

theorem iwant_asks_missing:
  assumes "selectIWantTargets B mi n order pst b = (b', want)" and "\<forall>pos. requestCount b pos \<le> mi"
  shows "(\<forall>p pos. pos \<in> set (want p) \<longrightarrow>
      (\<exists>ps. pst p = Some ps \<and> gossipPeer ps) \<and> 0 \<le> pos \<and> pos < n \<and> attestations b pos = None) \<and>
    (\<forall>pos. requestCount b pos \<le> requestCount b' pos \<and> requestCount b' pos \<le> mi) \<and>
    validated b' = validated b \<and> validating b' = validating b"
proof -
  have "asked mi n b b'" using selectIWantTargets_asked [of mi n b B order pst] assms(1) by simp
  then show ?thesis
    using selectIWantTargets_want [of _ B mi n order pst b] assms by (auto simp: asked_def)
qed

definition ex_gossip :: "string \<rightharpoonup> partialPeerState" where
  "ex_gossip = [''p'' \<mapsto> \<lparr>gossipPeer = True, sendAvailableList = False\<rparr>,
                ''q'' \<mapsto> \<lparr>gossipPeer = True, sendAvailableList = False\<rparr>]"

definition ex_advertised :: partialBucket where
  "ex_advertised = set_peer ''p'' \<lparr>available = [2], pendingWant = [0]\<rparr>
     (set_peer ''q'' \<lparr>available = [2], pendingWant = [0]\<rparr> (newPartialBucket [7]))"

theorem iwant_asks_missing_witness:
  "snd (selectIWantTargets byte_bitmaps 1 4 [''p'', ''q''] ex_gossip ex_advertised) ''p'' = [1] \<and>
   requestCount (fst (selectIWantTargets byte_bitmaps 1 4 [''p'', ''q''] ex_gossip ex_advertised)) 1 \<le> 1"
proof -
  let ?r = "selectIWantTargets byte_bitmaps 1 4 [''p'', ''q''] ex_gossip ex_advertised"
  have "\<forall>pos. requestCount ex_advertised pos \<le> 1"
    by (simp add: ex_advertised_def newPartialBucket_def)
  from iwant_asks_missing [OF surjective_pairing this, of byte_bitmaps 4 "[''p'', ''q'']" ex_gossip]
  have "requestCount (fst ?r) 1 \<le> 1" by blast
  moreover have "snd ?r ''p'' = [1]" by code_simp
  ultimately show ?thesis by blast
qed

text \<open>
  Which gossip peer is asked depends on the iteration order of a Go map.  With a request cap of
  one and two peers advertising the same missing position, the peer visited first is the one asked.
\<close>

theorem iwant_choice_depends_on_order:
  "snd (selectIWantTargets byte_bitmaps 1 4 [''p'', ''q''] ex_gossip ex_advertised) ''q'' = [] \<and>
   snd (selectIWantTargets byte_bitmaps 1 4 [''q'', ''p''] ex_gossip ex_advertised) ''q'' = [1]"
  by code_simp

section \<open>The receive path\<close>

lemma getOrCreateGroup_vstate: "vstate (snd (getOrCreateGroup R m t k)) = vstate m"
proof -
  have "vstate (touch_topic t m) = vstate m" by (simp add: vstate_def fun_eq_iff)
  moreover have "vstate (set_group t k g (touch_topic t m)) = vstate m"
    if "pm_group m t k = None" and "g_buckets g = Map.empty" for g
    using that by (auto simp: vstate_def fun_eq_iff)
  ultimately show ?thesis
    by (auto simp: getOrCreateGroup_def Let_def split: option.split)
qed

text \<open>
  C35: a bad batch stores nothing.  A batch for a group that resolves is refused exactly when its
  index and signature counts differ or an index lies outside the committee; a refused batch adds no
  vote to any bucket and submits nothing to the verifier.
\<close>

theorem bad_batch_stores_nothing:
  assumes "getOrCreateGroup R m t k = (Inr g, m1)"
    and "recv_batch B R p t k batch (m, jobs) = (e, m', jobs')"
  shows "(e \<noteq> None \<longleftrightarrow> length (ba_AttestorIndices batch) \<noteq> length (ba_Signatures batch) \<or>
             (\<exists>i \<in> set (ba_AttestorIndices batch). g_committeeSize g \<le> uint i)) \<and>
         (e \<noteq> None \<longrightarrow> vstate m' = vstate m \<and> jobs' = jobs)"
proof -
  have bad: "bad_index n idxs = None \<longleftrightarrow> \<not> (\<exists>i \<in> set idxs. n \<le> uint i)" for n idxs
    by (auto simp: bad_index_def find_None_iff)
  have "vstate m1 = vstate m" using getOrCreateGroup_vstate [of R m t k] assms(1) by simp
  then show ?thesis
    using assms(2) bad [of "g_committeeSize g" "ba_AttestorIndices batch"]
    by (auto simp: recv_batch_def assms(1) Let_def split: if_splits option.splits prod.splits)
qed

theorem bad_batch_stores_nothing_witness:
  "\<exists>e m' jobs'. recv_batch byte_bitmaps ex_resolver ''p'' ex_topic 5
      (ex_batch\<lparr>ba_AttestorIndices := [1, 4]\<rparr>) (ex_mgr, []) = (Some e, m', jobs') \<and>
    vstate m' = vstate ex_mgr \<and> jobs' = []"
proof -
  let ?b = "ex_batch\<lparr>ba_AttestorIndices := [1, 4]\<rparr>"
  obtain g m1 where g: "getOrCreateGroup ex_resolver ex_mgr ex_topic 5 = (Inr g, m1)" "g_committeeSize g = 4"
    by (simp add: getOrCreateGroup_def Let_def ex_kind pm_group_def touch_topic_def ex_mgr_def ex_resolver_def)
  obtain e m' jobs' where h: "recv_batch byte_bitmaps ex_resolver ''p'' ex_topic 5 ?b (ex_mgr, []) = (e, m', jobs')"
    by (cases "recv_batch byte_bitmaps ex_resolver ''p'' ex_topic 5 ?b (ex_mgr, [])") auto
  have "\<exists>i \<in> set (ba_AttestorIndices ?b). g_committeeSize g \<le> uint i" using g(2) by simp
  then show ?thesis using bad_batch_stores_nothing [OF g(1) h] h by auto
qed

section \<open>Sealing and pruning\<close>

text \<open>
  Sealing stops serving and nothing else.  After \<open>seal kind grp\<close> a tick of any group of that
  kind with a key up to \<open>grp\<close> yields nothing and changes nothing, other groups keep their state,
  and what is held and validated is untouched, so stragglers still verify and count.
\<close>

theorem seal_stops_serving:
  assumes "pm_group m t k = Some g"
  shows "(g_kind g = kind \<and> k \<le> grp \<longrightarrow>
            publishActions B E (seal m kind grp) t k ord pst rq acc = Some (seal m kind grp, pst, [])) \<and>
         (\<not> (g_kind g = kind \<and> k \<le> grp) \<longrightarrow> pm_group (seal m kind grp) t k = Some g) \<and>
         vstate (seal m kind grp) = vstate m \<and> pm_floor (seal m kind grp) = pm_floor m"
proof -
  have "vstate (seal m kind grp) = vstate m"
    by (auto simp: vstate_def fun_eq_iff pm_group_seal split: option.split)
  then show ?thesis using assms by (simp add: publishActions_def pm_group_seal swept_def)
qed

theorem seal_stops_serving_witness:
  "publishActions byte_bitmaps ex_codec (seal ex_after_rpc KindAttestation 5) ex_topic 5
     \<lparr>io_buckets = [[7]], io_peers = (\<lambda>_. []), io_served = [''q''], io_served_buckets = (\<lambda>_. [[7]])\<rparr>
     [''q'' \<mapsto> zero_peer_state] (\<lambda>_. True) (\<lambda>_ _. True) =
   Some (seal ex_after_rpc KindAttestation 5, [''q'' \<mapsto> zero_peer_state], [])"
proof -
  obtain g b where g: "pm_group (ps_mgr ex_state) ex_topic 5 = Some g" by (rule ex_group_obtain)
  have inv: "manager_inv ex_resolver (ps_mgr ex_state)"
    using preach_manager_inv [OF byte_bitmaps_ok newPartialManager_fresh [OF _ ex_mgr_new] ex_reach] by simp
  have "g_kind g = KindAttestation"
    using manager_inv_group [OF inv g] ex_kind by (simp add: group_ok_def)
  moreover have "ps_mgr ex_state = ex_after_rpc" by (simp add: ex_state_def)
  ultimately show ?thesis using seal_stops_serving [OF g, of KindAttestation 5] by simp
qed



text \<open>
  Pruning removes exactly the kind's groups up to the key, drops topics left without a group,
  and raises the kind's floor to at least the key without ever lowering a floor.
\<close>

theorem prune_exact:
  "pm_group (prune m kind grp) t k =
     (case pm_group m t k of
        None \<Rightarrow> None
      | Some g \<Rightarrow> if g_kind g = kind \<and> k \<le> grp then None else Some g) \<and>
   pm_groups (prune m kind grp) t \<noteq> Some Map.empty \<and>
   (\<forall>kind' key. below_floor (prune m kind grp) kind' key \<longleftrightarrow>
      below_floor m kind' key \<or> kind' = kind \<and> key \<le> grp)"
proof -
  have "prune_topic kind grp bg \<noteq> Some Map.empty" for bg
    by (simp add: prune_topic_def Let_def)
  then have "pm_groups (prune m kind grp) t \<noteq> Some Map.empty"
    by (cases "pm_groups m t") (auto simp: prune_def)
  then show ?thesis by (auto simp: pm_group_prune swept_def below_floor_prune split: option.split)
qed

section \<open>Group keys and the tick order\<close>

text \<open>
  A group key survives the wire.  Encoding a key as a group id and decoding it gives the key
  back modulo \<open>2 ^ 32\<close>; an id of any length decodes to a key that fits 32 bits.
\<close>

theorem groupKey_roundtrip:
  "groupKeyFromID (groupKeyBytes k) = k mod 2 ^ 32 \<and>
   0 \<le> groupKeyFromID bs \<and> groupKeyFromID bs < 2 ^ 32"
proof -
  have "groupKeyFromID (groupKeyBytes k) = k mod 2 ^ 32"
    by (simp add: groupKeyFromID_def groupKeyBytes_def u32_def uint_word_of_int)
  moreover have "groupKeyFromID bs < 2 ^ 32"
    using uint_lt2p [of "of_be32 (replicate (4 - length (if 4 < length bs then drop (length bs - 4) bs else bs)) 0 @
        (if 4 < length bs then drop (length bs - 4) bs else bs))"]
    by (simp add: groupKeyFromID_def Let_def)
  ultimately show ?thesis by (simp add: groupKeyFromID_def Let_def)
qed

text \<open>
  The tick publishes every live group once, in an order that does not depend on map iteration.
  Whatever orders the nested range loops see, the schedule is the list of the live groups sorted by
  topic and key.
\<close>

theorem tick_calls_sorted:
  assumes "distinct topicOrder" and "set topicOrder = dom (pm_groups m)"
    and "\<And>t bg. pm_groups m t = Some bg \<Longrightarrow> distinct (groupOrder t) \<and> set (groupOrder t) = dom bg"
  shows "map (\<lambda>(t, k, bs). LiveGroup t k) (tick_calls m topicOrder groupOrder) =
           sorted_list_of_set {LiveGroup t k |t k. pm_group m t k \<noteq> None} \<and>
         (\<forall>(t, k, bs) \<in> set (tick_calls m topicOrder groupOrder). bs = groupKeyBytes k)"
proof -
  let ?lgs = "concat (map (\<lambda>t. map (LiveGroup t) (groupOrder t)) topicOrder)"
  have mem: "LiveGroup t k \<in> set ?lgs \<longleftrightarrow> pm_group m t k \<noteq> None" for t k
  proof (cases "pm_groups m t")
    case None
    then have "t \<notin> set topicOrder" using assms(2) by auto
    then show ?thesis using None by (auto simp: pm_group_def)
  next
    case (Some bg)
    then have "t \<in> set topicOrder" using assms(2) by auto
    then show ?thesis using assms(3) [OF Some] Some by (auto simp: pm_group_def)
  qed
  have set: "set ?lgs = {LiveGroup t k |t k. pm_group m t k \<noteq> None}"
  proof (rule set_eqI)
    fix x show "x \<in> set ?lgs \<longleftrightarrow> x \<in> {LiveGroup t k |t k. pm_group m t k \<noteq> None}"
      using mem by (cases x) simp
  qed
  have "distinct (map (LiveGroup t) (groupOrder t))" if "t \<in> set topicOrder" for t
    using assms(2) assms(3) [of t] that by (auto simp: distinct_map inj_on_def)
  moreover have "inj_on (\<lambda>t. map (LiveGroup t) (groupOrder t)) {t. groupOrder t \<noteq> []}"
    by (auto simp: inj_on_def map_eq_conv neq_Nil_conv)
  ultimately have "distinct ?lgs"
    using assms(1)
  proof (induction topicOrder)
    case (Cons t ts)
    then show ?case by auto
  qed simp
  then have "sort ?lgs = sorted_list_of_set (set ?lgs)"
    by (intro sorted_distinct_set_unique) auto
  then have "sort ?lgs = sorted_list_of_set {LiveGroup t k |t k. pm_group m t k \<noteq> None}"
    unfolding set .
  moreover have "map (\<lambda>(t, k, bs). LiveGroup t k) (tick_calls m topicOrder groupOrder) = sort ?lgs"
    by (simp add: tick_calls_def comp_def)
  moreover have "\<forall>(t, k, bs) \<in> set (tick_calls m topicOrder groupOrder). bs = groupKeyBytes k"
    by (auto simp: tick_calls_def)
  ultimately show ?thesis by simp
qed

definition ex_two_topics :: partialManager where
  "ex_two_topics =
     (let g = \<lparr>g_kind = KindAttestation, g_subnet = 3, g_committeeSize = 4, g_buckets = Map.empty,
               g_sealed = False\<rparr>
      in ex_mgr\<lparr>pm_groups := [''b'' \<mapsto> [2 \<mapsto> g, 1 \<mapsto> g], ''a'' \<mapsto> [3 \<mapsto> g]]\<rparr>)"

definition ex_group_order :: "string \<Rightarrow> int list" where
  "ex_group_order t = (if t = ''a'' then [3] else [2, 1])"

theorem tick_calls_sorted_witness:
  "map (\<lambda>(t, k, bs). LiveGroup t k) (tick_calls ex_two_topics [''b'', ''a''] ex_group_order) =
   sorted_list_of_set {LiveGroup t k |t k. pm_group ex_two_topics t k \<noteq> None}"
proof -
  have o: "distinct (ex_group_order t) \<and> set (ex_group_order t) = dom bg"
    if "pm_groups ex_two_topics t = Some bg" for t bg
    using that by (auto simp: ex_two_topics_def ex_group_order_def Let_def split: if_splits)
  have d: "set [''b'', ''a''] = dom (pm_groups ex_two_topics)"
    by (auto simp: ex_two_topics_def Let_def)
  have "distinct [''b'', ''a'']" by simp
  note sorted = tick_calls_sorted [where m = ex_two_topics and topicOrder = "[''b'', ''a'']"
      and groupOrder = ex_group_order]
  show ?thesis by (rule conjunct1 [OF sorted [OF \<open>distinct [''b'', ''a'']\<close> d o]])
qed

end
