(* ===== verification/Topology.thy ===== *)
theory Topology
  imports Schedule Complex_Main
begin

unbundle bit_operations_syntax

text \<open>
  The simulated network's topology (src/netsim): the peer graph builders of graph.go and subnet.go,
  the adjacency and latency tables of netsim.go, the supernode draw and the network's construction
  from a topology file's records (topology.go).

  The generator of math/rand/v2 is the record \<open>rand_v2\<close>: the state \<open>NewPCG(seed, stream)\<close> starts in, what
  an \<open>IntN\<close> or \<open>Int64N\<close> returns with the next state, and what \<open>Perm\<close> returns; \<open>draw_ok\<close> is the
  documented range of a draw, \<open>perm_ok\<close> that of a permutation.  The simulated wire and the libp2p hosts are outside the
  repository: \<open>host_ok\<close> says whether host \<open>i\<close> could be built, and \<open>ip\<close> is \<open>simnet.IntToPublicIPv4\<close> as the
  big-endian number of its four bytes.  \<open>None\<close> is a panic.
\<close>

section \<open>The graph builder\<close>

record graph =
  g_n :: int
  g_adj :: "int list list"
  g_edge :: "(int \<times> int) set"

type_synonym 's draw = "'s \<Rightarrow> int \<Rightarrow> int \<times> 's"

definition draw_ok :: "'s draw \<Rightarrow> bool" where
  "draw_ok draw \<longleftrightarrow> (\<forall>s n. 0 < n \<longrightarrow> 0 \<le> fst (draw s n) \<and> fst (draw s n) < n)"

record 's rand_v2 =
  rv_PCG :: "64 word \<Rightarrow> 64 word \<Rightarrow> 's"
  rv_IntN :: "'s draw"
  rv_Int64N :: "'s draw"
  rv_Perm :: "'s \<Rightarrow> int \<Rightarrow> int list"

definition perm_ok :: "'s rand_v2 \<Rightarrow> bool" where
  "perm_ok L \<longleftrightarrow> (\<forall>s n. distinct (rv_Perm L s n) \<and> set (rv_Perm L s n) = {0..<n})"

definition latencyStream :: "64 word" where "latencyStream = 1"
definition supersStream :: "64 word" where "supersStream = 2"
definition peersStream :: "64 word" where "peersStream = 3"

definition newGraph :: "int \<Rightarrow> graph option" where
  "newGraph n = (if n < 0 then None else Some \<lparr>g_n = n, g_adj = replicate (nat n) [], g_edge = {}\<rparr>)"

text \<open>\<open>push i j\<close> is \<open>adj[i] = append(adj[i], j)\<close>.\<close>

definition push :: "int \<Rightarrow> int \<Rightarrow> int list list \<Rightarrow> int list list" where
  "push i j adj = adj[nat i := adj ! nat i @ [j]]"

definition add :: "int \<Rightarrow> int \<Rightarrow> graph \<Rightarrow> graph" where
  "add i j g =
     (if i = j \<or> i < 0 \<or> j < 0 \<or> i \<ge> g_n g \<or> j \<ge> g_n g \<or> (i, j) \<in> g_edge g then g
      else g\<lparr>g_edge := {(i, j), (j, i)} \<union> g_edge g, g_adj := push j i (push i j (g_adj g))\<rparr>)"

definition tree_step :: "'s draw \<Rightarrow> int list \<Rightarrow> graph \<times> 's \<Rightarrow> nat \<Rightarrow> graph \<times> 's" where
  "tree_step draw ids = (\<lambda>(g, s) i. let (k, s') = draw s (int i) in (add (ids ! i) (ids ! nat k) g, s'))"

definition randomTree :: "'s draw \<Rightarrow> int list \<Rightarrow> graph \<times> 's \<Rightarrow> graph \<times> 's" where
  "randomTree draw ids gs = foldl (tree_step draw ids) gs [1..<length ids]"

text \<open>The retry loops: the first argument counts the tries that are left.\<close>

fun fill_node :: "nat \<Rightarrow> 's draw \<Rightarrow> int \<Rightarrow> int \<Rightarrow> graph \<times> 's \<Rightarrow> graph \<times> 's" where
  "fill_node 0 draw k i gs = gs"
| "fill_node (Suc tries) draw k i (g, s) =
     (if int (length (g_adj g ! nat i)) < k
      then (let (j, s') = draw s (g_n g) in fill_node tries draw k i (add i j g, s'))
      else (g, s))"

definition fill :: "'s draw \<Rightarrow> int \<Rightarrow> graph \<times> 's \<Rightarrow> graph \<times> 's" where
  "fill draw k gs = foldl (\<lambda>gs i. fill_node (nat (k * 4)) draw k i gs) gs [0..g_n (fst gs) - 1]"

fun groupFill_node :: "nat \<Rightarrow> 's draw \<Rightarrow> int list \<Rightarrow> int \<Rightarrow> int \<Rightarrow> int \<Rightarrow> graph \<times> 's \<Rightarrow> graph \<times> 's" where
  "groupFill_node 0 draw ids target i inGroup gs = gs"
| "groupFill_node (Suc tries) draw ids target i inGroup (g, s) =
     (if inGroup < target
      then (let (k, s') = draw s (int (length ids)); peer = ids ! nat k in
            if peer = i \<or> (i, peer) \<in> g_edge g then groupFill_node tries draw ids target i inGroup (g, s')
            else groupFill_node tries draw ids target i (inGroup + 1) (add i peer g, s'))
      else (g, s))"

definition groupFill_step :: "'s draw \<Rightarrow> int list \<Rightarrow> int \<Rightarrow> graph \<times> 's \<Rightarrow> int \<Rightarrow> (graph \<times> 's) option" where
  "groupFill_step draw ids k = (\<lambda>(g, s) i.
     do {
       ns \<leftarrow> go_index (g_adj g) i;
       Some (groupFill_node (nat (k * 4)) draw ids (min k (int (length ids) - 1)) i
         (int (length (filter (\<lambda>p. p \<in> set ids) ns))) (g, s))
     })"

definition groupFill :: "'s draw \<Rightarrow> int list \<Rightarrow> int \<Rightarrow> graph \<times> 's \<Rightarrow> (graph \<times> 's) option" where
  "groupFill draw ids k gs = foldO (groupFill_step draw ids k) ids gs"

definition seq :: "int \<Rightarrow> int list" where
  "seq n = [0..n - 1]"

section \<open>Peer sets\<close>

definition peerGraph :: "'s rand_v2 \<Rightarrow> int \<Rightarrow> int \<Rightarrow> 64 word \<Rightarrow> int list list option" where
  "peerGraph L n p seed =
     do {
       g \<leftarrow> newGraph n;
       if n < 2 then Some (g_adj g)
       else do {
         let draw = rv_IntN L;
         let rng = rv_PCG L seed peersStream;
         Some (g_adj (fst (fill draw p (randomTree draw (seq n) (g, rng)))))
       }
     }"

definition finalityGroupDegree :: int where
  "finalityGroupDegree = 12"

definition trees :: "'s draw \<Rightarrow> int list list \<Rightarrow> graph \<times> 's \<Rightarrow> graph \<times> 's" where
  "trees draw subnets gs = foldl (\<lambda>gs subs. randomTree draw subs gs) gs subnets"

definition flood_group :: "'s draw \<Rightarrow> graph \<times> 's \<Rightarrow> int list \<Rightarrow> (graph \<times> 's) option" where
  "flood_group draw = (\<lambda>gs subs. groupFill draw subs finalityGroupDegree (randomTree draw subs gs))"

definition discv5Graph :: "'s rand_v2 \<Rightarrow> Assignment \<Rightarrow> int \<Rightarrow> 64 word \<Rightarrow> int list list option" where
  "discv5Graph L a k seed =
     do {
       let n = p_N (a_Params a);
       g \<leftarrow> newGraph n;
       if n < 2 then Some (g_adj g)
       else do {
         let k = (if k > n - 1 then n - 1 else k);
         let draw = rv_IntN L;
         let rng = rv_PCG L seed peersStream;
         let gs = trees draw (a_SyncSubscribers a) (trees draw (a_ColumnSubscribers a)
                    (trees draw (a_SubnetSubscribers a) (randomTree draw (seq n) (g, rng))));
         gs \<leftarrow> foldO (flood_group draw) (a_FinalitySubscribers a) gs;
         Some (g_adj (fst (fill draw k gs)))
       }
     }"

section \<open>The topology file's records\<close>

record TopoNode =
  tn_Num :: int
  tn_UploadMbps :: int
  tn_DownloadMbps :: int
  tn_Country :: string

record TopoEdge =
  te_Source :: int
  te_Target :: int
  te_LatencyMs :: int

record TopologyFile =
  tp_Nodes :: "TopoNode list"
  tp_Edges :: "TopoEdge list"

text \<open>The closure \<open>add\<close> of \<open>adjacencyFromEdges\<close>: one direction, into \<open>seen\<close> and \<open>adj\<close>; an endpoint outside the range panics.\<close>

definition add_directed :: "int \<Rightarrow> int \<Rightarrow> (int \<times> int) set \<times> int list list \<Rightarrow> ((int \<times> int) set \<times> int list list) option" where
  "add_directed i j = (\<lambda>(seen, adj).
     if i = j then Some (seen, adj)
     else if i < 0 \<or> i \<ge> int (length adj) then None
     else if (i, j) \<in> seen then Some (seen, adj)
     else Some (insert (i, j) seen, push i j adj))"

definition add_edge :: "(int \<times> int) set \<times> int list list \<Rightarrow> TopoEdge \<Rightarrow> ((int \<times> int) set \<times> int list list) option" where
  "add_edge st e =
     do {
       st \<leftarrow> add_directed (te_Source e) (te_Target e) st;
       add_directed (te_Target e) (te_Source e) st
     }"

definition adjacencyFromEdges :: "nat \<Rightarrow> TopoEdge list \<Rightarrow> int list list option" where
  "adjacencyFromEdges n edges = map_option snd (foldO add_edge edges ({}, replicate n []))"

section \<open>Latency\<close>

text \<open>A packet's address: \<open>ipOf\<close> of anything but a UDP address is nil, whose key panics.\<close>

datatype net_addr = UDPAddr "32 word" | OtherAddr

record Packet =
  pkt_From :: net_addr
  pkt_To :: net_addr

fun ipOf :: "net_addr \<Rightarrow> 32 word option" where
  "ipOf (UDPAddr w) = Some w"
| "ipOf OtherAddr = None"

definition ipDirKey :: "32 word \<Rightarrow> 32 word \<Rightarrow> 64 word" where
  "ipDirKey from to = push_bit 32 (ucast from) OR ucast to"

definition ipPairKey :: "32 word \<Rightarrow> 32 word \<Rightarrow> 64 word" where
  "ipPairKey a b = (if a > b then ipDirKey b a else ipDirKey a b)"

definition key_of :: "(32 word \<Rightarrow> 32 word \<Rightarrow> 64 word) \<Rightarrow> Packet \<Rightarrow> 64 word option" where
  "key_of key p = do { a \<leftarrow> ipOf (pkt_From p); b \<leftarrow> ipOf (pkt_To p); Some (key a b) }"

text \<open>The precomputed table: a draw per pair, in the order of the two loops.\<close>

definition latency_table ::
  "(int \<Rightarrow> 32 word) \<Rightarrow> 's draw \<Rightarrow> 's \<Rightarrow> int \<Rightarrow> dur \<Rightarrow> dur \<Rightarrow> 64 word \<rightharpoonup> dur" where
  "latency_table ip draw rng n lo width =
     (if width > 0
      then fst (foldl (\<lambda>(lat, s) (i, j). let (x, s') = draw s width in (lat(ipPairKey (ip i) (ip j) \<mapsto> lo + x), s'))
             (Map.empty, rng) (concat (map (\<lambda>i. map (Pair i) [i + 1..n - 1]) [0..n - 1])))
      else Map.empty)"

definition latencyFunc ::
  "(int \<Rightarrow> 32 word) \<Rightarrow> 's rand_v2 \<Rightarrow> int \<Rightarrow> 64 word \<Rightarrow> dur \<Rightarrow> dur \<Rightarrow> Packet \<Rightarrow> dur option" where
  "latencyFunc ip L n seed lo hi p =
     map_option (\<lambda>k. case latency_table ip (rv_Int64N L) (rv_PCG L seed latencyStream) n lo (hi - lo) k of Some d \<Rightarrow> d | None \<Rightarrow> lo)
       (key_of ipPairKey p)"

definition defaultLatency :: dur where
  "defaultLatency = 100000000"

definition edge_table :: "(int \<Rightarrow> 32 word) \<Rightarrow> TopoEdge list \<Rightarrow> 64 word \<rightharpoonup> dur" where
  "edge_table ip edges =
     foldl (\<lambda>lat e. lat(ipDirKey (ip (te_Source e)) (ip (te_Target e)) \<mapsto> te_LatencyMs e * 1000000)) Map.empty edges"

definition latencyFromEdges :: "(int \<Rightarrow> 32 word) \<Rightarrow> TopoEdge list \<Rightarrow> Packet \<Rightarrow> dur option" where
  "latencyFromEdges ip edges p =
     map_option (\<lambda>k. case edge_table ip edges k of Some d \<Rightarrow> d | None \<Rightarrow> defaultLatency) (key_of ipDirKey p)"

section \<open>Links and supernodes\<close>

definition regularUpMbps :: int where "regularUpMbps = 25"
definition regularDownMbps :: int where "regularDownMbps = 50"
definition superMbps :: int where "superMbps = 1024"

text \<open>A host's link: the downlink's and the uplink's bits per second.\<close>

record LinkSettings =
  ls_Down :: int
  ls_Up :: int

definition bwLinkSettings :: "int \<Rightarrow> int \<Rightarrow> LinkSettings" where
  "bwLinkSettings upMbps downMbps = \<lparr>ls_Down = downMbps * 1000000, ls_Up = upMbps * 1000000\<rparr>"

definition linkSettings :: "bool \<Rightarrow> LinkSettings" where
  "linkSettings super =
     (if super then bwLinkSettings superMbps superMbps else bwLinkSettings regularUpMbps regularDownMbps)"

text \<open>\<open>int(frac*float64(n) + 0.5)\<close> truncates; the product is exact here.\<close>

definition supernode_count :: "rat \<Rightarrow> int \<Rightarrow> int" where
  "supernode_count part n = (let x = part * of_int n + 1 / 2 in if x < 0 then \<lceil>x\<rceil> else \<lfloor>x\<rfloor>)"

definition pickSupernodes :: "'s rand_v2 \<Rightarrow> int \<Rightarrow> rat \<Rightarrow> 64 word \<Rightarrow> int set option" where
  "pickSupernodes L n part seed =
     (let k = supernode_count part n; perm = rv_Perm L (rv_PCG L seed supersStream) n in
      if k < 0 \<or> k > int (length perm) then None else Some (set (take (nat k) perm)))"

section \<open>Building the network\<close>

datatype netsim_error = NodeOutOfRange int | DuplicateNode int | BuildHost int

record Netsim =
  ns_hosts :: "LinkSettings list"
  ns_peers :: "int list list"
  ns_supers :: "int set"
  ns_latency :: "Packet \<Rightarrow> dur option"

text \<open>The hosts in order; the first that fails ends the loop, and the ones before it are closed.\<close>

fun buildHosts_from :: "(int \<Rightarrow> bool) \<Rightarrow> (int \<Rightarrow> LinkSettings) \<Rightarrow> int list \<Rightarrow> LinkSettings list \<Rightarrow>
  netsim_error + LinkSettings list" where
  "buildHosts_from host_ok linkOf [] hs = Inr hs"
| "buildHosts_from host_ok linkOf (i # is) hs =
     (if host_ok i then buildHosts_from host_ok linkOf is (hs @ [linkOf i]) else Inl (BuildHost i))"

definition buildHosts :: "(int \<Rightarrow> bool) \<Rightarrow> int \<Rightarrow> (int \<Rightarrow> LinkSettings) \<Rightarrow> netsim_error + LinkSettings list" where
  "buildHosts host_ok n linkOf = buildHosts_from host_ok linkOf [0..n - 1] []"

text \<open>The loop over the file's nodes: the links placed so far, and the supernodes.\<close>

fun place_nodes :: "int \<Rightarrow> TopoNode list \<Rightarrow> (int \<rightharpoonup> LinkSettings) \<times> int set \<Rightarrow>
  netsim_error + (int \<rightharpoonup> LinkSettings) \<times> int set" where
  "place_nodes n [] st = Inr st"
| "place_nodes n (nd # nds) (links, supers) =
     (if tn_Num nd < 0 \<or> tn_Num nd \<ge> n then Inl (NodeOutOfRange (tn_Num nd))
      else if links (tn_Num nd) \<noteq> None then Inl (DuplicateNode (tn_Num nd))
      else place_nodes n nds
        (links(tn_Num nd \<mapsto> bwLinkSettings (tn_UploadMbps nd) (tn_DownloadMbps nd)),
         if tn_UploadMbps nd \<ge> superMbps then insert (tn_Num nd) supers else supers))"

definition NewFromTopology ::
  "(int \<Rightarrow> bool) \<Rightarrow> (int \<Rightarrow> 32 word) \<Rightarrow> TopologyFile \<Rightarrow> (netsim_error + Netsim) option" where
  "NewFromTopology host_ok ip topo =
     (let n = int (length (tp_Nodes topo)) in
      case place_nodes n (tp_Nodes topo) (Map.empty, {}) of
        Inl e \<Rightarrow> Some (Inl e)
      | Inr (links, supers) \<Rightarrow>
          (case buildHosts host_ok n (\<lambda>i. case links i of Some l \<Rightarrow> l | None \<Rightarrow> bwLinkSettings 0 0) of
             Inl e \<Rightarrow> Some (Inl e)
           | Inr hosts \<Rightarrow>
               map_option (\<lambda>adj. Inr \<lparr>ns_hosts = hosts, ns_peers = adj, ns_supers = supers,
                                      ns_latency = latencyFromEdges ip (tp_Edges topo)\<rparr>)
                 (adjacencyFromEdges (length (tp_Nodes topo)) (tp_Edges topo))))"

record NetConfig =
  nt_N :: int
  nt_P :: int
  nt_SuperFrac :: rat
  nt_Seed :: "64 word"
  nt_MinLatency :: dur
  nt_MaxLatency :: dur

text \<open>What \<open>New\<close> and \<open>NewWithSchedule\<close> share: all but the peer graph.\<close>

definition build_random :: "(int \<Rightarrow> bool) \<Rightarrow> (int \<Rightarrow> 32 word) \<Rightarrow> 's rand_v2 \<Rightarrow> NetConfig \<Rightarrow> int \<Rightarrow>
  int list list option \<Rightarrow> (netsim_error + Netsim) option" where
  "build_random host_ok ip L cfg n adj =
     do {
       supers \<leftarrow> pickSupernodes L n (nt_SuperFrac cfg) (nt_Seed cfg);
       case buildHosts host_ok n (\<lambda>i. linkSettings (i \<in> supers)) of
         Inl e \<Rightarrow> Some (Inl e)
       | Inr hosts \<Rightarrow>
           map_option (\<lambda>adj. Inr \<lparr>ns_hosts = hosts, ns_peers = adj, ns_supers = supers,
               ns_latency = latencyFunc ip L n (nt_Seed cfg) (nt_MinLatency cfg) (nt_MaxLatency cfg)\<rparr>) adj
     }"

definition New :: "(int \<Rightarrow> bool) \<Rightarrow> (int \<Rightarrow> 32 word) \<Rightarrow> 's rand_v2 \<Rightarrow> NetConfig \<Rightarrow> (netsim_error + Netsim) option" where
  "New host_ok ip L cfg =
     build_random host_ok ip L cfg (nt_N cfg) (peerGraph L (nt_N cfg) (nt_P cfg) (nt_Seed cfg))"

definition NewWithSchedule ::
  "(int \<Rightarrow> bool) \<Rightarrow> (int \<Rightarrow> 32 word) \<Rightarrow> 's rand_v2 \<Rightarrow> Assignment \<Rightarrow> NetConfig \<Rightarrow> (netsim_error + Netsim) option" where
  "NewWithSchedule host_ok ip L a cfg =
     build_random host_ok ip L cfg (p_N (a_Params a)) (discv5Graph L a (nt_P cfg) (nt_Seed cfg))"

definition Peers :: "Netsim \<Rightarrow> int \<Rightarrow> int list option" where
  "Peers nw n = go_index (ns_peers nw) n"

definition IsSupernode :: "Netsim \<Rightarrow> int \<Rightarrow> bool" where
  "IsSupernode nw n \<longleftrightarrow> n \<in> ns_supers nw"

definition Len :: "Netsim \<Rightarrow> nat" where
  "Len nw = length (ns_hosts nw)"

end
