(* ===== verification/TopologyProps.thy ===== *)
theory TopologyProps
  imports Topology MembershipProps PlanView
begin

text \<open>
  What the topology guarantees: every peer graph is simple and symmetric, each subnet's members are
  connected among themselves, every link is dialed once, and the tables built from a topology file
  hold exactly what the file says.
\<close>

section \<open>Simple symmetric graphs\<close>

definition simple_adj :: "int \<Rightarrow> int list list \<Rightarrow> bool" where
  "simple_adj n adj \<longleftrightarrow> int (length adj) = n \<and>
     (\<forall>i \<in> {0..<n}. distinct (adj ! nat i) \<and> i \<notin> set (adj ! nat i) \<and>
        (\<forall>j \<in> set (adj ! nat i). j \<in> {0..<n} \<and> i \<in> set (adj ! nat j)))"

definition graph_ok :: "graph \<Rightarrow> bool" where
  "graph_ok g \<longleftrightarrow> int (length (g_adj g)) = g_n g \<and> g_edge g \<subseteq> {0..<g_n g} \<times> {0..<g_n g} \<and>
     sym (g_edge g) \<and> irrefl (g_edge g) \<and>
     (\<forall>i \<in> {0..<g_n g}. distinct (g_adj g ! nat i) \<and> set (g_adj g ! nat i) = {j. (i, j) \<in> g_edge g})"

lemma simple_adjD:
  assumes "simple_adj n adj"
  shows "int (length adj) = n" "\<forall>i \<in> {0..<n}. distinct (adj ! nat i)"
    "(i, j) \<in> {(i, j). i \<in> {0..<n} \<and> j \<in> set (adj ! nat i)} \<Longrightarrow> j \<in> {0..<n} \<and> i \<in> set (adj ! nat j) \<and> i \<noteq> j"
  using assms unfolding simple_adj_def by blast+

lemma graph_ok_simple: "graph_ok g \<Longrightarrow> simple_adj (g_n g) (g_adj g)"
  unfolding graph_ok_def simple_adj_def sym_def irrefl_def by (auto; blast)

lemma graph_ok_new: "newGraph n = Some g \<Longrightarrow> graph_ok g \<and> g_n g = n \<and> g_edge g = {}"
  by (auto simp: newGraph_def graph_ok_def sym_def irrefl_def split: if_splits)

text \<open>Growth: an operation keeps the node count and the edges it finds, and the invariant.\<close>

definition extends :: "graph \<Rightarrow> graph \<Rightarrow> bool" where
  "extends g g' \<longleftrightarrow> g_n g' = g_n g \<and> g_edge g \<subseteq> g_edge g' \<and> (graph_ok g \<longrightarrow> graph_ok g')"

lemma extends_refl [simp, intro]: "extends g g"
  by (simp add: extends_def)

lemma extends_trans [trans]: "extends g g' \<Longrightarrow> extends g' g'' \<Longrightarrow> extends g g''"
  by (auto simp: extends_def)

lemma length_push [simp]: "length (push i j adj) = length adj"
  by (simp add: push_def)

lemma push_nth:
  "i \<in> {0..<int (length adj)} \<Longrightarrow> l \<in> {0..<int (length adj)} \<Longrightarrow>
     push i j adj ! nat l = (if l = i then adj ! nat l @ [j] else adj ! nat l)"
  by (auto simp: push_def nth_list_update eq_nat_nat_iff)

lemma add_skip: "i = j \<or> i \<notin> {0..<g_n g} \<or> j \<notin> {0..<g_n g} \<or> (i, j) \<in> g_edge g \<Longrightarrow> add i j g = g"
  by (auto simp: add_def)

lemma graph_ok_add:
  assumes ok: "graph_ok g" and new: "i \<noteq> j" "i \<in> {0..<g_n g}" "j \<in> {0..<g_n g}" "(i, j) \<notin> g_edge g"
  shows "graph_ok (g\<lparr>g_edge := {(i, j), (j, i)} \<union> g_edge g, g_adj := push j i (push i j (g_adj g))\<rparr>)" (is "graph_ok ?g")
proof -
  have len: "int (length (g_adj g)) = g_n g" using ok by (simp add: graph_ok_def)
  have "sym (g_edge g)" using ok by (simp add: graph_ok_def)
  then have ji: "(j, i) \<notin> g_edge g" using new(4) by (meson symD)
  have adj: "push j i (push i j (g_adj g)) ! nat l =
      (if l = i then g_adj g ! nat l @ [j] else if l = j then g_adj g ! nat l @ [i] else g_adj g ! nat l)"
    if "l \<in> {0..<g_n g}" for l
    using that new(1-3) len by (simp add: push_nth)
  have "\<forall>l \<in> {0..<g_n g}. distinct (g_adj ?g ! nat l) \<and> set (g_adj ?g ! nat l) = {m. (l, m) \<in> g_edge ?g}"
    using ok new ji by (auto simp: adj graph_ok_def)
  then show ?thesis using ok new(1-3) len by (auto simp: graph_ok_def sym_def irrefl_def)
qed

lemma extends_add [intro]: "extends g (add i j g)"
proof (cases "i = j \<or> i \<notin> {0..<g_n g} \<or> j \<notin> {0..<g_n g} \<or> (i, j) \<in> g_edge g")
  case False
  then show ?thesis using graph_ok_add [of g i j] by (auto simp: add_def extends_def)
qed (metis add_skip extends_refl)

lemma extends_add_then: "extends (add i j g) g' \<Longrightarrow> extends g g'"
  by (rule extends_trans [OF extends_add])

lemma add_edge_in:
  "i \<in> {0..<g_n g} \<Longrightarrow> j \<in> {0..<g_n g} \<Longrightarrow> (i, j) \<in> g_edge (add i j g) \<or> i = j"
  by (auto simp: add_def)

lemma extends_foldl:
  assumes "\<And>gs x. extends (fst gs) (fst (f gs x))"
  shows "extends (fst gs) (fst (foldl f gs xs))"
proof (induction xs arbitrary: gs)
  case (Cons x xs)
  show ?case using extends_trans [OF assms Cons.IH] by simp
qed simp

lemma extends_tree_step: "extends (fst gs) (fst (tree_step draw ids gs i))"
  by (auto simp: tree_step_def split: prod.split)

lemma extends_randomTree: "extends (fst gs) (fst (randomTree draw ids gs))"
  unfolding randomTree_def by (rule extends_foldl) (rule extends_tree_step)

lemma extends_fill_node: "extends (fst gs) (fst (fill_node t draw k i gs))"
proof (induction t arbitrary: gs)
  case (Suc t)
  obtain g s where gs: "gs = (g, s)" by (cases gs)
  obtain j s' where d: "draw s (g_n g) = (j, s')" by (cases "draw s (g_n g)")
  from Suc [of "(add i j g, s')"] have "extends g (fst (fill_node t draw k i (add i j g, s')))"
    by (simp add: extends_add_then)
  then show ?case by (simp add: gs d)
qed simp

lemma extends_fill: "extends (fst gs) (fst (fill draw k gs))"
  unfolding fill_def by (rule extends_foldl) (rule extends_fill_node)

lemma extends_groupFill_node: "extends (fst gs) (fst (groupFill_node t draw ids target i c gs))"
proof (induction t arbitrary: c gs)
  case (Suc t)
  obtain g s where gs: "gs = (g, s)" by (cases gs)
  obtain k s' where d: "draw s (int (length ids)) = (k, s')" by (cases "draw s (int (length ids))")
  from Suc [of "(add i (ids ! nat k) g, s')" "c + 1"]
  have "extends g (fst (groupFill_node t draw ids target i (c + 1) (add i (ids ! nat k) g, s')))"
    by (simp add: extends_add_then)
  moreover have "extends g (fst (groupFill_node t draw ids target i c (g, s')))" using Suc [of "(g, s')" c] by simp
  ultimately show ?case by (simp add: gs d Let_def)
qed simp

lemma extends_trees: "extends (fst gs) (fst (trees draw subnets gs))"
  unfolding trees_def by (rule extends_foldl) (rule extends_randomTree)

text \<open>\<open>groupFill\<close> succeeds on members in range.\<close>

lemma foldO_extends:
  assumes "\<And>gs x. x \<in> set xs \<Longrightarrow> graph_ok (fst gs) \<Longrightarrow> g_n (fst gs) = n \<Longrightarrow> \<exists>gs'. f gs x = Some gs' \<and> extends (fst gs) (fst gs')"
    and "graph_ok (fst gs)" and "g_n (fst gs) = n"
  shows "\<exists>gs'. foldO f xs gs = Some gs' \<and> extends (fst gs) (fst gs')"
  using assms
proof (induction xs arbitrary: gs)
  case (Cons x xs)
  obtain gs1 where gs1: "f gs x = Some gs1" "extends (fst gs) (fst gs1)"
    using Cons.prems(1) [OF list.set_intros(1) Cons.prems(2,3)] by blast
  then have "graph_ok (fst gs1)" "g_n (fst gs1) = n" using Cons.prems(2,3) by (auto simp: extends_def)
  then obtain gs' where "foldO f xs gs1 = Some gs'" "extends (fst gs1) (fst gs')"
    using Cons.IH [of gs1] Cons.prems(1) by (meson list.set_intros(2))
  then show ?case using gs1 extends_trans by (auto split: option.split)
qed auto

lemma groupFill_ok:
  assumes "graph_ok (fst gs)" and "set ids \<subseteq> {0..<g_n (fst gs)}"
  shows "\<exists>gs'. groupFill draw ids k gs = Some gs' \<and> extends (fst gs) (fst gs')"
  unfolding groupFill_def
proof (rule foldO_extends [OF _ assms(1) refl])
  fix gs1 :: "graph \<times> 'a" and i assume "i \<in> set ids" "graph_ok (fst gs1)" "g_n (fst gs1) = g_n (fst gs)"
  then have "0 \<le> i" "i < int (length (g_adj (fst gs1)))" using assms(2) by (auto simp: graph_ok_def)
  then show "\<exists>gs'. groupFill_step draw ids k gs1 i = Some gs' \<and> extends (fst gs1) (fst gs')"
    using extends_groupFill_node [of gs1] by (cases gs1) (auto simp: groupFill_step_def)
qed

section \<open>Connectivity\<close>

definition connected_within :: "(int \<times> int) set \<Rightarrow> int set \<Rightarrow> bool" where
  "connected_within E S \<longleftrightarrow> (\<forall>x \<in> S. \<forall>y \<in> S. (x, y) \<in> (E \<inter> S \<times> S)\<^sup>*)"

lemma connected_within_mono: "E \<subseteq> E' \<Longrightarrow> connected_within E S \<Longrightarrow> connected_within E' S"
  unfolding connected_within_def by (meson Int_mono order_refl rtrancl_mono subsetD)

lemma connected_within_root:
  assumes "sym E" and "\<And>x. x \<in> S \<Longrightarrow> (r, x) \<in> (E \<inter> S \<times> S)\<^sup>*"
  shows "connected_within E S"
proof -
  have "sym (E \<inter> S \<times> S)" using assms(1) by (auto simp: sym_def)
  then have "sym ((E \<inter> S \<times> S)\<^sup>*)" by (rule sym_rtrancl)
  then show ?thesis unfolding connected_within_def using assms(2) by (meson rtrancl_trans symD)
qed

lemma randomTree_reaches:
  assumes "draw_ok draw" and "graph_ok (fst gs)" and "set ids \<subseteq> {0..<g_n (fst gs)}"
    and "m \<le> length ids" and "a < m"
  shows "(ids ! 0, ids ! a) \<in> (g_edge (fst (foldl (tree_step draw ids) gs [1..<m])) \<inter> set ids \<times> set ids)\<^sup>*"
  using assms(4,5)
proof (induction m arbitrary: a)
  case (Suc m)
  let ?gs = "foldl (tree_step draw ids) gs [1..<m]"
  show ?case
  proof (cases "m = 0")
    case False
    then have split: "[1..<Suc m] = [1..<m] @ [m]" by simp
    have ext: "extends (fst gs) (fst ?gs)" by (rule extends_foldl) (rule extends_tree_step)
    obtain g s where gs: "?gs = (g, s)" by (cases ?gs)
    obtain k s' where d: "draw s (int m) = (k, s')" by (cases "draw s (int m)")
    have k: "0 \<le> k" "k < int m"
      using assms(1) False d unfolding draw_ok_def by (metis fst_conv of_nat_0_less_iff neq0_conv)+
    let ?E = "g_edge (add (ids ! m) (ids ! nat k) g)"
    have step: "fst (foldl (tree_step draw ids) gs [1..<Suc m]) = add (ids ! m) (ids ! nat k) g"
      unfolding split foldl_append foldl_Cons foldl_Nil gs by (simp add: tree_step_def d)
    have mem: "ids ! m \<in> set ids" "ids ! nat k \<in> set ids" using k Suc.prems(1) by simp_all
    then have "ids ! m \<in> {0..<g_n g}" "ids ! nat k \<in> {0..<g_n g}"
      using assms(3) ext gs by (auto simp: extends_def)
    then have new: "(ids ! m, ids ! nat k) \<in> ?E \<or> ids ! m = ids ! nat k" by (rule add_edge_in)
    have "graph_ok g" using ext gs assms(2) by (auto simp: extends_def)
    then have "graph_ok (add (ids ! m) (ids ! nat k) g)" "g_edge g \<subseteq> ?E"
      using extends_add [of g] by (auto simp: extends_def)
    then have sub: "(g_edge g \<inter> set ids \<times> set ids)\<^sup>* \<subseteq> (?E \<inter> set ids \<times> set ids)\<^sup>*" and "sym ?E"
      by (auto simp: graph_ok_def intro!: rtrancl_mono)
    have old: "(ids ! 0, ids ! b) \<in> (?E \<inter> set ids \<times> set ids)\<^sup>*" if "b < m" for b
      using Suc.IH [OF _ that] Suc.prems(1) sub gs by auto
    show ?thesis
    proof (cases "a = m")
      case True
      have "(ids ! 0, ids ! nat k) \<in> (?E \<inter> set ids \<times> set ids)\<^sup>*" using k by (intro old) linarith
      moreover have "ids ! m = ids ! nat k \<or> (ids ! nat k, ids ! m) \<in> ?E \<inter> set ids \<times> set ids"
        using new mem \<open>sym ?E\<close> by (auto dest: symD)
      ultimately show ?thesis unfolding step True by (auto intro: rtrancl_into_rtrancl)
    qed (use old Suc.prems(2) step in auto)
  qed (use Suc.prems(2) in simp)
qed simp

lemma randomTree_connects:
  assumes "draw_ok draw" and "graph_ok (fst gs)" and "set ids \<subseteq> {0..<g_n (fst gs)}"
  shows "connected_within (g_edge (fst (randomTree draw ids gs))) (set ids)"
proof (rule connected_within_root)
  have "graph_ok (fst (randomTree draw ids gs))" using extends_randomTree [of gs draw ids] assms(2) by (simp add: extends_def)
  then show "sym (g_edge (fst (randomTree draw ids gs)))" by (simp add: graph_ok_def)
next
  fix x assume "x \<in> set ids"
  then obtain a where "a < length ids" "x = ids ! a" by (auto simp: in_set_conv_nth)
  then show "(ids ! 0, x) \<in> (g_edge (fst (randomTree draw ids gs)) \<inter> set ids \<times> set ids)\<^sup>*"
    using randomTree_reaches [OF assms order_refl] by (simp add: randomTree_def)
qed

lemma trees_connect:
  assumes "draw_ok draw" and "graph_ok (fst gs)" and "\<forall>ids \<in> set subnets. set ids \<subseteq> {0..<g_n (fst gs)}"
    and "ids \<in> set subnets"
  shows "connected_within (g_edge (fst (trees draw subnets gs))) (set ids)"
  using assms(2-)
proof (induction subnets arbitrary: gs)
  case (Cons sub subnets)
  let ?gs = "randomTree draw sub gs"
  have ext: "extends (fst gs) (fst ?gs)" by (rule extends_randomTree)
  then have ok: "graph_ok (fst ?gs)" "g_n (fst ?gs) = g_n (fst gs)" using Cons.prems(1) by (auto simp: extends_def)
  have later: "extends (fst ?gs) (fst (trees draw subnets ?gs))" by (rule extends_trees)
  have eq: "trees draw (sub # subnets) gs = trees draw subnets ?gs" by (simp add: trees_def)
  show ?case
  proof (cases "ids = sub")
    case True
    then have "connected_within (g_edge (fst ?gs)) (set ids)"
      using randomTree_connects [OF assms(1) Cons.prems(1)] Cons.prems(2) by simp
    then show ?thesis unfolding eq using later by (auto simp: extends_def elim: connected_within_mono [rotated])
  next
    case False
    then show ?thesis unfolding eq using Cons.IH [OF ok(1)] Cons.prems(2,3) ok(2) by simp
  qed
qed simp

section \<open>The planned network\<close>

definition adj_edges :: "int list list \<Rightarrow> (int \<times> int) set" where
  "adj_edges adj = {(i, j). i \<in> {0..<int (length adj)} \<and> j \<in> set (adj ! nat i)}"

lemma adj_edges_graph: "graph_ok g \<Longrightarrow> adj_edges (g_adj g) = g_edge g"
  by (auto simp: graph_ok_def adj_edges_def)

lemma connected_within_trivial: "S \<subseteq> {x} \<Longrightarrow> connected_within E S"
  by (auto simp: connected_within_def)

definition plan_lists :: "Assignment \<Rightarrow> int list set" where
  "plan_lists a = set (a_SubnetSubscribers a) \<union> set (a_ColumnSubscribers a) \<union> set (a_SyncSubscribers a) \<union>
     set (a_FinalitySubscribers a)"

definition plan_in_range :: "Assignment \<Rightarrow> bool" where
  "plan_in_range a \<longleftrightarrow> 0 \<le> p_N (a_Params a) \<and> (\<forall>ids \<in> plan_lists a. set ids \<subseteq> {0..<p_N (a_Params a)})"

lemma extends_connected:
  "extends g g' \<Longrightarrow> connected_within (g_edge g) S \<Longrightarrow> connected_within (g_edge g') S"
  by (auto simp: extends_def elim: connected_within_mono [rotated])

lemma flood_group_ok:
  assumes "draw_ok draw" and "graph_ok (fst gs)" and "set ids \<subseteq> {0..<g_n (fst gs)}"
  shows "\<exists>gs'. flood_group draw gs ids = Some gs' \<and> extends (fst gs) (fst gs') \<and>
    connected_within (g_edge (fst gs')) (set ids)"
proof -
  let ?gs = "randomTree draw ids gs"
  have ext: "extends (fst gs) (fst ?gs)" by (rule extends_randomTree)
  then have "graph_ok (fst ?gs)" "set ids \<subseteq> {0..<g_n (fst ?gs)}" using assms(2,3) by (auto simp: extends_def)
  then obtain gs' where "groupFill draw ids finalityGroupDegree ?gs = Some gs'" "extends (fst ?gs) (fst gs')"
    using groupFill_ok by blast
  then show ?thesis
    using extends_trans [OF ext] extends_connected randomTree_connects [OF assms]
    by (metis flood_group_def)
qed

lemma flood_groups_ok:
  assumes "draw_ok draw" and "graph_ok (fst gs)" and "\<forall>ids \<in> set subnets. set ids \<subseteq> {0..<g_n (fst gs)}"
  shows "\<exists>gs'. foldO (flood_group draw) subnets gs = Some gs' \<and> extends (fst gs) (fst gs') \<and>
    (\<forall>ids \<in> set subnets. connected_within (g_edge (fst gs')) (set ids))"
  using assms(2,3)
proof (induction subnets arbitrary: gs)
  case (Cons ids subnets)
  obtain gs1 where gs1: "flood_group draw gs ids = Some gs1" "extends (fst gs) (fst gs1)"
    "connected_within (g_edge (fst gs1)) (set ids)"
    using flood_group_ok [OF assms(1) Cons.prems(1), of ids] Cons.prems(2) by auto
  then have "graph_ok (fst gs1)" "\<forall>ids \<in> set subnets. set ids \<subseteq> {0..<g_n (fst gs1)}"
    using Cons.prems by (auto simp: extends_def)
  from Cons.IH [OF this] obtain gs' where gs': "foldO (flood_group draw) subnets gs1 = Some gs'" "extends (fst gs1) (fst gs')"
    "\<forall>ids \<in> set subnets. connected_within (g_edge (fst gs')) (set ids)" by blast
  have "connected_within (g_edge (fst gs')) (set ids)" using extends_connected [OF gs'(2) gs1(3)] .
  moreover have "extends (fst gs) (fst gs')" using extends_trans [OF gs1(2) gs'(2)] .
  ultimately show ?case using gs1(1) gs'(1,3) by auto
qed auto

lemma seq_connected: "0 \<le> n \<Longrightarrow> set (seq n) = {0..<n}"
  by (auto simp: seq_def)

text \<open>
  C15: the network a plan gets is fit for its topics.  On a plan whose subscriber lists name nodes of the
  fleet, the builder never panics, whatever the generator draws; every node's peer list is free of
  duplicates and of itself and peerhood is mutual; the whole fleet is connected, and so is every
  subnet's, column's, sync subnet's and finality subnet's membership, by links between its own members.
\<close>

theorem planned_network_connected:
  assumes "draw_ok (rv_IntN L)" and "plan_in_range a"
  shows "\<exists>adj. discv5Graph L a k seed = Some adj \<and> simple_adj (p_N (a_Params a)) adj \<and>
    (\<forall>ids \<in> insert (seq (p_N (a_Params a))) (plan_lists a). connected_within (adj_edges adj) (set ids))"
proof -
  let ?n = "p_N (a_Params a)" and ?draw = "rv_IntN L"
  have n: "0 \<le> ?n" and range: "\<forall>ids \<in> plan_lists a. set ids \<subseteq> {0..<?n}" using assms(2) by (simp_all add: plan_in_range_def)
  obtain g where g: "newGraph ?n = Some g" using n by (simp add: newGraph_def)
  then have g_ok: "graph_ok g" "g_n g = ?n" using graph_ok_new by blast+
  show ?thesis
  proof (cases "?n < 2")
    case True
    have "{0..<?n} \<subseteq> {0}" using True by auto
    then have "\<forall>ids \<in> insert (seq ?n) (plan_lists a). set ids \<subseteq> {0}" using range seq_connected [OF n] by blast
    then show ?thesis using True g graph_ok_simple [OF g_ok(1)] g_ok(2) connected_within_trivial
      by (auto simp: discv5Graph_def)
  next
    case False
    let ?k = "if k > ?n - 1 then ?n - 1 else k"
    let ?g0 = "randomTree ?draw (seq ?n) (g, rv_PCG L seed peersStream)"
    let ?g1 = "trees ?draw (a_SubnetSubscribers a) ?g0"
    let ?g2 = "trees ?draw (a_ColumnSubscribers a) ?g1"
    let ?g3 = "trees ?draw (a_SyncSubscribers a) ?g2"
    have e0: "extends g (fst ?g0)" using extends_randomTree [of "(g, _)"] by simp
    note e = e0 extends_trees [of ?g0] extends_trees [of ?g1] extends_trees [of ?g2]
    have e1: "extends g (fst ?g1)" and e2: "extends g (fst ?g2)" and e3: "extends g (fst ?g3)"
      using e by (meson extends_trans)+
    have ok: "graph_ok (fst h) \<and> g_n (fst h) = ?n" if "extends g (fst h)" for h :: "graph \<times> 'a"
      using that g_ok by (auto simp: extends_def)
    have lists: "\<forall>ids \<in> set xs. set ids \<subseteq> {0..<g_n (fst h)}" if "set xs \<subseteq> plan_lists a" "extends g (fst h)"
      for xs and h :: "graph \<times> 'a" using range that ok by auto
    have fin: "\<forall>ids \<in> set (a_FinalitySubscribers a). set ids \<subseteq> {0..<g_n (fst ?g3)}"
      by (rule lists [OF _ e3]) (simp add: plan_lists_def)
    have c0: "connected_within (g_edge (fst ?g0)) (set (seq ?n))"
      using g_ok seq_connected [OF n] by (intro randomTree_connects [OF assms(1)]) auto
    have c1: "\<forall>ids \<in> set (a_SubnetSubscribers a). connected_within (g_edge (fst ?g1)) (set ids)"
      using ok [OF e0] lists [OF _ e0] by (intro ballI trees_connect [OF assms(1)]) (auto simp: plan_lists_def)
    have c2: "\<forall>ids \<in> set (a_ColumnSubscribers a). connected_within (g_edge (fst ?g2)) (set ids)"
      using ok [OF e1] lists [OF _ e1] by (intro ballI trees_connect [OF assms(1)]) (auto simp: plan_lists_def)
    have c3: "\<forall>ids \<in> set (a_SyncSubscribers a). connected_within (g_edge (fst ?g3)) (set ids)"
      using ok [OF e2] lists [OF _ e2] by (intro ballI trees_connect [OF assms(1)]) (auto simp: plan_lists_def)
    obtain gs where gs: "foldO (flood_group ?draw) (a_FinalitySubscribers a) ?g3 = Some gs"
      "extends (fst ?g3) (fst gs)" "\<forall>ids \<in> set (a_FinalitySubscribers a). connected_within (g_edge (fst gs)) (set ids)"
      using flood_groups_ok [OF assms(1) conjunct1 [OF ok [OF e3]] fin] by blast
    let ?F = "fst (fill ?draw ?k gs)"
    have last: "extends (fst gs) ?F" by (rule extends_fill)
    note x3 = extends_trans [OF gs(2) last]
    note x2 = extends_trans [OF e(4) x3]
    note x1 = extends_trans [OF e(3) x2]
    note x0 = extends_trans [OF e(2) x1]
    have all: "\<forall>ids \<in> insert (seq ?n) (plan_lists a). connected_within (g_edge ?F) (set ids)"
      unfolding plan_lists_def ball_simps(7) ball_Un
      using extends_connected [OF x0 c0] c1 [THEN bspec, THEN extends_connected [OF x1]]
        c2 [THEN bspec, THEN extends_connected [OF x2]] c3 [THEN bspec, THEN extends_connected [OF x3]]
        gs(3) [THEN bspec, THEN extends_connected [OF last]] by blast
    have fin: "extends g (fst (fill ?draw ?k gs))" using e3 gs(2) last by (meson extends_trans)
    have "discv5Graph L a k seed = Some (g_adj (fst (fill ?draw ?k gs)))"
      using False g gs(1) by (simp add: discv5Graph_def Let_def)
    then show ?thesis
      using all ok [OF fin] graph_ok_simple adj_edges_graph by fastforce
  qed
qed

definition ex_rand :: "unit rand_v2" where
  "ex_rand = \<lparr>rv_PCG = \<lambda>_ _. (), rv_IntN = \<lambda>s n. (n - 1, s), rv_Int64N = \<lambda>s n. (n - 1, s), rv_Perm = \<lambda>_ n. [0..n - 1]\<rparr>"

lemma ex_rand_ok: "draw_ok (rv_IntN ex_rand)" "draw_ok (rv_Int64N ex_rand)" "perm_ok ex_rand"
  by (auto simp: ex_rand_def draw_ok_def perm_ok_def)

theorem planned_network_connected_witness:
  "\<exists>adj. discv5Graph ex_rand example_plan 1 7 = Some adj \<and> simple_adj (p_N (a_Params example_plan)) adj \<and>
    (\<forall>ids \<in> insert (seq (p_N (a_Params example_plan))) (plan_lists example_plan). connected_within (adj_edges adj) (set ids))"
proof -
  have "plan_in_range example_plan" unfolding plan_in_range_def plan_lists_def by code_simp
  then show ?thesis by (rule planned_network_connected [OF ex_rand_ok(1)])
qed

section \<open>Topology files\<close>

definition edge_in_range :: "int \<Rightarrow> TopoEdge \<Rightarrow> bool" where
  "edge_in_range n e \<longleftrightarrow> te_Source e = te_Target e \<or> te_Source e \<in> {0..<n} \<and> te_Target e \<in> {0..<n}"

text \<open>One edge of the file is one \<open>add\<close> of the graph builder, and panics outside the range.\<close>

lemma add_edge_add:
  assumes "graph_ok g"
  shows "add_edge (g_edge g, g_adj g) e =
    (if edge_in_range (g_n g) e then Some (g_edge (add (te_Source e) (te_Target e) g), g_adj (add (te_Source e) (te_Target e) g))
     else None)"
proof -
  have sym: "(te_Target e, te_Source e) \<in> g_edge g \<longleftrightarrow> (te_Source e, te_Target e) \<in> g_edge g"
    and len: "int (length (g_adj g)) = g_n g" using assms by (auto simp: graph_ok_def sym_def)
  show ?thesis
    using sym len by (auto simp: add_edge_def add_directed_def add_def edge_in_range_def insert_commute)
qed

lemma foldO_add_edge:
  assumes "graph_ok g"
  shows "foldO add_edge edges (g_edge g, g_adj g) =
    (if \<forall>e \<in> set edges. edge_in_range (g_n g) e
     then (let g' = foldl (\<lambda>g e. add (te_Source e) (te_Target e) g) g edges in Some (g_edge g', g_adj g')) else None)"
  using assms
proof (induction edges arbitrary: g)
  case (Cons e edges)
  have "graph_ok (add (te_Source e) (te_Target e) g)" "g_n (add (te_Source e) (te_Target e) g) = g_n g"
    using extends_add [of g] Cons.prems by (auto simp: extends_def)
  then show ?case using Cons.IH add_edge_add [OF Cons.prems] by (auto simp: Let_def)
qed simp

definition file_edges :: "TopoEdge list \<Rightarrow> (int \<times> int) set" where
  "file_edges edges = {(i, j). i \<noteq> j \<and> (\<exists>e \<in> set edges. {te_Source e, te_Target e} = {i, j})}"

lemma foldl_add_edges:
  assumes "graph_ok g" and "\<forall>e \<in> set edges. edge_in_range (g_n g) e"
  shows "g_edge (foldl (\<lambda>g e. add (te_Source e) (te_Target e) g) g edges) = g_edge g \<union> file_edges edges \<and>
    graph_ok (foldl (\<lambda>g e. add (te_Source e) (te_Target e) g) g edges) \<and>
    g_n (foldl (\<lambda>g e. add (te_Source e) (te_Target e) g) g edges) = g_n g"
  using assms
proof (induction edges arbitrary: g)
  case (Cons e edges)
  let ?g = "add (te_Source e) (te_Target e) g"
  have ok: "graph_ok ?g" "g_n ?g = g_n g" using extends_add [of g] Cons.prems(1) by (auto simp: extends_def)
  have "sym (g_edge g)" "irrefl (g_edge g)" using Cons.prems(1) by (auto simp: graph_ok_def)
  then have "g_edge ?g = g_edge g \<union> {(i, j). i \<noteq> j \<and> {te_Source e, te_Target e} = {i, j}}"
    using Cons.prems(2) by (auto simp: add_def edge_in_range_def doubleton_eq_iff irrefl_def dest: symD)
  moreover have "file_edges (e # edges) = {(i, j). i \<noteq> j \<and> {te_Source e, te_Target e} = {i, j}} \<union> file_edges edges"
    by (auto simp: file_edges_def)
  ultimately show ?case using Cons.IH [OF ok(1)] Cons.prems(2) ok(2) by auto
qed (simp add: file_edges_def)

lemma adjacencyFromEdges_Some:
  "adjacencyFromEdges n edges = Some adj \<Longrightarrow> simple_adj (int n) adj \<and> adj_edges adj = file_edges edges"
  "adjacencyFromEdges n edges \<noteq> None \<longleftrightarrow> (\<forall>e \<in> set edges. edge_in_range (int n) e)"
proof -
  obtain g where g: "newGraph (int n) = Some g" by (simp add: newGraph_def)
  then have ok: "graph_ok g" "g_n g = int n" "g_edge g = {}" using graph_ok_new by blast+
  have adj: "g_adj g = replicate n []" using g by (auto simp: newGraph_def)
  let ?g = "foldl (\<lambda>g e. add (te_Source e) (te_Target e) g) g edges"
  have eq: "adjacencyFromEdges n edges = (if \<forall>e \<in> set edges. edge_in_range (int n) e then Some (g_adj ?g) else None)"
    using foldO_add_edge [OF ok(1), of edges] unfolding adjacencyFromEdges_def ok(2,3) adj by (simp add: Let_def)
  show "adjacencyFromEdges n edges \<noteq> None \<longleftrightarrow> (\<forall>e \<in> set edges. edge_in_range (int n) e)" unfolding eq by simp
  assume "adjacencyFromEdges n edges = Some adj"
  then have "\<forall>e \<in> set edges. edge_in_range (g_n g) e" "adj = g_adj ?g" unfolding eq using ok(2) by (simp_all split: if_splits)
  then show "simple_adj (int n) adj \<and> adj_edges adj = file_edges edges"
    using foldl_add_edges [OF ok(1), of edges] ok(2,3) graph_ok_simple [of ?g] adj_edges_graph [of ?g] by auto
qed

lemma buildHosts_from_eq:
  "buildHosts_from host_ok linkOf is hs =
     (case find (\<lambda>i. \<not> host_ok i) is of Some i \<Rightarrow> Inl (BuildHost i) | None \<Rightarrow> Inr (hs @ map linkOf is))"
  by (induction "is" arbitrary: hs) (auto split: option.split)

lemma buildHosts_Inr:
  "buildHosts host_ok n linkOf = Inr hs \<longleftrightarrow> (\<forall>i \<in> {0..<n}. host_ok i) \<and> hs = map linkOf [0..n - 1]"
  by (auto simp: buildHosts_def buildHosts_from_eq find_None_iff find_Some_iff split: option.splits)

lemma place_nodes_Inr:
  "place_nodes n nds (links, supers) = Inr (links', supers') \<Longrightarrow>
     distinct (map tn_Num nds) \<and> (\<forall>nd \<in> set nds. tn_Num nd \<in> {0..<n} \<and> links (tn_Num nd) = None \<and>
       links' (tn_Num nd) = Some (bwLinkSettings (tn_UploadMbps nd) (tn_DownloadMbps nd))) \<and>
     (\<forall>i. i \<notin> tn_Num ` set nds \<longrightarrow> links' i = links i) \<and>
     supers' = supers \<union> tn_Num ` {nd \<in> set nds. superMbps \<le> tn_UploadMbps nd}"
proof (induction n nds "(links, supers)" arbitrary: links supers rule: place_nodes.induct)
  case (2 n nd nds links supers)
  let ?l = "links(tn_Num nd \<mapsto> bwLinkSettings (tn_UploadMbps nd) (tn_DownloadMbps nd))"
    and ?s = "if superMbps \<le> tn_UploadMbps nd then insert (tn_Num nd) supers else supers"
  have ok: "\<not> (tn_Num nd < 0 \<or> n \<le> tn_Num nd)" "links (tn_Num nd) = None"
    and rest: "place_nodes n nds (?l, ?s) = Inr (links', supers')"
    using 2(2) by (auto split: if_splits)
  from 2(1) [OF _ _ rest] ok
  have IH: "distinct (map tn_Num nds)"
    "\<forall>x \<in> set nds. tn_Num x \<in> {0..<n} \<and> ?l (tn_Num x) = None \<and>
       links' (tn_Num x) = Some (bwLinkSettings (tn_UploadMbps x) (tn_DownloadMbps x))"
    "\<forall>i. i \<notin> tn_Num ` set nds \<longrightarrow> links' i = ?l i"
    "supers' = ?s \<union> tn_Num ` {x \<in> set nds. superMbps \<le> tn_UploadMbps x}" by simp_all
  have new: "tn_Num nd \<notin> tn_Num ` set nds" using IH(2) by (auto simp: image_iff)
  have old: "tn_Num x \<noteq> tn_Num nd \<and> links (tn_Num x) = None" if "x \<in> set nds" for x
    using bspec [OF IH(2) that] by (auto split: if_splits)
  have "links' (tn_Num nd) = Some (bwLinkSettings (tn_UploadMbps nd) (tn_DownloadMbps nd))" using IH(3) new by simp
  moreover have "\<forall>i. i \<notin> tn_Num ` set (nd # nds) \<longrightarrow> links' i = links i" using IH(3) by simp
  moreover have "supers' = supers \<union> tn_Num ` {x \<in> set (nd # nds). superMbps \<le> tn_UploadMbps x}"
    unfolding IH(4) by auto
  ultimately show ?case using IH(1,2) old new ok by simp
qed simp

lemma place_nodes_accepts:
  assumes "distinct (map tn_Num nds)" and "\<forall>nd \<in> set nds. tn_Num nd \<in> {0..<n} \<and> links (tn_Num nd) = None"
  shows "\<exists>st. place_nodes n nds (links, supers) = Inr st"
  using assms
proof (induction nds arbitrary: links supers)
  case (Cons nd nds)
  let ?l = "links(tn_Num nd \<mapsto> bwLinkSettings (tn_UploadMbps nd) (tn_DownloadMbps nd))"
  have "\<forall>x \<in> set nds. tn_Num x \<in> {0..<n} \<and> ?l (tn_Num x) = None" using Cons.prems by (auto simp: image_iff)
  from Cons.IH [OF _ this] have "\<exists>st. place_nodes n nds (?l, s) = Inr st" for s
    using Cons.prems(1) by (simp del: fun_upd_apply)
  then show ?case using Cons.prems by (simp del: fun_upd_apply split del: if_split)
qed simp

lemma contiguous_iff:
  "set (map f xs) = {0..<int (length xs)} \<longleftrightarrow> distinct (map f xs) \<and> set (map f xs) \<subseteq> {0..<int (length xs)}"
proof -
  have "card {0..<int (length xs)} = length (map f xs)" by simp
  then show ?thesis by (metis card_distinct card_subset_eq distinct_card finite_atLeastLessThan_int order_refl)
qed

lemma place_nodes_iff:
  "(\<exists>st. place_nodes (int (length nds)) nds (Map.empty, {}) = Inr st) \<longleftrightarrow> set (map tn_Num nds) = {0..<int (length nds)}"
proof
  assume "\<exists>st. place_nodes (int (length nds)) nds (Map.empty, {}) = Inr st"
  then obtain l s where "place_nodes (int (length nds)) nds (Map.empty, {}) = Inr (l, s)" by auto
  from place_nodes_Inr [OF this] show "set (map tn_Num nds) = {0..<int (length nds)}" unfolding contiguous_iff by auto
next
  assume "set (map tn_Num nds) = {0..<int (length nds)}"
  then show "\<exists>st. place_nodes (int (length nds)) nds (Map.empty, {}) = Inr st"
    unfolding contiguous_iff by (intro place_nodes_accepts) auto
qed

lemma NewFromTopology_Inr:
  assumes "NewFromTopology host_ok ip topo = Some (Inr nw)"
  obtains links supers where "place_nodes (int (length (tp_Nodes topo))) (tp_Nodes topo) (Map.empty, {}) = Inr (links, supers)"
    "\<forall>i \<in> {0..<int (length (tp_Nodes topo))}. host_ok i"
    "ns_hosts nw = map (\<lambda>i. case links i of Some l \<Rightarrow> l | None \<Rightarrow> bwLinkSettings 0 0) [0..int (length (tp_Nodes topo)) - 1]"
    "adjacencyFromEdges (length (tp_Nodes topo)) (tp_Edges topo) = Some (ns_peers nw)" "ns_supers nw = supers"
    "ns_latency nw = latencyFromEdges ip (tp_Edges topo)"
  using assms that by (auto simp: NewFromTopology_def Let_def buildHosts_Inr split: sum.splits prod.splits)

text \<open>
  C29: exactly the well-formed topology files are accepted.  The network is built exactly when the node
  numbers are the contiguous range, every host comes up and every edge joins nodes of the range (or a
  node with itself, which is dropped); an edge that leaves the range is no error but a panic.
\<close>

theorem topology_accepted_iff:
  "((\<exists>nw. NewFromTopology host_ok ip topo = Some (Inr nw)) \<longleftrightarrow>
      set (map tn_Num (tp_Nodes topo)) = {0..<int (length (tp_Nodes topo))} \<and>
      (\<forall>i \<in> {0..<int (length (tp_Nodes topo))}. host_ok i) \<and>
      (\<forall>e \<in> set (tp_Edges topo). edge_in_range (int (length (tp_Nodes topo))) e)) \<and>
   (NewFromTopology host_ok ip topo = None \<longleftrightarrow>
      set (map tn_Num (tp_Nodes topo)) = {0..<int (length (tp_Nodes topo))} \<and>
      (\<forall>i \<in> {0..<int (length (tp_Nodes topo))}. host_ok i) \<and>
      \<not> (\<forall>e \<in> set (tp_Edges topo). edge_in_range (int (length (tp_Nodes topo))) e))"
proof -
  let ?place = "place_nodes (int (length (tp_Nodes topo))) (tp_Nodes topo) (Map.empty, {})"
  let ?adj = "adjacencyFromEdges (length (tp_Nodes topo)) (tp_Edges topo)"
  show ?thesis
    unfolding place_nodes_iff [symmetric] adjacencyFromEdges_Some(2) [symmetric]
  proof (cases ?place)
    case (Inr st)
    obtain links supers where st: "st = (links, supers)" by (cases st)
    let ?b = "buildHosts host_ok (int (length (tp_Nodes topo))) (\<lambda>i. case links i of Some l \<Rightarrow> l | None \<Rightarrow> bwLinkSettings 0 0)"
    have "(\<exists>hs. ?b = Inr hs) \<longleftrightarrow> (\<forall>i \<in> {0..<int (length (tp_Nodes topo))}. host_ok i)" by (simp add: buildHosts_Inr)
    then show "((\<exists>nw. NewFromTopology host_ok ip topo = Some (Inr nw)) \<longleftrightarrow>
        (\<exists>st. ?place = Inr st) \<and> (\<forall>i \<in> {0..<int (length (tp_Nodes topo))}. host_ok i) \<and> ?adj \<noteq> None) \<and>
        (NewFromTopology host_ok ip topo = None \<longleftrightarrow>
        (\<exists>st. ?place = Inr st) \<and> (\<forall>i \<in> {0..<int (length (tp_Nodes topo))}. host_ok i) \<and> \<not> ?adj \<noteq> None)"
      using Inr st by (cases ?b; cases ?adj) (auto simp: NewFromTopology_def Let_def)
  qed (auto simp: NewFromTopology_def Let_def)
qed

definition ex_topo :: TopologyFile where
  "ex_topo = \<lparr>tp_Nodes = [\<lparr>tn_Num = 1, tn_UploadMbps = 25, tn_DownloadMbps = 50, tn_Country = ''de''\<rparr>,
       \<lparr>tn_Num = 0, tn_UploadMbps = 1024, tn_DownloadMbps = 1024, tn_Country = ''us''\<rparr>],
     tp_Edges = [\<lparr>te_Source = 0, te_Target = 1, te_LatencyMs = 30\<rparr>, \<lparr>te_Source = 1, te_Target = 0, te_LatencyMs = 45\<rparr>]\<rparr>"

theorem topology_accepted_iff_witness:
  "(\<exists>nw. NewFromTopology (\<lambda>_. True) word_of_int ex_topo = Some (Inr nw)) \<and>
   NewFromTopology (\<lambda>_. True) word_of_int (ex_topo\<lparr>tp_Edges := [\<lparr>te_Source = 0, te_Target = 2, te_LatencyMs = 30\<rparr>]\<rparr>) = None"
proof -
  have r: "set (map tn_Num (tp_Nodes ex_topo)) = {0..<int (length (tp_Nodes ex_topo))}"
    by (auto simp: ex_topo_def)
  have "\<forall>e \<in> set (tp_Edges ex_topo). edge_in_range (int (length (tp_Nodes ex_topo))) e"
    by (simp add: ex_topo_def edge_in_range_def)
  with r have "\<exists>nw. NewFromTopology (\<lambda>_. True) word_of_int ex_topo = Some (Inr nw)"
    using topology_accepted_iff [of "\<lambda>_. True" word_of_int ex_topo] by blast
  moreover let ?t = "ex_topo\<lparr>tp_Edges := [\<lparr>te_Source = 0, te_Target = 2, te_LatencyMs = 30\<rparr>]\<rparr>"
  have "set (map tn_Num (tp_Nodes ?t)) = {0..<int (length (tp_Nodes ?t))}" using r by simp
  moreover have "\<not> (\<forall>e \<in> set (tp_Edges ?t). edge_in_range (int (length (tp_Nodes ?t))) e)"
    by (simp add: ex_topo_def edge_in_range_def)
  ultimately show ?thesis using topology_accepted_iff [of "\<lambda>_. True" word_of_int ?t] by blast
qed

text \<open>
  The network is the one in the file.  Every node gets its own bandwidths and is a supernode exactly
  from 1024 Mbps up, two nodes are peers exactly when an edge of the file joins them in some direction,
  each peer list is free of duplicates and mutual.
\<close>

theorem topology_network_faithful:
  assumes "NewFromTopology host_ok ip topo = Some (Inr nw)"
  shows "Len nw = length (tp_Nodes topo) \<and> simple_adj (int (Len nw)) (ns_peers nw) \<and>
    (\<forall>nd \<in> set (tp_Nodes topo).
       ns_hosts nw ! nat (tn_Num nd) = \<lparr>ls_Down = tn_DownloadMbps nd * 1000000, ls_Up = tn_UploadMbps nd * 1000000\<rparr> \<and>
       (IsSupernode nw (tn_Num nd) \<longleftrightarrow> 1024 \<le> tn_UploadMbps nd)) \<and>
    (\<forall>i j. (i, j) \<in> adj_edges (ns_peers nw) \<longleftrightarrow> i \<noteq> j \<and> (\<exists>e \<in> set (tp_Edges topo). {te_Source e, te_Target e} = {i, j}))"
proof -
  obtain links supers where st: "place_nodes (int (length (tp_Nodes topo))) (tp_Nodes topo) (Map.empty, {}) = Inr (links, supers)"
    and hosts: "ns_hosts nw = map (\<lambda>i. case links i of Some l \<Rightarrow> l | None \<Rightarrow> bwLinkSettings 0 0) [0..int (length (tp_Nodes topo)) - 1]"
    and adj: "adjacencyFromEdges (length (tp_Nodes topo)) (tp_Edges topo) = Some (ns_peers nw)" and sup: "ns_supers nw = supers"
    by (rule NewFromTopology_Inr [OF assms])
  note placed = place_nodes_Inr [OF st]
  have len: "Len nw = length (tp_Nodes topo)" by (simp add: Len_def hosts)
  have "ns_hosts nw ! nat (tn_Num nd) = bwLinkSettings (tn_UploadMbps nd) (tn_DownloadMbps nd)"
    if "nd \<in> set (tp_Nodes topo)" for nd
    using placed that unfolding hosts by (auto simp: nth_upto)
  moreover have "IsSupernode nw (tn_Num nd) \<longleftrightarrow> superMbps \<le> tn_UploadMbps nd" if "nd \<in> set (tp_Nodes topo)" for nd
  proof -
    have "x = nd" if "x \<in> set (tp_Nodes topo)" "tn_Num x = tn_Num nd" for x
      using placed that \<open>nd \<in> set (tp_Nodes topo)\<close> by (meson distinct_map inj_onD)
    then show ?thesis using placed that by (auto simp: IsSupernode_def sup)
  qed
  ultimately show ?thesis
    using adjacencyFromEdges_Some(1) [OF adj] len by (simp add: bwLinkSettings_def superMbps_def file_edges_def)
qed

theorem topology_network_faithful_witness:
  "\<exists>nw. NewFromTopology (\<lambda>_. True) word_of_int ex_topo = Some (Inr nw) \<and> IsSupernode nw 0 \<and> (0, 1) \<in> adj_edges (ns_peers nw)"
proof -
  have "NewFromTopology (\<lambda>_. True) word_of_int ex_topo \<noteq> None" "isl (the (NewFromTopology (\<lambda>_. True) word_of_int ex_topo)) = False"
    by code_simp+
  then obtain nw where nw: "NewFromTopology (\<lambda>_. True) word_of_int ex_topo = Some (Inr nw)"
    by (metis option.collapse sum.collapse(2))
  from topology_network_faithful [OF nw] show ?thesis using nw
    by (intro exI [of _ nw]) (auto simp: ex_topo_def)
qed

section \<open>Links\<close>

lemma foldO_extends_Some:
  assumes "\<And>gs gs' x. f gs x = Some gs' \<Longrightarrow> extends (fst gs) (fst gs')" and "foldO f xs gs = Some gs'"
  shows "extends (fst gs) (fst gs')"
  using assms(2)
proof (induction xs arbitrary: gs)
  case (Cons x xs)
  then obtain gs1 where "f gs x = Some gs1" "foldO f xs gs1 = Some gs'" by (auto split: option.splits)
  then show ?case using assms(1) Cons.IH extends_trans by blast
qed simp

lemma extends_groupFill: "groupFill draw ids k gs = Some gs' \<Longrightarrow> extends (fst gs) (fst gs')"
  unfolding groupFill_def
proof (erule foldO_extends_Some [rotated])
  fix gs gs' :: "graph \<times> 'a" and i assume "groupFill_step draw ids k gs i = Some gs'"
  then show "extends (fst gs) (fst gs')" using extends_groupFill_node [of gs]
    by (cases gs) (auto simp: groupFill_step_def bind_eq_Some_conv simp del: go_index_Some_iff)
qed

lemma extends_flood_group: "flood_group draw gs ids = Some gs' \<Longrightarrow> extends (fst gs) (fst gs')"
  unfolding flood_group_def using extends_groupFill extends_randomTree extends_trans by blast

lemma graph_result_simple:
  assumes "newGraph n = Some g" and "extends g g'" shows "simple_adj n (g_adj g')"
  using graph_ok_simple [of g'] graph_ok_new [OF assms(1)] assms(2) by (auto simp: extends_def)

lemma peerGraph_simple: "peerGraph L n p seed = Some adj \<Longrightarrow> simple_adj n adj"
proof -
  assume a: "peerGraph L n p seed = Some adj"
  then obtain g where g: "newGraph n = Some g" by (auto simp: peerGraph_def bind_eq_Some_conv)
  have "extends g (fst (fill (rv_IntN L) p (randomTree (rv_IntN L) (seq n) (g, rv_PCG L seed peersStream))))"
    using extends_trans [OF extends_randomTree [of "(g, _)"] extends_fill] by simp
  from graph_result_simple [OF g this] graph_result_simple [OF g extends_refl] show ?thesis
    using a g by (auto simp: peerGraph_def Let_def split: if_splits)
qed

lemma discv5Graph_simple: "discv5Graph L a k seed = Some adj \<Longrightarrow> simple_adj (p_N (a_Params a)) adj"
proof -
  assume a: "discv5Graph L a k seed = Some adj"
  let ?n = "p_N (a_Params a)" and ?draw = "rv_IntN L"
  obtain g where g: "newGraph ?n = Some g" using a by (auto simp: discv5Graph_def Let_def bind_eq_Some_conv)
  show ?thesis
  proof (cases "?n < 2")
    case True
    then show ?thesis using a g graph_result_simple [OF g extends_refl] by (simp add: discv5Graph_def Let_def)
  next
    case False
    let ?g3 = "trees ?draw (a_SyncSubscribers a) (trees ?draw (a_ColumnSubscribers a)
      (trees ?draw (a_SubnetSubscribers a) (randomTree ?draw (seq ?n) (g, rv_PCG L seed peersStream))))"
    obtain gs k' where gs: "foldO (flood_group ?draw) (a_FinalitySubscribers a) ?g3 = Some gs" "adj = g_adj (fst (fill ?draw k' gs))"
      using a g False by (auto simp: discv5Graph_def Let_def bind_eq_Some_conv)
    have "extends g (fst ?g3)"
      using extends_trans [OF extends_trans [OF extends_trans [OF
          extends_randomTree [of "(g, rv_PCG L seed peersStream)" ?draw "seq ?n"] extends_trees] extends_trees] extends_trees]
      by simp
    moreover have "extends (fst ?g3) (fst gs)" by (rule foldO_extends_Some [OF extends_flood_group gs(1)])
    ultimately have "extends g (fst (fill ?draw k' gs))" using extends_fill extends_trans by blast
    from graph_result_simple [OF g this] show ?thesis by (simp add: gs(2))
  qed
qed

lemma build_random_Inr:
  assumes "build_random host_ok ip L cfg n adj = Some (Inr nw)" and "\<And>a. adj = Some a \<Longrightarrow> simple_adj n a"
  shows "simple_adj (int (Len nw)) (ns_peers nw)"
proof -
  obtain supers where s: "pickSupernodes L n (nt_SuperFrac cfg) (nt_Seed cfg) = Some supers"
    using assms(1) by (auto simp: build_random_def bind_eq_Some_conv)
  with assms(1) obtain hosts a where "buildHosts host_ok n (\<lambda>i. linkSettings (i \<in> supers)) = Inr hosts" "adj = Some a"
    "ns_hosts nw = hosts" "ns_peers nw = a" by (auto simp: build_random_def split: sum.splits)
  then have "int (Len nw) = int (length [0..n - 1])" "simple_adj n (ns_peers nw)"
    using assms(2) by (simp_all add: Len_def buildHosts_Inr)
  moreover from this have "0 \<le> n" using simple_adjD(1) by fastforce
  ultimately show ?thesis by simp
qed

text \<open>The dials of a fleet brought up on a network: node \<open>i\<close> connects to its peer list.\<close>

definition fleet_dials :: "node_cfg \<Rightarrow> Netsim \<Rightarrow> (int \<times> int) list" where
  "fleet_dials cfg nw = concat (map (\<lambda>i. map (Pair i)
     (ConnectToPeers (\<lambda>_. True) (\<lambda>_. True) (cfg\<lparr>nc_Num := i\<rparr>) (the (Peers nw i)))) [0..int (Len nw) - 1])"

lemma distinct_concat_Pair:
  "distinct is \<Longrightarrow> (\<And>i. i \<in> set is \<Longrightarrow> distinct (f i)) \<Longrightarrow> distinct (concat (map (\<lambda>i. map (Pair i) (f i)) is))"
  by (induction "is") (auto simp: distinct_map inj_on_def)

lemma fleet_dials_simple:
  assumes "simple_adj (int (Len nw)) (ns_peers nw)"
  shows "distinct (fleet_dials cfg nw) \<and> set (fleet_dials cfg nw) = {(i, j) \<in> adj_edges (ns_peers nw). i < j}"
proof -
  have len: "length (ns_peers nw) = Len nw" using simple_adjD(1) [OF assms] by simp
  have P: "the (Peers nw i) = ns_peers nw ! nat i" if "i \<in> {0..<int (Len nw)}" for i
    using that len by (simp add: Peers_def)
  note dist = simple_adjD(2) [OF assms]
  have "fleet_dials cfg nw = concat (map (\<lambda>i. map (Pair i) (filter (\<lambda>p. i < p) (ns_peers nw ! nat i))) [0..int (Len nw) - 1])"
    unfolding fleet_dials_def ConnectToPeers_def Dial_peers_def by (rule arg_cong [of _ _ concat]) (simp add: P)
  then show ?thesis
    using dist len by (auto simp: adj_edges_def intro!: distinct_concat_Pair)
qed

text \<open>Whichever constructor builds it, a network's peer lists are a simple graph over its hosts.\<close>

lemma constructed_simple:
  assumes "Some (Inr nw) \<in> {New host_ok ip L ncfg, NewWithSchedule host_ok ip L a ncfg, NewFromTopology host_ok ip topo}"
  shows "simple_adj (int (Len nw)) (ns_peers nw)"
  using assms
proof (elim insertE emptyE)
  assume "Some (Inr nw) = New host_ok ip L ncfg"
  then show ?thesis by (intro build_random_Inr [OF _ peerGraph_simple]) (auto simp: New_def)
next
  assume "Some (Inr nw) = NewWithSchedule host_ok ip L a ncfg"
  then show ?thesis by (intro build_random_Inr [OF _ discv5Graph_simple]) (auto simp: NewWithSchedule_def)
next
  assume "Some (Inr nw) = NewFromTopology host_ok ip topo"
  then have "NewFromTopology host_ok ip topo = Some (Inr nw)" by simp
  then show ?thesis
    by (rule NewFromTopology_Inr) (use adjacencyFromEdges_Some(1) in \<open>simp add: Len_def\<close>)
qed

text \<open>
  C30: every link is dialed once.  On a network built by any of the three constructors each pair of peers
  is connected by exactly one dial of the fleet's bring-up, from the lower to the higher number, and
  nothing else is dialed.
\<close>

theorem each_link_dialed_once:
  assumes "Some (Inr nw) \<in> {New host_ok ip L ncfg, NewWithSchedule host_ok ip L a ncfg, NewFromTopology host_ok ip topo}"
  shows "distinct (fleet_dials cfg nw) \<and> set (fleet_dials cfg nw) \<subseteq> adj_edges (ns_peers nw) \<and>
    (\<forall>i j. (i, j) \<in> adj_edges (ns_peers nw) \<longrightarrow> ((i, j) \<in> set (fleet_dials cfg nw)) \<noteq> ((j, i) \<in> set (fleet_dials cfg nw)))"
proof -
  note simple = constructed_simple [OF assms]
  have both: "(j, i) \<in> adj_edges (ns_peers nw) \<and> i \<noteq> j" if "(i, j) \<in> adj_edges (ns_peers nw)" for i j
    using simple_adjD(3) [OF simple, of i j] that unfolding adj_edges_def simple_adjD(1) [OF simple] by blast
  have d: "distinct (fleet_dials cfg nw)" "set (fleet_dials cfg nw) = {(i, j) \<in> adj_edges (ns_peers nw). i < j}"
    using fleet_dials_simple [OF simple] by blast+
  have "((i, j) \<in> set (fleet_dials cfg nw)) \<noteq> ((j, i) \<in> set (fleet_dials cfg nw))" if "(i, j) \<in> adj_edges (ns_peers nw)" for i j
    using both [OF that] that unfolding d(2) mem_Collect_eq prod.case by linarith
  moreover have "set (fleet_dials cfg nw) \<subseteq> adj_edges (ns_peers nw)" unfolding d(2) by blast
  ultimately show ?thesis using d(1) by (intro conjI allI impI) assumption+
qed

theorem each_link_dialed_once_witness:
  "\<exists>nw. New (\<lambda>_. True) word_of_int ex_rand \<lparr>nt_N = 3, nt_P = 2, nt_SuperFrac = 1 / 3, nt_Seed = 5, nt_MinLatency = 1, nt_MaxLatency = 4\<rparr>
     = Some (Inr nw) \<and> distinct (fleet_dials ex_node_cfg nw)"
proof -
  let ?new = "New (\<lambda>_. True) word_of_int ex_rand \<lparr>nt_N = 3, nt_P = 2, nt_SuperFrac = 1 / 3, nt_Seed = 5, nt_MinLatency = 1, nt_MaxLatency = 4\<rparr>"
  have "?new \<noteq> None" "\<not> isl (the ?new)" by code_simp+
  then obtain nw where nw: "?new = Some (Inr nw)" by (metis option.collapse sum.collapse(2))
  from nw have "Some (Inr nw) \<in> {?new, NewWithSchedule (\<lambda>_. True) word_of_int ex_rand undefined
      \<lparr>nt_N = 3, nt_P = 2, nt_SuperFrac = 1 / 3, nt_Seed = 5, nt_MinLatency = 1, nt_MaxLatency = 4\<rparr>,
    NewFromTopology (\<lambda>_. True) word_of_int undefined}" by simp
  from each_link_dialed_once [OF this] nw show ?thesis by blast
qed

section \<open>Latencies\<close>

lemma ipDirKey_inject: "ipDirKey a b = ipDirKey c d \<longleftrightarrow> a = c \<and> b = d"
proof
  assume eq: "ipDirKey a b = ipDirKey c d"
  have hi: "ucast (drop_bit 32 (ipDirKey a b)) = a" for a b :: "32 word"
    by (rule bit_word_eqI) (auto simp: ipDirKey_def bit_simps dest: bit_imp_le_length)
  have lo: "ucast (ipDirKey a b) = b" for a b :: "32 word"
    by (rule bit_word_eqI) (simp add: ipDirKey_def bit_simps)
  show "a = c \<and> b = d" using eq hi lo by metis
qed simp

lemma ipPairKey_sym: "ipPairKey a b = ipPairKey b a"
  by (auto simp: ipPairKey_def)

lemma edge_table_snoc:
  "edge_table ip (edges @ [e]) = (edge_table ip edges)(ipDirKey (ip (te_Source e)) (ip (te_Target e)) \<mapsto> te_LatencyMs e * 1000000)"
  by (simp add: edge_table_def)

lemma edge_table_find:
  assumes "inj_on ip S" and "s \<in> S" "t \<in> S" and "\<forall>e \<in> set edges. te_Source e \<in> S \<and> te_Target e \<in> S"
  shows "edge_table ip edges (ipDirKey (ip s) (ip t)) =
    map_option (\<lambda>e. te_LatencyMs e * 1000000) (find (\<lambda>e. te_Source e = s \<and> te_Target e = t) (rev edges))"
  using assms(4)
proof (induction edges rule: rev_induct)
  case (snoc e edges)
  have "ip s = ip (te_Source e) \<longleftrightarrow> te_Source e = s" "ip t = ip (te_Target e) \<longleftrightarrow> te_Target e = t"
    using assms(1-3) snoc.prems by (auto simp: inj_on_def)
  then show ?case using snoc by (auto simp: edge_table_snoc ipDirKey_inject)
qed (simp add: edge_table_def)

text \<open>
  A packet takes its link's own latency.  On a network from a file, between two nodes, a packet is
  delayed by the latency the file's last edge in that direction gives, each direction its own, and by
  the default if there is none; the addresses of different nodes are assumed different.
\<close>

theorem file_latency:
  assumes "NewFromTopology host_ok ip topo = Some (Inr nw)"
    and "inj_on ip {0..<int (Len nw)}" and "s \<in> {0..<int (Len nw)}" "t \<in> {0..<int (Len nw)}"
    and "\<forall>e \<in> set (tp_Edges topo). te_Source e \<noteq> te_Target e"
  shows "ns_latency nw \<lparr>pkt_From = UDPAddr (ip s), pkt_To = UDPAddr (ip t)\<rparr> =
    Some (case find (\<lambda>e. te_Source e = s \<and> te_Target e = t) (rev (tp_Edges topo)) of
      Some e \<Rightarrow> te_LatencyMs e * 1000000 | None \<Rightarrow> defaultLatency)"
proof -
  have lat: "ns_latency nw = latencyFromEdges ip (tp_Edges topo)" "Len nw = length (tp_Nodes topo)"
    and "adjacencyFromEdges (length (tp_Nodes topo)) (tp_Edges topo) \<noteq> None"
    using assms(1) by (auto elim!: NewFromTopology_Inr simp: Len_def)
  then have "\<forall>e \<in> set (tp_Edges topo). te_Source e \<in> {0..<int (Len nw)} \<and> te_Target e \<in> {0..<int (Len nw)}"
    using assms(5) unfolding adjacencyFromEdges_Some(2) edge_in_range_def by auto
  from edge_table_find [OF assms(2-4) this] show ?thesis
    by (auto simp: lat(1) latencyFromEdges_def key_of_def split: option.split)
qed

theorem file_latency_witness:
  "\<exists>nw. NewFromTopology (\<lambda>_. True) word_of_int ex_topo = Some (Inr nw) \<and>
     ns_latency nw \<lparr>pkt_From = UDPAddr (word_of_int 0), pkt_To = UDPAddr (word_of_int 1)\<rparr> = Some 30000000 \<and>
     ns_latency nw \<lparr>pkt_From = UDPAddr (word_of_int 1), pkt_To = UDPAddr (word_of_int 0)\<rparr> = Some 45000000"
proof -
  have "NewFromTopology (\<lambda>_. True) word_of_int ex_topo \<noteq> None" "\<not> isl (the (NewFromTopology (\<lambda>_. True) word_of_int ex_topo))"
    by code_simp+
  then obtain nw where nw: "NewFromTopology (\<lambda>_. True) word_of_int ex_topo = Some (Inr nw)"
    by (metis option.collapse sum.collapse(2))
  have len: "Len nw = 2" using nw by (rule NewFromTopology_Inr) (simp add: Len_def ex_topo_def)
  have "{0..<int (Len nw)} = {0, 1}" using len by auto
  then have inj: "inj_on (word_of_int :: int \<Rightarrow> 32 word) {0..<int (Len nw)}"
      "\<forall>e \<in> set (tp_Edges ex_topo). te_Source e \<noteq> te_Target e"
    by (simp_all add: ex_topo_def)
  from file_latency [OF nw inj(1) _ _ inj(2), of 0 1] file_latency [OF nw inj(1) _ _ inj(2), of 1 0] show ?thesis
    using nw by (intro exI [of _ nw]) (simp add: len ex_topo_def)
qed

lemma latency_table_range:
  assumes "draw_ok draw" and "latency_table ip draw rng n lo width k = Some d"
  shows "0 < width \<and> lo \<le> d \<and> d < lo + width"
proof -
  let ?f = "\<lambda>(lat, s) (i, j). let (x, s') = draw s width in (lat(ipPairKey (ip i) (ip j) \<mapsto> lo + x), s')"
  have w: "0 < width" using assms(2) by (auto simp: latency_table_def split: if_splits)
  have step: "\<exists>s1 x k1. ?f (lat, s) ij = (lat(k1 \<mapsto> lo + x), s1) \<and> 0 \<le> x \<and> x < width" for lat s ij
    using assms(1) w by (cases ij; cases "draw s width") (auto simp: draw_ok_def, metis fst_conv)
  have ran: "\<forall>d \<in> ran (fst (foldl ?f (lat, s) ps)). lo \<le> d \<and> d < lo + width" if "\<forall>d \<in> ran lat. lo \<le> d \<and> d < lo + width"
    for lat s ps
    using that
  proof (induction ps arbitrary: lat s)
    case (Cons ij ps)
    obtain s1 x k1 where f: "?f (lat, s) ij = (lat(k1 \<mapsto> lo + x), s1)" "0 \<le> x" "x < width" using step by blast
    have "\<forall>d \<in> ran (lat(k1 \<mapsto> lo + x)). lo \<le> d \<and> d < lo + width"
      using Cons.prems f(2,3) by (auto simp: ran_def)
    from Cons.IH [OF this, of s1] show ?case by (simp only: foldl_Cons f(1))
  qed simp
  let ?ps = "concat (map (\<lambda>i. map (Pair i) [i + 1..n - 1]) [0..n - 1])"
  have "fst (foldl ?f (Map.empty, rng) (concat (map (\<lambda>i. map (Pair i) [i + 1..n - 1]) [0..n - 1]))) k = Some d"
    using assms(2) w by (simp add: latency_table_def)
  then have "d \<in> ran (fst (foldl ?f (Map.empty, rng) ?ps))" by (rule ranI)
  with ran [of Map.empty rng ?ps] w show ?thesis by simp
qed

text \<open>
  A random link's latency.  Between any two addresses the latency of the random network is the same
  in both directions, for every packet, and lies in the configured range: at least the minimum and
  below the maximum, or the minimum itself when the range is empty.
\<close>

theorem random_latency:
  assumes "draw_ok (rv_Int64N L)"
  shows "\<exists>d. latencyFunc ip L n seed lo hi \<lparr>pkt_From = UDPAddr a, pkt_To = UDPAddr b\<rparr> = Some d \<and>
    latencyFunc ip L n seed lo hi \<lparr>pkt_From = UDPAddr b, pkt_To = UDPAddr a\<rparr> = Some d \<and>
    (if lo < hi then lo \<le> d \<and> d < hi else d = lo)"
proof -
  let ?t = "latency_table ip (rv_Int64N L) (rv_PCG L seed latencyStream) n lo (hi - lo) (ipPairKey a b)"
  have "lo < hi \<and> lo \<le> d \<and> d < hi" if "?t = Some d" for d
    using latency_table_range [OF assms that] by simp
  then show ?thesis
    by (cases ?t) (auto simp: latencyFunc_def key_of_def ipPairKey_sym [of b a])
qed

theorem random_latency_witness:
  "\<exists>d. latencyFunc word_of_int ex_rand 3 5 10 20 \<lparr>pkt_From = UDPAddr 2, pkt_To = UDPAddr 1\<rparr> = Some d \<and> 10 \<le> d \<and> d < 20"
  using random_latency [OF ex_rand_ok(2), of word_of_int 3 5 10 20 2 1] by auto

text \<open>
  The supernode draw is exact.  For a share between 0 and 1 the draw never panics and picks as many
  different nodes of the fleet as the rounded share of the fleet size.
\<close>

theorem supernodes_exact:
  assumes "perm_ok L" and "0 \<le> part" "part \<le> 1" and "0 \<le> n"
  shows "\<exists>S. pickSupernodes L n part seed = Some S \<and> S \<subseteq> {0..<n} \<and> int (card S) = \<lfloor>part * of_int n + 1 / 2\<rfloor>"
proof -
  let ?k = "\<lfloor>part * of_int n + 1 / 2\<rfloor>" and ?perm = "rv_Perm L (rv_PCG L seed supersStream) n"
  have p: "distinct ?perm" "set ?perm = {0..<n}" using assms(1) by (simp_all add: perm_ok_def)
  then have len: "int (length ?perm) = n" using distinct_card [of ?perm] assms(4) by simp
  have pos: "0 \<le> part * of_int n" "part * of_int n \<le> of_int n"
    using assms(2-4) by (simp_all add: mult_left_le_one_le)
  then have k: "0 \<le> ?k" "?k \<le> n" by linarith+
  have "supernode_count part n = ?k" using pos(1) by (simp add: supernode_count_def)
  then have "pickSupernodes L n part seed = Some (set (take (nat ?k) ?perm))"
    using k len by (simp add: pickSupernodes_def Let_def)
  moreover have "card (set (take (nat ?k) ?perm)) = nat ?k"
    using distinct_card [of "take (nat ?k) ?perm"] p(1) k len by simp
  moreover have "set (take (nat ?k) ?perm) \<subseteq> {0..<n}" using set_take_subset p(2) by fastforce
  ultimately show ?thesis using k(1) by simp
qed

theorem supernodes_exact_witness:
  "\<exists>S. pickSupernodes ex_rand 3 (1 / 2) 7 = Some S \<and> card S = 2"
  using supernodes_exact [OF ex_rand_ok(3), of "1 / 2" 3 7] by auto

end
