(* ===== verification/Driver.thy ===== *)
theory Driver
  imports Publishing Topology
begin

text \<open>
  Building and running a fleet (src/driver/driver.go) and a single node (src/cmd/slot-sim-node/main.go):
  the configuration of a node and its runner from the run's knobs, the fatal checks of the node binary,
  the bring-up, and the receive loop of src/node/node.go that feeds the runner.

  A function-valued knob that returns a fixed duration is that duration.  \<open>start_ok\<close> says whether a
  node's \<open>Start\<close> succeeds, \<open>load\<close> is what \<open>schedule.Load\<close> returns for a path, \<open>host_ok\<close> whether the
  node's host could be built.  The interface \<open>Fabric\<close> is two functions, \<open>Len\<close> and \<open>Peers\<close>.
\<close>

section \<open>A node of the fleet\<close>

text \<open>What is built for one node: its configuration, its transport options, its peers and its runner.\<close>

record fleet_node =
  fn_cfg :: node_cfg
  fn_partial :: "PartialOpts option"
  fn_peers :: "int list"
  fn_runner :: NodeRunner

record Config =
  cf_BlockSize :: int
  cf_SlotDuration :: dur
  cf_Offset :: dur
  cf_Jitter :: dur
  cf_VerifyDelay :: dur
  cf_D :: int
  cf_Dlo :: int
  cf_Dhi :: int
  cf_Seed :: "64 word"
  cf_Schedule :: "Assignment option"
  cf_Attest :: bool
  cf_Sync :: bool
  cf_AttestationDue :: dur
  cf_Prep :: dur
  cf_AttestVerifyDelay :: "dur option"
  cf_AttestPerItem :: dur
  cf_AttestBatchWindow :: dur
  cf_AttestBatchMax :: int
  cf_AggregateDue :: dur
  cf_Decoupled :: "DecoupledParams option"
  cf_Partial :: "PartialParams option"
  cf_EPBS :: "EPBSParams option"
  cf_ColVerifyService :: "dur option"
  cf_ColVerifyParallelismSuper :: int
  cf_ColVerifyParallelismReg :: int

text \<open>The run-wide half: decoupled consensus forces both emit flags off.\<close>

definition runner_config :: "int \<Rightarrow> Config \<Rightarrow> RunnerConfig" where
  "runner_config n cfg =
     (let rcfg = \<lparr>rc_Attest = cf_Attest cfg, rc_Sync = cf_Sync cfg, rc_NumNodes = n,
            rc_BlockSize = cf_BlockSize cfg, rc_Offset = cf_Offset cfg, rc_Jitter = cf_Jitter cfg,
            rc_SlotDuration = cf_SlotDuration cfg, rc_AttestationDue = cf_AttestationDue cfg,
            rc_AggregateDue = cf_AggregateDue cfg, rc_Prep = cf_Prep cfg, rc_Seed = cf_Seed cfg,
            rc_Decoupled = cf_Decoupled cfg, rc_Partial = cf_Partial cfg, rc_EPBS = cf_EPBS cfg\<rparr>
      in if cf_Decoupled cfg \<noteq> None then rcfg\<lparr>rc_Attest := False, rc_Sync := False\<rparr> else rcfg)"

definition node_config :: "Config \<Rightarrow> View \<Rightarrow> int \<Rightarrow> node_cfg" where
  "node_config cfg view i =
     \<lparr>nc_Num = i, nc_VerifyDelay = cf_VerifyDelay cfg, nc_D = cf_D cfg, nc_Dlo = cf_Dlo cfg, nc_Dhi = cf_Dhi cfg,
      nc_AttestVerifyDelay = cf_AttestVerifyDelay cfg, nc_AttestPerItem = cf_AttestPerItem cfg,
      nc_AttestBatchWindow = cf_AttestBatchWindow cfg, nc_AttestBatchMax = cf_AttestBatchMax cfg,
      nc_ColVerifyService = (if 0 < v_NumColumns view then cf_ColVerifyService cfg else None),
      nc_ColVerifyParallelism =
        (if 0 < v_NumColumns view
         then (if v_FullCustody view then cf_ColVerifyParallelismSuper cfg else cf_ColVerifyParallelismReg cfg)
         else 0),
      nc_hasPartial = cf_Partial cfg \<noteq> None\<rparr>"

definition view_of :: "Assignment option \<Rightarrow> int \<Rightarrow> View option" where
  "view_of sched i = (case sched of None \<Rightarrow> Some zero_view | Some a \<Rightarrow> Node a i)"

text \<open>The resolver over the plan; one over no plan panics when it is used.\<close>

definition plan_resolver_of :: "Assignment option \<Rightarrow> PartialResolver" where
  "plan_resolver_of sched =
     (case sched of
        Some a \<Rightarrow> NewPartialResolver a
      | None \<Rightarrow> \<lparr>res_CommitteeSize = \<lambda>kind subnet grp. the None, res_Identity = \<lambda>kind subnet grp position. the None\<rparr>)"

text \<open>One turn of the loop of \<open>New\<close>; \<open>None\<close> is a panic of the plan reader or of the fabric.\<close>

definition new_node ::
  "('f \<Rightarrow> int) \<Rightarrow> ('f \<Rightarrow> int \<Rightarrow> int list option) \<Rightarrow> 'f \<Rightarrow> Config \<Rightarrow> int \<Rightarrow> (runner_panic + fleet_node) option" where
  "new_node fLen fPeers nw cfg i =
     do {
       view \<leftarrow> view_of (cf_Schedule cfg) i;
       let opts = map_option (\<lambda>pp. NodeOpts pp (cf_Seed cfg) (Some (plan_resolver_of (cf_Schedule cfg)))) (cf_Partial cfg);
       ps \<leftarrow> fPeers nw i;
       Some (case NewRunner i view ps (opts \<noteq> None) (runner_config (fLen nw) cfg) of
         Inl e \<Rightarrow> Inl e
       | Inr r \<Rightarrow> Inr \<lparr>fn_cfg = node_config cfg view i, fn_partial = opts, fn_peers = ps, fn_runner = r\<rparr>)
     }"

fun new_nodes :: "(int \<Rightarrow> (runner_panic + fleet_node) option) \<Rightarrow> int list \<Rightarrow> (runner_panic + fleet_node list) option" where
  "new_nodes f [] = Some (Inr [])"
| "new_nodes f (i # is) =
     (case f i of
        None \<Rightarrow> None
      | Some (Inl e) \<Rightarrow> Some (Inl e)
      | Some (Inr nd) \<Rightarrow>
          (case new_nodes f is of
             None \<Rightarrow> None
           | Some (Inl e) \<Rightarrow> Some (Inl e)
           | Some (Inr nds) \<Rightarrow> Some (Inr (nd # nds))))"

definition driver_New ::
  "('f \<Rightarrow> int) \<Rightarrow> ('f \<Rightarrow> int \<Rightarrow> int list option) \<Rightarrow> 'f \<Rightarrow> Config \<Rightarrow> (runner_panic + fleet_node list) option" where
  "driver_New fLen fPeers nw cfg = new_nodes (new_node fLen fPeers nw cfg) [0..fLen nw - 1]"

section \<open>Bring-up and run\<close>

datatype bring_error = StartFailed int | JoinTopicsFailed int node_error

text \<open>The topic calls among a runner's effects, run on the node; \<open>Prepare\<close> only logs a failure.\<close>

fun run_topics :: "pubsub_answers \<Rightarrow> node_cfg \<Rightarrow> effect list \<Rightarrow> node_state \<Rightarrow> node_state" where
  "run_topics a cfg [] n = n"
| "run_topics a cfg (e # es) n =
     run_topics a cfg es
       (case e of
          JoinTopic t \<Rightarrow> snd (Join a cfg t n)
        | SubscribeTopic t \<Rightarrow> snd (Subscribe a cfg t n)
        | UnsubscribeTopic t \<Rightarrow> Unsubscribe t n
        | _ \<Rightarrow> n)"

fun join_all :: "pubsub_answers \<Rightarrow> fleet_node list \<Rightarrow> bring_error + node_state list" where
  "join_all a [] = Inr []"
| "join_all a (nd # nds) =
     (case JoinTopics a (fn_cfg nd) of
        (Some e, _) \<Rightarrow> Inl (JoinTopicsFailed (nc_Num (fn_cfg nd)) e)
      | (None, n) \<Rightarrow> (case join_all a nds of Inl e \<Rightarrow> Inl e | Inr ns \<Rightarrow> Inr (n # ns)))"

text \<open>Every node is started, then dialed, then joined, then prepared; the result also has the dials made.\<close>

definition BringUp ::
  "(int \<Rightarrow> bool) \<Rightarrow> pubsub_answers \<Rightarrow> ('f \<Rightarrow> int \<Rightarrow> int list option) \<Rightarrow> 'f \<Rightarrow> fleet_node list \<Rightarrow>
     (bring_error + (int \<times> int) list \<times> node_state list) option" where
  "BringUp start_ok a fPeers nw nds =
     (case find (\<lambda>nd. \<not> start_ok (nc_Num (fn_cfg nd))) nds of
        Some nd \<Rightarrow> Some (Inl (StartFailed (nc_Num (fn_cfg nd))))
      | None \<Rightarrow>
          do {
            dials \<leftarrow> mapO (\<lambda>nd. map_option (\<lambda>ps. map (Pair (nc_Num (fn_cfg nd)))
                        (ConnectToPeers (\<lambda>_. True) (\<lambda>_. True) (fn_cfg nd) ps)) (fPeers nw (nc_Num (fn_cfg nd)))) nds;
            Some (case join_all a nds of
              Inl e \<Rightarrow> Inl e
            | Inr ns \<Rightarrow> Inr (concat dials,
                map2 (\<lambda>nd n. run_topics a (fn_cfg nd) (Prepare (fn_runner nd)) n) nds ns))
          })"

text \<open>
  The concurrent \<open>Run\<close> of every runner from the instant \<open>now\<close>: the slots each of them begins, with
  their start instants; the wait for the last of them; a slot of draining; then every node is closed.
\<close>

definition run_returns :: "NodeRunner \<Rightarrow> instant \<Rightarrow> int \<Rightarrow> instant \<Rightarrow> instant" where
  "run_returns r runStart numSlots now = max now (runStart + numSlots * r_slotDur r)"

definition driver_Run ::
  "dur \<Rightarrow> NodeRunner list \<Rightarrow> instant \<Rightarrow> int \<Rightarrow> instant \<Rightarrow> node_state list \<Rightarrow>
     (int \<times> instant) list list \<times> instant \<times> node_state list" where
  "driver_Run slotDur rs runStart numSlots now ns =
     (map (\<lambda>r. slot_starts r runStart numSlots) rs,
      foldl (\<lambda>t r. max t (run_returns r runStart numSlots now)) now rs + slotDur,
      map Close ns)"

section \<open>Receiving\<close>

text \<open>
  The receive loop on the messages a subscription yields, each with the instant it is read at: what
  cannot be decoded is skipped, the rest goes to the sink \<open>Attach\<close> has set, the runner.
\<close>

fun receive :: "codec \<Rightarrow> (string \<times> bytes \<times> instant) list \<Rightarrow> NodeRunner \<Rightarrow> NodeRunner \<times> effect list" where
  "receive C [] r = (r, [])"
| "receive C ((topic, data, t) # ms) r =
     (case Decode C topic data t of
        Inl e \<Rightarrow> receive C ms r
      | Inr rec \<Rightarrow>
          (let (r1, e1) = onReceive r t rec; (r2, e2) = receive C ms r1 in (r2, e1 @ e2)))"

section \<open>The node binary's flags\<close>

definition meshJoinStagger :: dur where
  "meshJoinStagger = 30000000000"

definition drainWindow :: dur where
  "drainWindow = 30000000000"

definition settleWindow :: "dur \<Rightarrow> dur \<Rightarrow> dur" where
  "settleWindow startup stagger = startup - stagger"

text \<open>\<open>strings.SplitSeq(s, ",")\<close> and \<open>strings.TrimSpace\<close> on ASCII text.\<close>

fun split_commas :: "string \<Rightarrow> string list" where
  "split_commas [] = [[]]"
| "split_commas (c # s) =
     (if c = CHR '','' then [] # split_commas s
      else (case split_commas s of f # fs \<Rightarrow> (c # f) # fs | [] \<Rightarrow> [[c]]))"

definition is_space :: "char \<Rightarrow> bool" where
  "is_space c \<longleftrightarrow> (of_char c :: nat) \<in> {9, 10, 11, 12, 13, 32}"

definition TrimSpace :: "string \<Rightarrow> string" where
  "TrimSpace s = rev (dropWhile is_space (rev (dropWhile is_space s)))"

text \<open>\<open>Inl\<close> is the field \<open>log.Fatalf\<close> reports.\<close>

fun parse_fields :: "string list \<Rightarrow> string + int list" where
  "parse_fields [] = Inr []"
| "parse_fields (f # fs) =
     (if TrimSpace f = [] then parse_fields fs
      else (case atoi (TrimSpace f) of
        None \<Rightarrow> Inl (TrimSpace f)
      | Some n \<Rightarrow> (case parse_fields fs of Inl e \<Rightarrow> Inl e | Inr ns \<Rightarrow> Inr (n # ns))))"

definition parseIntList :: "string \<Rightarrow> string + int list" where
  "parseIntList s = parse_fields (split_commas s)"

text \<open>The flags, in the groups they are declared in.\<close>

record epbsFlags =
  ef_On :: bool
  ef_ConsensusBlockSize :: int
  ef_PayloadOffset :: dur
  ef_PayloadJitter :: dur
  ef_PTCDue :: dur

record fcFlags =
  df_On :: bool
  df_K :: int
  df_VoteOffset :: dur
  df_AggFraction :: int
  df_Segregated :: bool
  df_RoundAggFraction :: int

record partialFlags =
  pf_Transport :: string
  pf_Interval :: dur
  pf_MaxPeers :: int
  pf_MaxIWant :: int
  pf_DataSize :: int
  pf_SigSize :: int
  pf_NoGossip :: bool

record Flags =
  fl_nodeNum :: int
  fl_numNodes :: int
  fl_peerNums :: string
  fl_numSlots :: int
  fl_slot :: dur
  fl_blockSize :: int
  fl_verifyDelay :: dur
  fl_offset :: dur
  fl_jitter :: dur
  fl_D :: int
  fl_Dlo :: int
  fl_Dhi :: int
  fl_seed :: "64 word"
  fl_startup :: dur
  fl_epbs :: epbsFlags
  fl_schedule :: string
  fl_attestations :: bool
  fl_sync :: bool
  fl_decoupled :: fcFlags
  fl_attDue :: dur
  fl_aggDue :: dur
  fl_prep :: dur
  fl_attestVerify :: dur
  fl_attestPerItem :: dur
  fl_attestWindow :: dur
  fl_attestBatchMax :: int
  fl_colVerify :: dur
  fl_colVerifySuper :: int
  fl_colVerifyReg :: int
  fl_partial :: partialFlags

definition default_flags :: Flags where
  "default_flags =
     \<lparr>fl_nodeNum = 0, fl_numNodes = 1, fl_peerNums = [], fl_numSlots = 1, fl_slot = 12000000000,
      fl_blockSize = 128 * 1024, fl_verifyDelay = 10000000, fl_offset = 0, fl_jitter = 2000000000,
      fl_D = 8, fl_Dlo = 6, fl_Dhi = 12, fl_seed = 1, fl_startup = 60000000000,
      fl_epbs = \<lparr>ef_On = True, ef_ConsensusBlockSize = 2048, ef_PayloadOffset = 500000000,
        ef_PayloadJitter = 500000000, ef_PTCDue = 9000000000\<rparr>,
      fl_schedule = [], fl_attestations = True, fl_sync = False,
      fl_decoupled = \<lparr>df_On = False, df_K = 10, df_VoteOffset = 1000000000, df_AggFraction = 50,
        df_Segregated = False, df_RoundAggFraction = 67\<rparr>,
      fl_attDue = 4000000000, fl_aggDue = 0, fl_prep = 0, fl_attestVerify = 10000000, fl_attestPerItem = 10000,
      fl_attestWindow = 10000000, fl_attestBatchMax = 300, fl_colVerify = 3000000, fl_colVerifySuper = 16,
      fl_colVerifyReg = 4,
      fl_partial = \<lparr>pf_Transport = ''classic'', pf_Interval = 20000000, pf_MaxPeers = 0, pf_MaxIWant = 10,
        pf_DataSize = 128, pf_SigSize = 96, pf_NoGossip = False\<rparr>\<rparr>"

section \<open>The node binary\<close>

datatype fatal =
    StartupTooShort | LoadFailed string | SegregatedWithoutDecoupled | DecoupledWithoutSchedule
  | SegregationMismatch bool | NodePanic | HostFailed | PartialWithoutSchedule | PartialWithoutFlood
  | BadTransport string | InvalidInteger string | RunnerPanic runner_panic

definition main_decoupled :: "Flags \<Rightarrow> DecoupledParams" where
  "main_decoupled f =
     (let d = fl_decoupled f in
      \<lparr>dc_K = df_K d, dc_FCVoteOffset = df_VoteOffset d, dc_FCAggFraction = df_AggFraction d,
       dc_Segregated = df_Segregated d, dc_RoundAggFraction = df_RoundAggFraction d\<rparr>)"

definition main_partial :: "Flags \<Rightarrow> PartialParams" where
  "main_partial f =
     (let p = fl_partial f in
      \<lparr>pp_PublishInterval = pf_Interval p, pp_MaxPeersPerAttestation = pf_MaxPeers p,
       pp_MaxIWantPerPosition = pf_MaxIWant p, pp_AttestationDataSize = pf_DataSize p,
       pp_SignatureSize = pf_SigSize p, pp_DisableMetadataGossip = pf_NoGossip p\<rparr>)"

definition main_epbs :: "Flags \<Rightarrow> EPBSParams option" where
  "main_epbs f =
     (let e = fl_epbs f in
      if ef_On e
      then Some \<lparr>ep_ConsensusBlockSize = ef_ConsensusBlockSize e, ep_PayloadOffset = ef_PayloadOffset e,
                 ep_PayloadJitter = ef_PayloadJitter e, ep_PTCDue = ef_PTCDue e\<rparr>
      else None)"

text \<open>The schedule and the phases: which flags survive, and the checks that abort.\<close>

definition main_phases ::
  "(string \<Rightarrow> Assignment option) \<Rightarrow> Flags \<Rightarrow> fatal + Assignment option \<times> bool \<times> bool \<times> DecoupledParams option" where
  "main_phases load f =
     (let d = fl_decoupled f in
      if settleWindow (fl_startup f) meshJoinStagger \<le> 0 then Inl StartupTooShort
      else if fl_schedule f \<noteq> [] \<and> load (fl_schedule f) = None then Inl (LoadFailed (fl_schedule f))
      else (let sched = (if fl_schedule f \<noteq> [] then load (fl_schedule f) else None);
                (attest, syncEmit) = (if sched = None then (False, False) else (fl_attestations f, fl_sync f)) in
            if df_Segregated d \<and> \<not> df_On d then Inl SegregatedWithoutDecoupled
            else if df_On d
            then (case sched of
                    None \<Rightarrow> Inl DecoupledWithoutSchedule
                  | Some a \<Rightarrow>
                      if df_Segregated d \<noteq> Segregated a then Inl (SegregationMismatch (Segregated a))
                      else Inr (sched, False, False, Some (main_decoupled f)))
            else Inr (sched, attest, syncEmit, None)))"

definition main_transport ::
  "Flags \<Rightarrow> Assignment option \<times> bool \<times> bool \<times> DecoupledParams option \<Rightarrow> fatal + PartialParams option" where
  "main_transport f = (\<lambda>(sched, attest, syncEmit, decoupled).
     if pf_Transport (fl_partial f) = ''classic'' then Inr None
     else if pf_Transport (fl_partial f) = ''partial''
     then (if sched = None then Inl PartialWithoutSchedule
           else if \<not> attest \<and> decoupled = None then Inl PartialWithoutFlood
           else Inr (Some (main_partial f)))
     else Inl (BadTransport (pf_Transport (fl_partial f))))"

definition main_node_cfg :: "Flags \<Rightarrow> View \<Rightarrow> bool \<Rightarrow> node_cfg" where
  "main_node_cfg f view hasPartial =
     (let nd = \<lparr>nc_Num = fl_nodeNum f, nc_VerifyDelay = fl_verifyDelay f, nc_D = fl_D f, nc_Dlo = fl_Dlo f,
            nc_Dhi = fl_Dhi f, nc_AttestVerifyDelay = Some (fl_attestVerify f), nc_AttestPerItem = fl_attestPerItem f,
            nc_AttestBatchWindow = fl_attestWindow f, nc_AttestBatchMax = fl_attestBatchMax f,
            nc_ColVerifyService = None, nc_ColVerifyParallelism = 0, nc_hasPartial = hasPartial\<rparr>
      in if 0 < v_NumColumns view
         then nd\<lparr>nc_ColVerifyService := Some (fl_colVerify f),
                 nc_ColVerifyParallelism := (if v_FullCustody view then fl_colVerifySuper f else fl_colVerifyReg f)\<rparr>
         else nd)"

definition main_runner_config ::
  "Flags \<Rightarrow> bool \<Rightarrow> bool \<Rightarrow> DecoupledParams option \<Rightarrow> PartialParams option \<Rightarrow> RunnerConfig" where
  "main_runner_config f attest syncEmit decoupled pp =
     \<lparr>rc_Attest = attest, rc_Sync = syncEmit, rc_NumNodes = fl_numNodes f, rc_BlockSize = fl_blockSize f,
      rc_Offset = fl_offset f, rc_Jitter = fl_jitter f, rc_SlotDuration = fl_slot f, rc_AttestationDue = fl_attDue f,
      rc_AggregateDue = fl_aggDue f, rc_Prep = fl_prep f, rc_Seed = fl_seed f, rc_Decoupled = decoupled,
      rc_Partial = pp, rc_EPBS = main_epbs f\<rparr>"

definition main_setup :: "(string \<Rightarrow> Assignment option) \<Rightarrow> bool \<Rightarrow> Flags \<Rightarrow> fatal + fleet_node" where
  "main_setup load host_ok f =
     (case main_phases load f of
        Inl e \<Rightarrow> Inl e
      | Inr (sched, attest, syncEmit, decoupled) \<Rightarrow>
          (case view_of sched (fl_nodeNum f) of
             None \<Rightarrow> Inl NodePanic
           | Some view \<Rightarrow>
               if \<not> host_ok then Inl HostFailed
               else (case main_transport f (sched, attest, syncEmit, decoupled) of
                 Inl e \<Rightarrow> Inl e
               | Inr pp \<Rightarrow>
                   (let opts = map_option (\<lambda>p. NodeOpts p (fl_seed f) (Some (plan_resolver_of sched))) pp in
                    case parseIntList (fl_peerNums f) of
                      Inl s \<Rightarrow> Inl (InvalidInteger s)
                    | Inr ps \<Rightarrow>
                        (case NewRunner (fl_nodeNum f) view ps (opts \<noteq> None)
                                (main_runner_config f attest syncEmit decoupled pp) of
                           Inl e \<Rightarrow> Inl (RunnerPanic e)
                         | Inr r \<Rightarrow> Inr \<lparr>fn_cfg = main_node_cfg f view (opts \<noteq> None), fn_partial = opts,
                                        fn_peers = ps, fn_runner = r\<rparr>)))))"

text \<open>
  The bring-up of one host, from the start instant of the program: a jitter below a second, the dials,
  a stagger below \<open>meshJoinStagger\<close>, then the topics; slot 0 starts at \<open>runStart\<close>.
\<close>

definition dialsAt :: "instant \<Rightarrow> dur \<Rightarrow> instant" where
  "dialsAt programStart jit = programStart + jit"

definition joinsAt :: "instant \<Rightarrow> dur \<Rightarrow> dur \<Rightarrow> dur \<Rightarrow> instant" where
  "joinsAt programStart jit dialing stagger = dialsAt programStart jit + dialing + stagger"

definition runStart :: "instant \<Rightarrow> Flags \<Rightarrow> instant" where
  "runStart programStart f = programStart + fl_startup f"

text \<open>The address of a peer: its host name's first record, with the shared port.\<close>

definition shadow_PeerAddr :: "(string \<Rightarrow> string list) \<Rightarrow> int \<Rightarrow> string option" where
  "shadow_PeerAddr lookup nodeNum =
     (case lookup (''node'' @ fmt_d nodeNum) of
        [] \<Rightarrow> None
      | addr # _ \<Rightarrow> Some (''/ip4/'' @ addr @ ''/udp/'' @ fmt_d 8000 @ ''/quic-v1''))"

end
