(* ===== verification/DriverProps.thy ===== *)
theory DriverProps
  imports Driver TopologyProps MetricsProps
begin

text \<open>
  What the driver and the node binary guarantee: every node either of them builds is well-formed, both
  build the same node from the same knobs, the bring-up subscribes what the runner needs, the fleet
  runs its slots in lockstep, and the flags are read back.
\<close>

section \<open>The network interface\<close>

lemma new_nodes_total: "(\<And>i. i \<in> set is \<Longrightarrow> f i \<noteq> None) \<Longrightarrow> new_nodes f is \<noteq> None"
  by (induction "is") (auto split: option.split sum.split)

text \<open>What the driver needs of a fabric: peers for every node it counts.\<close>

locale fabric =
  fixes valid :: "'f \<Rightarrow> bool" and fLen :: "'f \<Rightarrow> int" and fPeers :: "'f \<Rightarrow> int \<Rightarrow> int list option"
  assumes peers_total: "valid nw \<Longrightarrow> i \<in> {0..<fLen nw} \<Longrightarrow> fPeers nw i \<noteq> None"
begin

lemma new_node_total:
  assumes "valid nw" and "i \<in> {0..<fLen nw}" and "view_of (cf_Schedule cfg) i \<noteq> None"
  shows "new_node fLen fPeers nw cfg i \<noteq> None"
proof -
  obtain view ps where "view_of (cf_Schedule cfg) i = Some view" "fPeers nw i = Some ps"
    using assms peers_total by blast
  then show ?thesis by (simp add: new_node_def Let_def)
qed

lemma driver_New_total:
  assumes "valid nw" and "\<And>i. i \<in> {0..<fLen nw} \<Longrightarrow> view_of (cf_Schedule cfg) i \<noteq> None"
  shows "driver_New fLen fPeers nw cfg \<noteq> None"
  unfolding driver_New_def using assms by (intro new_nodes_total new_node_total) auto

end

definition netsim_valid :: "Netsim \<Rightarrow> bool" where
  "netsim_valid nw \<longleftrightarrow> length (ns_peers nw) = Len nw"

interpretation netsim: fabric netsim_valid "\<lambda>nw. int (Len nw)" Peers
  by unfold_locales (simp add: netsim_valid_def Peers_def)


lemma new_nodes_Inr:
  "new_nodes f is = Some (Inr nds) \<Longrightarrow> list_all2 (\<lambda>i nd. f i = Some (Inr nd)) is nds"
  by (induction "is" arbitrary: nds) (auto split: option.splits sum.splits)

lemma driver_New_nth:
  assumes "driver_New fLen fPeers nw cfg = Some (Inr nds)"
  shows "length nds = nat (fLen nw)"
    and "i \<in> {0..<fLen nw} \<Longrightarrow> new_node fLen fPeers nw cfg i = Some (Inr (nds ! nat i))"
proof -
  have all: "list_all2 (\<lambda>i nd. new_node fLen fPeers nw cfg i = Some (Inr nd)) [0..fLen nw - 1] nds"
    using assms by (simp add: driver_New_def new_nodes_Inr)
  then show "length nds = nat (fLen nw)" by (auto dest: list_all2_lengthD)
  assume "i \<in> {0..<fLen nw}"
  then show "new_node fLen fPeers nw cfg i = Some (Inr (nds ! nat i))"
    using list_all2_nthD [OF all, of "nat i"] by (simp add: nth_upto)
qed

section \<open>Well-formed nodes\<close>

text \<open>What holds of every node: its parts agree with each other and with its slice of the plan.\<close>

definition node_wf :: "Assignment option \<Rightarrow> fleet_node \<Rightarrow> bool" where
  "node_wf sched nd \<longleftrightarrow>
     (let r = fn_runner nd; cfg = fn_cfg nd; v = r_view r in
      r_num r = nc_Num cfg \<and> view_of sched (nc_Num cfg) = Some v \<and> r_stablePeers r = set (fn_peers nd) \<and>
      (r_decoupled r \<longrightarrow> \<not> r_attest r \<and> \<not> r_sync r) \<and>
      (r_partial r \<longleftrightarrow> fn_partial nd \<noteq> None) \<and> (nc_hasPartial cfg \<longleftrightarrow> fn_partial nd \<noteq> None) \<and>
      (r_partial r \<longrightarrow> r_attest r \<or> r_decoupled r) \<and>
      (r_attest r \<and> v_HasAggregators v \<longrightarrow> 0 < r_aggDue r) \<and>
      (r_sync r \<and> v_HasSyncAggregators v \<longrightarrow> 0 < r_aggDue r) \<and>
      ((\<exists>d \<in> set (v_PTCDuties v). d \<noteq> []) \<longrightarrow> r_epbs r \<noteq> None) \<and>
      (v_NumColumns v \<le> 0 \<longrightarrow> nc_ColVerifyService cfg = None) \<and>
      r_slots r = Map.empty \<and> r_finals r = Map.empty)"

lemma NewRunner_fields:
  assumes "NewRunner num view ps b cfg = Inr r"
  shows "r_num r = num" "r_view r = view" "r_stablePeers r = set ps" "r_attest r = rc_Attest cfg"
    "r_sync r = rc_Sync cfg" "r_decoupled r \<longleftrightarrow> rc_Decoupled cfg \<noteq> None" "r_partial r \<longleftrightarrow> rc_Partial cfg \<noteq> None"
    "r_aggDue r = rc_AggregateDue cfg" "r_epbs r = rc_EPBS cfg" "r_slots r = Map.empty" "r_finals r = Map.empty"
    "runner_check view b cfg = None"
  using assms by (auto simp: NewRunner_def base_runner_def with_decoupled_def with_partial_def split: option.splits)

lemma zero_one_cases: "0 \<le> i \<Longrightarrow> i < 2 \<Longrightarrow> i = 0 \<or> i = (1::int)"
  by arith

lemma NewRunner_slotDur: "NewRunner num view ps b cfg = Inr r \<Longrightarrow> r_slotDur r = rc_SlotDuration cfg"
  by (auto simp: NewRunner_def base_runner_def with_decoupled_def with_partial_def split: option.splits)

lemma runner_check_None:
  assumes "runner_check view b cfg = None"
  shows "rc_Partial cfg \<noteq> None \<Longrightarrow> b" "rc_Partial cfg \<noteq> None \<Longrightarrow> rc_Attest cfg \<or> rc_Decoupled cfg \<noteq> None"
    "rc_Attest cfg \<Longrightarrow> v_HasAggregators view \<Longrightarrow> 0 < rc_AggregateDue cfg"
    "rc_Sync cfg \<Longrightarrow> v_HasSyncAggregators view \<Longrightarrow> 0 < rc_AggregateDue cfg"
    "d \<in> set (v_PTCDuties view) \<Longrightarrow> d \<noteq> [] \<Longrightarrow> rc_EPBS cfg \<noteq> None"
  using assms unfolding runner_check_def Let_def by (auto split: if_splits)

lemma new_node_Inr:
  assumes "new_node fLen fPeers nw cfg i = Some (Inr nd)"
  obtains view ps where "view_of (cf_Schedule cfg) i = Some view" "fPeers nw i = Some ps"
    "NewRunner i view ps (cf_Partial cfg \<noteq> None) (runner_config (fLen nw) cfg) = Inr (fn_runner nd)"
    "fn_cfg nd = node_config cfg view i" "fn_peers nd = ps"
    "fn_partial nd = map_option (\<lambda>pp. NodeOpts pp (cf_Seed cfg) (Some (plan_resolver_of (cf_Schedule cfg)))) (cf_Partial cfg)"
proof -
  obtain view ps where v: "view_of (cf_Schedule cfg) i = Some view" "fPeers nw i = Some ps"
    using assms by (auto simp: new_node_def bind_eq_Some_conv Let_def)
  with assms that [OF v] show thesis by (auto simp: new_node_def Let_def split: sum.splits)
qed

lemma runner_config_fields [simp]:
  "rc_Attest (runner_config n cfg) \<longleftrightarrow> cf_Decoupled cfg = None \<and> cf_Attest cfg"
  "rc_Sync (runner_config n cfg) \<longleftrightarrow> cf_Decoupled cfg = None \<and> cf_Sync cfg"
  "rc_Decoupled (runner_config n cfg) = cf_Decoupled cfg" "rc_Partial (runner_config n cfg) = cf_Partial cfg"
  "rc_AggregateDue (runner_config n cfg) = cf_AggregateDue cfg" "rc_EPBS (runner_config n cfg) = cf_EPBS cfg"
  by (auto simp: runner_config_def Let_def)

lemma new_node_wf: "new_node fLen fPeers nw cfg i = Some (Inr nd) \<Longrightarrow> node_wf (cf_Schedule cfg) nd"
proof (erule new_node_Inr)
  fix view ps
  assume v: "view_of (cf_Schedule cfg) i = Some view" and nd: "fn_cfg nd = node_config cfg view i" "fn_peers nd = ps"
    "fn_partial nd = map_option (\<lambda>pp. NodeOpts pp (cf_Seed cfg) (Some (plan_resolver_of (cf_Schedule cfg)))) (cf_Partial cfg)"
    and r: "NewRunner i view ps (cf_Partial cfg \<noteq> None) (runner_config (fLen nw) cfg) = Inr (fn_runner nd)"
  note f = NewRunner_fields [OF r]
  show ?thesis
    using v runner_check_None [OF f(12)] unfolding node_wf_def Let_def f nd
    by (auto simp: node_config_def)
qed

lemma main_phases_Inr:
  assumes "main_phases load f = Inr (sched, attest, syncEmit, decoupled)"
  shows "0 < settleWindow (fl_startup f) meshJoinStagger"
    "sched = (if fl_schedule f \<noteq> [] then load (fl_schedule f) else None)" "fl_schedule f \<noteq> [] \<longrightarrow> sched \<noteq> None"
    "decoupled = (if df_On (fl_decoupled f) then Some (main_decoupled f) else None)"
    "attest \<longleftrightarrow> sched \<noteq> None \<and> decoupled = None \<and> fl_attestations f"
    "syncEmit \<longleftrightarrow> sched \<noteq> None \<and> decoupled = None \<and> fl_sync f"
    "decoupled \<noteq> None \<Longrightarrow> \<exists>a. sched = Some a \<and> df_Segregated (fl_decoupled f) = Segregated a"
    "df_Segregated (fl_decoupled f) \<Longrightarrow> decoupled \<noteq> None"
  using assms unfolding main_phases_def Let_def by (auto split: if_splits option.splits dest!: sym [of "Some _"])

lemma main_transport_Inr:
  assumes "main_transport f (sched, attest, syncEmit, decoupled) = Inr pp"
  shows "pp \<noteq> None \<Longrightarrow> pp = Some (main_partial f) \<and> sched \<noteq> None \<and> (attest \<or> decoupled \<noteq> None)"
    "pp \<noteq> None \<longleftrightarrow> pf_Transport (fl_partial f) = ''partial''"
  using assms unfolding main_transport_def by (auto split: if_splits)

lemma main_setup_Inr:
  assumes "main_setup load host_ok f = Inr nd"
  obtains sched attest syncEmit decoupled view pp where
    "main_phases load f = Inr (sched, attest, syncEmit, decoupled)" "view_of sched (fl_nodeNum f) = Some view" "host_ok"
    "main_transport f (sched, attest, syncEmit, decoupled) = Inr pp" "parseIntList (fl_peerNums f) = Inr (fn_peers nd)"
    "NewRunner (fl_nodeNum f) view (fn_peers nd) (pp \<noteq> None) (main_runner_config f attest syncEmit decoupled pp) = Inr (fn_runner nd)"
    "fn_cfg nd = main_node_cfg f view (pp \<noteq> None)"
    "fn_partial nd = map_option (\<lambda>p. NodeOpts p (fl_seed f) (Some (plan_resolver_of sched))) pp"
proof -
  obtain sched attest syncEmit decoupled where p: "main_phases load f = Inr (sched, attest, syncEmit, decoupled)"
    using assms by (cases "main_phases load f") (auto simp: main_setup_def)
  moreover obtain view where v: "view_of sched (fl_nodeNum f) = Some view" and "host_ok"
    using assms p by (auto simp: main_setup_def split: option.splits if_splits)
  moreover obtain pp where t: "main_transport f (sched, attest, syncEmit, decoupled) = Inr pp"
    using assms calculation by (cases "main_transport f (sched, attest, syncEmit, decoupled)") (auto simp: main_setup_def)
  moreover obtain ps where ps: "parseIntList (fl_peerNums f) = Inr ps"
    using assms calculation by (cases "parseIntList (fl_peerNums f)") (auto simp: main_setup_def Let_def)
  moreover obtain r where "NewRunner (fl_nodeNum f) view ps (pp \<noteq> None) (main_runner_config f attest syncEmit decoupled pp) = Inr r"
    using assms calculation
    by (cases "NewRunner (fl_nodeNum f) view ps (pp \<noteq> None) (main_runner_config f attest syncEmit decoupled pp)")
      (auto simp: main_setup_def Let_def)
  ultimately show thesis using assms that by (auto simp: main_setup_def Let_def)
qed

lemma main_runner_config_fields [simp]:
  "rc_Attest (main_runner_config f a s d pp) = a" "rc_Sync (main_runner_config f a s d pp) = s"
  "rc_Decoupled (main_runner_config f a s d pp) = d" "rc_Partial (main_runner_config f a s d pp) = pp"
  "rc_AggregateDue (main_runner_config f a s d pp) = fl_aggDue f" "rc_EPBS (main_runner_config f a s d pp) = main_epbs f"
  by (simp_all add: main_runner_config_def)

definition main_schedule :: "(string \<Rightarrow> Assignment option) \<Rightarrow> Flags \<Rightarrow> Assignment option" where
  "main_schedule load f = (if fl_schedule f \<noteq> [] then load (fl_schedule f) else None)"

lemma main_setup_wf: "main_setup load host_ok f = Inr nd \<Longrightarrow> node_wf (main_schedule load f) nd"
proof (erule main_setup_Inr)
  fix sched attest syncEmit decoupled view pp
  assume ph: "main_phases load f = Inr (sched, attest, syncEmit, decoupled)" and v: "view_of sched (fl_nodeNum f) = Some view"
    and r: "NewRunner (fl_nodeNum f) view (fn_peers nd) (pp \<noteq> None) (main_runner_config f attest syncEmit decoupled pp) = Inr (fn_runner nd)"
    and nd: "fn_cfg nd = main_node_cfg f view (pp \<noteq> None)"
      "fn_partial nd = map_option (\<lambda>p. NodeOpts p (fl_seed f) (Some (plan_resolver_of sched))) pp"
  note f = NewRunner_fields [OF r]
  have sched: "main_schedule load f = sched" using main_phases_Inr(2) [OF ph] by (simp add: main_schedule_def)
  have excl: "decoupled \<noteq> None \<longrightarrow> \<not> attest \<and> \<not> syncEmit" using main_phases_Inr(5,6) [OF ph] by blast
  have cfg: "nc_Num (main_node_cfg f view b) = fl_nodeNum f" "nc_hasPartial (main_node_cfg f view b) = b"
    "v_NumColumns view \<le> 0 \<Longrightarrow> nc_ColVerifyService (main_node_cfg f view b) = None" for b
    by (simp_all add: main_node_cfg_def Let_def)
  show ?thesis
    using v excl runner_check_None [OF f(12)] cfg(3) unfolding node_wf_def Let_def f nd sched cfg(1,2)
    by (simp; blast)
qed

text \<open>
  C16: whatever builds a node, it is well-formed.  A node of the driver's fleet, or of the node binary,
  has one number throughout, its own slice of the plan, its peer list as its stable peers, at most one
  of the attestation and the decoupled phase, the partial transport on both sides or on neither and
  only with a flood to carry, a deadline for every aggregator the plan draws for it, and no slot or round open.
\<close>

theorem built_nodes_wf:
  assumes "(\<exists>nds i. driver_New fLen fPeers nw cfg = Some (Inr nds) \<and> i \<in> {0..<fLen nw} \<and> nd = nds ! nat i \<and> sched = cf_Schedule cfg) \<or>
    main_setup load host_ok f = Inr nd \<and> sched = main_schedule load f"
  shows "node_wf sched nd"
  using assms
proof (elim disjE exE conjE)
  fix nds i assume "driver_New fLen fPeers nw cfg = Some (Inr nds)" "i \<in> {0..<fLen nw}" "nd = nds ! nat i" "sched = cf_Schedule cfg"
  then show ?thesis by (simp only: new_node_wf [OF driver_New_nth(2)])
next
  assume "main_setup load host_ok f = Inr nd" "sched = main_schedule load f"
  then show ?thesis by (simp only: main_setup_wf)
qed

section \<open>One run, two front ends\<close>

text \<open>The driver's configuration of the run the flags describe.\<close>

definition same_run :: "(string \<Rightarrow> Assignment option) \<Rightarrow> Flags \<Rightarrow> Config" where
  "same_run load f =
     \<lparr>cf_BlockSize = fl_blockSize f, cf_SlotDuration = fl_slot f, cf_Offset = fl_offset f, cf_Jitter = fl_jitter f,
      cf_VerifyDelay = fl_verifyDelay f, cf_D = fl_D f, cf_Dlo = fl_Dlo f, cf_Dhi = fl_Dhi f, cf_Seed = fl_seed f,
      cf_Schedule = main_schedule load f, cf_Attest = fl_attestations f \<and> main_schedule load f \<noteq> None,
      cf_Sync = fl_sync f \<and> main_schedule load f \<noteq> None, cf_AttestationDue = fl_attDue f, cf_Prep = fl_prep f,
      cf_AttestVerifyDelay = Some (fl_attestVerify f), cf_AttestPerItem = fl_attestPerItem f,
      cf_AttestBatchWindow = fl_attestWindow f, cf_AttestBatchMax = fl_attestBatchMax f, cf_AggregateDue = fl_aggDue f,
      cf_Decoupled = (if df_On (fl_decoupled f) then Some (main_decoupled f) else None),
      cf_Partial = (if pf_Transport (fl_partial f) = ''partial'' then Some (main_partial f) else None),
      cf_EPBS = main_epbs f, cf_ColVerifyService = Some (fl_colVerify f),
      cf_ColVerifyParallelismSuper = fl_colVerifySuper f, cf_ColVerifyParallelismReg = fl_colVerifyReg f\<rparr>"

text \<open>
  C19: the two front ends run the same simulation.  The node the binary builds from its flags is, field
  by field, the node the driver builds at that number from the same knobs, plan and peers: the same
  verifier sizing, transport options and runner.
\<close>

theorem front_ends_agree:
  assumes "main_setup load host_ok f = Inr nd" and "driver_New fLen fPeers nw (same_run load f) = Some (Inr nds)"
    and "fLen nw = fl_numNodes f" and "fl_nodeNum f \<in> {0..<fl_numNodes f}"
    and "fPeers nw (fl_nodeNum f) = Some (fn_peers nd)"
  shows "nds ! nat (fl_nodeNum f) = nd"
proof -
  obtain sched attest syncEmit decoupled view pp where ph: "main_phases load f = Inr (sched, attest, syncEmit, decoupled)"
    and v: "view_of sched (fl_nodeNum f) = Some view"
    and t: "main_transport f (sched, attest, syncEmit, decoupled) = Inr pp"
    and r: "NewRunner (fl_nodeNum f) view (fn_peers nd) (pp \<noteq> None) (main_runner_config f attest syncEmit decoupled pp) = Inr (fn_runner nd)"
    and nd: "fn_cfg nd = main_node_cfg f view (pp \<noteq> None)"
      "fn_partial nd = map_option (\<lambda>p. NodeOpts p (fl_seed f) (Some (plan_resolver_of sched))) pp"
    by (rule main_setup_Inr [OF assms(1)])
  let ?m = "nds ! nat (fl_nodeNum f)" and ?c = "same_run load f"
  have sched: "main_schedule load f = sched" using main_phases_Inr(2) [OF ph] by (simp add: main_schedule_def)
  have dc: "decoupled = (if df_On (fl_decoupled f) then Some (main_decoupled f) else None)" by (rule main_phases_Inr(4) [OF ph])
  have pp: "pp = (if pf_Transport (fl_partial f) = ''partial'' then Some (main_partial f) else None)"
    using main_transport_Inr [OF t] by (cases pp) auto
  have rc: "runner_config (fLen nw) ?c = main_runner_config f attest syncEmit decoupled pp"
    using main_phases_Inr(5,6) [OF ph] dc
    by (auto simp add: runner_config_def same_run_def main_runner_config_def sched pp assms(3) Let_def)
  have "new_node fLen fPeers nw ?c (fl_nodeNum f) = Some (Inr ?m)"
    by (rule driver_New_nth(2) [OF assms(2)]) (simp add: assms(3,4) del: atLeastLessThan_iff)
  then obtain view' ps where "view_of (cf_Schedule ?c) (fl_nodeNum f) = Some view'" "fPeers nw (fl_nodeNum f) = Some ps"
    and m: "NewRunner (fl_nodeNum f) view' ps (cf_Partial ?c \<noteq> None) (runner_config (fLen nw) ?c) = Inr (fn_runner ?m)"
      "fn_cfg ?m = node_config ?c view' (fl_nodeNum f)" "fn_peers ?m = ps"
      "fn_partial ?m = map_option (\<lambda>pp. NodeOpts pp (cf_Seed ?c) (Some (plan_resolver_of (cf_Schedule ?c)))) (cf_Partial ?c)"
    by (rule new_node_Inr)
  then have same: "view' = view" "ps = fn_peers nd" using v assms(5) by (simp_all add: same_run_def sched)
  have c: "cf_Partial ?c = pp" "cf_Seed ?c = fl_seed f" "cf_Schedule ?c = sched" by (simp_all add: same_run_def pp sched)
  have "fn_runner ?m = fn_runner nd" using m(1) r unfolding same rc c(1) by simp
  moreover have "fn_cfg ?m = fn_cfg nd"
    unfolding m(2) nd(1) same node_config_def main_node_cfg_def c(1) by (simp add: same_run_def Let_def)
  moreover have "fn_partial ?m = fn_partial nd" unfolding m(4) nd(2) c ..
  ultimately show ?thesis using m(3) same(2) by (intro fleet_node.equality) simp_all
qed

definition ex_flags :: Flags where
  "ex_flags = default_flags\<lparr>fl_schedule := ''schedule.json'', fl_numNodes := 2, fl_nodeNum := 1, fl_peerNums := '' 0,'',
     fl_aggDue := 8000000000, fl_sync := True, fl_partial := (fl_partial default_flags)\<lparr>pf_Transport := ''partial''\<rparr>\<rparr>"

definition ex_load :: "string \<Rightarrow> Assignment option" where
  "ex_load path = (if path = ''schedule.json'' then Some example_plan else None)"

definition ex_peers :: "unit \<Rightarrow> int \<Rightarrow> int list option" where
  "ex_peers nw i = (if i = 0 then Some [1] else if i = 1 then Some [0] else None)"

lemma ex_main: "main_setup ex_load True ex_flags = Inr (projr (main_setup ex_load True ex_flags))"
  "fn_peers (projr (main_setup ex_load True ex_flags)) = [0]"
proof -
  have "\<not> isl (main_setup ex_load True ex_flags)" by code_simp
  then show "main_setup ex_load True ex_flags = Inr (projr (main_setup ex_load True ex_flags))" by simp
  show "fn_peers (projr (main_setup ex_load True ex_flags)) = [0]" by code_simp
qed

lemma ex_fleet: "\<exists>nds. driver_New (\<lambda>_. 2) ex_peers () (same_run ex_load ex_flags) = Some (Inr nds)"
proof -
  have "driver_New (\<lambda>_. 2) ex_peers () (same_run ex_load ex_flags) \<noteq> None"
    "\<not> isl (the (driver_New (\<lambda>_. 2) ex_peers () (same_run ex_load ex_flags)))" by code_simp+
  then show ?thesis by (metis option.collapse sum.collapse(2))
qed


theorem front_ends_agree_witness:
  "\<exists>nds. driver_New (\<lambda>_. 2) ex_peers () (same_run ex_load ex_flags) = Some (Inr nds) \<and>
     main_setup ex_load True ex_flags = Inr (nds ! 1)"
proof -
  obtain nds where nds: "driver_New (\<lambda>_. 2) ex_peers () (same_run ex_load ex_flags) = Some (Inr nds)" using ex_fleet by blast
  have f: "fl_numNodes ex_flags = 2" "fl_nodeNum ex_flags = 1" by (simp_all add: ex_flags_def default_flags_def)
  have "nds ! nat (fl_nodeNum ex_flags) = projr (main_setup ex_load True ex_flags)"
    by (rule front_ends_agree [OF ex_main(1) nds]) (simp_all add: f ex_peers_def ex_main(2))
  then show ?thesis using nds ex_main(1) by (simp add: f)
qed

theorem built_nodes_wf_witness:
  "node_wf (Some example_plan) (projr (main_setup ex_load True ex_flags))"
proof -
  have "main_schedule ex_load ex_flags = Some example_plan" by (simp add: main_schedule_def ex_load_def ex_flags_def)
  then show ?thesis
    using built_nodes_wf [OF disjI2 [OF conjI [OF ex_main(1) refl]]] by simp
qed

section \<open>Bring-up\<close>

lemma Subscribe_subs: "dom (n_subs (snd (Subscribe all_ok cfg t n))) = insert t (dom (n_subs n))"
proof -
  obtain n1 where "joinLocked all_ok cfg t n = (None, n1)" "n_subs n1 = n_subs n"
    using joinLocked_ok(1) [of cfg t n] joinLocked_frame(1) [of all_ok cfg t n] by (metis prod.collapse)
  then show ?thesis by (auto simp: Subscribe_eq subscribe_finish_def all_ok_def)
qed

definition mem_good :: "node_cfg \<Rightarrow> node_state \<Rightarrow> bool" where
  "mem_good cfg n \<longleftrightarrow> mem_inv cfg n \<and> no_leak n"

lemma mem_good_call: "mem_good cfg n \<Longrightarrow> mem_good cfg (run_call cfg c n)"
  unfolding mem_good_def by (rule run_call_inv)

lemmas mem_good_calls = mem_good_call [of _ _ "(a, CJoin t)" for a t, simplified]
  mem_good_call [of _ _ "(a, CSubscribe t)" for a t, simplified] mem_good_call [of _ _ "(a, CUnsubscribe t)" for a t, simplified]

lemma mem_good_run_topics: "mem_good cfg n \<Longrightarrow> mem_good cfg (run_topics a cfg es n)"
  by (induction a cfg es n rule: run_topics.induct) (auto simp: mem_good_calls split: effect.split)

lemma mem_good_empty: "mem_good cfg (empty_node cfg)"
  unfolding mem_good_def using mem_inv_empty by (simp add: no_leak_def) (simp add: empty_node_def)

lemma mem_good_subscribe_all: "mem_good cfg n \<Longrightarrow> mem_good cfg (snd (subscribe_all a cfg ts n))"
proof (induction ts arbitrary: n)
  case (Cons t ts)
  have "mem_good cfg (snd (Subscribe a cfg t n))" using Cons.prems by (rule mem_good_calls)
  then show ?case using Cons.IH by (cases "Subscribe a cfg t n") (auto split: option.split)
qed simp

lemma subscribe_all_ok:
  "fst (subscribe_all all_ok cfg ts n) = None \<and>
   dom (n_subs (snd (subscribe_all all_ok cfg ts n))) = set ts \<union> dom (n_subs n)"
proof (induction ts arbitrary: n)
  case (Cons t ts)
  have "Subscribe all_ok cfg t n = (None, snd (Subscribe all_ok cfg t n))"
    using joinLocked_ok(1) [of cfg t n]
    by (cases "joinLocked all_ok cfg t n") (auto simp: Subscribe_eq subscribe_finish_def all_ok_def)
  then show ?case using Cons.IH [of "snd (Subscribe all_ok cfg t n)"] Subscribe_subs [of cfg t n]
    by (metis (no_types, lifting) Un_insert_left Un_insert_right list.simps(15) option.case(1) split_conv subscribe_all.simps(2))
qed simp

lemma JoinTopics_subs:
  "JoinTopics all_ok cfg = (None, snd (JoinTopics all_ok cfg))"
  "dom (n_subs (snd (JoinTopics all_ok cfg))) = {BlockTopic, ConsensusBlockTopic, ExecutionPayloadTopic}"
  "mem_good cfg (snd (JoinTopics all_ok cfg))"
proof -
  let ?ts = "[BlockTopic, ConsensusBlockTopic, ExecutionPayloadTopic]"
  have "JoinTopics all_ok cfg = subscribe_all all_ok cfg ?ts (empty_node cfg)" by (rule JoinTopics_def)
  then show "JoinTopics all_ok cfg = (None, snd (JoinTopics all_ok cfg))"
    "dom (n_subs (snd (JoinTopics all_ok cfg))) = {BlockTopic, ConsensusBlockTopic, ExecutionPayloadTopic}"
    "mem_good cfg (snd (JoinTopics all_ok cfg))"
    using subscribe_all_ok [of cfg ?ts "empty_node cfg"] mem_good_subscribe_all [OF mem_good_empty]
    by (metis prod.collapse, simp add: empty_node_def, metis)
qed

fun opens_only :: "effect \<Rightarrow> bool" where
  "opens_only (SubscribeTopic _) \<longleftrightarrow> True"
| "opens_only e \<longleftrightarrow> quiet e"

lemma run_topics_opens:
  "(\<And>e. e \<in> set es \<Longrightarrow> opens_only e) \<Longrightarrow>
     dom (n_subs (run_topics all_ok cfg es n)) = topics_opened es \<union> dom (n_subs n)"
proof (induction es arbitrary: n)
  case (Cons e es)
  have "opens_only e" using Cons.prems by simp
  then show ?case using Cons by (cases e) (simp_all add: Subscribe_subs)
qed simp

lemma Prepare_opens_only: "e \<in> set (Prepare r) \<Longrightarrow> opens_only e"
  by (auto simp: Prepare_def Let_def split: if_splits)

lemma join_all_ok: "join_all all_ok nds = Inr (map (\<lambda>nd. snd (JoinTopics all_ok (fn_cfg nd))) nds)"
proof (induction nds)
  case (Cons nd nds)
  then show ?case using JoinTopics_subs(1) [of "fn_cfg nd"] by (auto split: prod.split option.split)
qed simp



text \<open>
  The fleet runs in lockstep.  However the nodes differ, every runner of a built fleet begins the same
  slots at the same instants, slot \<open>k\<close> exactly \<open>k\<close> slot durations after the start; the run ends one slot
  duration after the end of the last slot, and then no receive loop is left anywhere.
\<close>

theorem fleet_in_lockstep:
  fixes begins :: instant
  assumes "driver_New fLen fPeers nw cfg = Some (Inr nds)" and "nds \<noteq> []"
    and "0 \<le> cf_SlotDuration cfg" and "0 \<le> numSlots" and "now \<le> begins"
  shows "\<exists>closed. driver_Run (cf_SlotDuration cfg) (map fn_runner nds) begins numSlots now ns =
      (replicate (length nds) (map (\<lambda>k. (k, begins + k * cf_SlotDuration cfg)) [0..numSlots - 1]),
       begins + (numSlots + 1) * cf_SlotDuration cfg, closed) \<and>
    length closed = length ns \<and> (\<forall>n \<in> set closed. n_loops n = Map.empty)"
proof -
  let ?d = "cf_SlotDuration cfg"
  have dur: "r_slotDur (fn_runner nd) = ?d" if nd: "nd \<in> set nds" for nd
  proof -
    obtain j where j: "j < length nds" "nd = nds ! j" using nd by (auto simp: in_set_conv_nth)
    then have "int j \<in> {0..<fLen nw}" using driver_New_nth(1) [OF assms(1)] by auto
    from driver_New_nth(2) [OF assms(1) this] j have "new_node fLen fPeers nw cfg (int j) = Some (Inr nd)" by simp
    then show ?thesis by (rule new_node_Inr) (auto dest: NewRunner_slotDur simp: runner_config_def Let_def)
  qed
  have "0 \<le> numSlots * ?d" using assms(3,4) by simp
  then have ret: "run_returns (fn_runner nd) begins numSlots now = begins + numSlots * ?d" if "nd \<in> set nds" for nd
    using assms(5) dur [OF that] by (simp add: run_returns_def)
  have "foldl (\<lambda>t r. max t (run_returns r begins numSlots now)) t (map fn_runner nds) = begins + numSlots * ?d"
    if "t \<le> begins + numSlots * ?d" for t
    using assms(2) ret that
  proof (induction nds arbitrary: t)
    case (Cons nd nds)
    then show ?case by (cases "nds = []") simp_all
  qed simp
  moreover have "now \<le> begins + numSlots * ?d" using assms(5) \<open>0 \<le> numSlots * ?d\<close> by simp
  moreover have "map (\<lambda>r. slot_starts r begins numSlots) (map fn_runner nds) =
      replicate (length nds) (map (\<lambda>k. (k, begins + k * ?d)) [0..numSlots - 1])"
    by (intro nth_equalityI) (simp_all add: slot_starts_def dur)
  ultimately show ?thesis
    by (intro exI [of _ "map Close ns"]) (auto simp: driver_Run_def Close_def algebra_simps)
qed

theorem fleet_in_lockstep_witness:
  "\<exists>nds starts ended closed. driver_New (\<lambda>_. 2) ex_peers () (same_run ex_load ex_flags) = Some (Inr nds) \<and>
     driver_Run 12000000000 (map fn_runner nds) 60000000000 2 0 [] = (starts, ended, closed) \<and> ended = 96000000000"
proof -
  obtain nds where nds: "driver_New (\<lambda>_. 2) ex_peers () (same_run ex_load ex_flags) = Some (Inr nds)" using ex_fleet by blast
  have d: "cf_SlotDuration (same_run ex_load ex_flags) = 12000000000"
    by (simp add: same_run_def ex_flags_def default_flags_def)
  have "length nds = 2" using driver_New_nth(1) [OF nds] by simp
  then have "nds \<noteq> []" by auto
  from fleet_in_lockstep [OF nds this, of 2 0 60000000000 "[]"] show ?thesis using nds by (auto simp: d)
qed

section \<open>Flags\<close>

fun join_commas :: "string list \<Rightarrow> string" where
  "join_commas [] = []"
| "join_commas [f] = f"
| "join_commas (f # fs) = f @ CHR '','' # join_commas fs"

lemma split_commas_plain: "CHR '','' \<notin> set f \<Longrightarrow> split_commas f = [f]"
  by (induction f) auto

lemma split_commas_field: "CHR '','' \<notin> set f \<Longrightarrow> split_commas (f @ CHR '','' # s) = f # split_commas s"
  by (induction f) auto

lemma split_join: "fs \<noteq> [] \<Longrightarrow> \<forall>f \<in> set fs. CHR '','' \<notin> set f \<Longrightarrow> split_commas (join_commas fs) = fs"
  by (induction fs rule: join_commas.induct) (auto simp: split_commas_plain split_commas_field)

lemma TrimSpace_padded:
  assumes "list_all is_space a" "list_all is_space b" and "s \<noteq> []" "\<not> is_space (hd s)" "\<not> is_space (last s)"
  shows "TrimSpace (a @ s @ b) = s"
proof -
  have d: "dropWhile is_space (w @ u) = dropWhile is_space u" if "list_all is_space w" for w u
    using that by (simp add: dropWhile_append2 list_all_iff)
  have stop: "dropWhile is_space u = u" if "u \<noteq> []" "\<not> is_space (hd u)" for u
    using that by (cases u) simp_all
  have b: "list_all is_space (rev b)" using assms(2) by simp
  have "dropWhile is_space (a @ s @ b) = s @ b" using d [OF assms(1)] stop [of "s @ b"] assms(3,4) by simp
  moreover have "dropWhile is_space (rev b @ rev s) = rev s"
    using d [OF b] stop [of "rev s"] assms(3,5) by (simp add: hd_rev)
  ultimately show ?thesis by (simp add: TrimSpace_def)
qed

lemma is_digit_plain: "is_digit c \<Longrightarrow> \<not> is_space c \<and> c \<noteq> CHR '',''"
  by (auto simp: is_digit_def is_space_def)

lemma fmt_d_plain: "c \<in> set (fmt_d i) \<Longrightarrow> \<not> is_space c \<and> c \<noteq> CHR '',''"
proof -
  have "c \<in> set (dec n) \<Longrightarrow> is_digit c" for n using dec_digits [of n] by (simp add: list_all_iff)
  moreover have "\<not> is_space CHR ''-''" by (simp add: is_space_def)
  ultimately show "c \<in> set (fmt_d i) \<Longrightarrow> \<not> is_space c \<and> c \<noteq> CHR '',''"
    using is_digit_plain by (auto simp: fmt_d_def split: if_splits)
qed

lemma parse_fields_padded:
  assumes "\<forall>(a, n, b) \<in> set fs. list_all is_space a \<and> list_all is_space b \<and> - (2 ^ 63) \<le> n \<and> n < 2 ^ 63"
  shows "parse_fields (map (\<lambda>(a, n, b). a @ fmt_d n @ b) fs) = Inr (map (\<lambda>(a, n, b). n) fs)"
  using assms
proof (induction fs)
  case (Cons x fs)
  obtain a n b where x: "x = (a, n, b)" by (cases x)
  have "TrimSpace (a @ fmt_d n @ b) = fmt_d n"
    using Cons.prems fmt_d_plain [of _ n] by (intro TrimSpace_padded) (auto simp: x)
  moreover have "atoi (fmt_d n) = Some n" using Cons.prems by (intro atoi_fmt_d) (auto simp: x)
  ultimately show ?case using Cons by (simp add: x)
qed simp

text \<open>
  The peer list is read back as it was written.  A comma-separated list of 64-bit decimal numbers,
  each with any ASCII white space around it, is parsed to exactly these numbers in order.
\<close>

theorem parseIntList_roundtrip:
  assumes "\<forall>(a, n, b) \<in> set fs. list_all is_space a \<and> list_all is_space b \<and> - (2 ^ 63) \<le> n \<and> n < 2 ^ 63"
  shows "parseIntList (join_commas (map (\<lambda>(a, n, b). a @ fmt_d n @ b) fs)) = Inr (map (\<lambda>(a, n, b). n) fs)"
proof (cases "fs = []")
  case True
  then show ?thesis by (simp add: parseIntList_def TrimSpace_def)
next
  case False
  have "CHR '','' \<notin> set (a @ fmt_d n @ b)" if "(a, n, b) \<in> set fs" for a n b
    using assms that fmt_d_plain [of "CHR '',''" n] by (fastforce simp: list_all_iff is_space_def)
  then have "split_commas (join_commas (map (\<lambda>(a, n, b). a @ fmt_d n @ b) fs)) = map (\<lambda>(a, n, b). a @ fmt_d n @ b) fs"
    using False by (intro split_join) auto
  then show ?thesis using parse_fields_padded [OF assms] by (simp add: parseIntList_def)
qed

theorem parseIntList_roundtrip_witness: "parseIntList '' 1 , 2,3 '' = Inr [1, 2, 3]"
proof -
  let ?fs = "[('' '', 1, '' ''), ('' '', 2, []), ([], 3, '' '')]"
  have eq: "'' 1 , 2,3 '' = join_commas (map (\<lambda>(a, n, b). a @ fmt_d n @ b) ?fs)" by code_simp
  have "parseIntList (join_commas (map (\<lambda>(a, n, b). a @ fmt_d n @ b) ?fs)) = Inr (map (\<lambda>(a, n, b). n) ?fs)"
    by (rule parseIntList_roundtrip) (simp add: is_space_def)
  then show ?thesis by (subst eq) (simp only: list.map prod.case)
qed

text \<open>
  C37: how long the startup window really has to be.  Every host joins its topics before slot 0, however
  the two random pauses fall, exactly if the window exceeds the largest pauses plus the time the dials
  take, about 31 seconds; the flag check only demands more than the stagger, so it lets windows
  through in which a host joins after slot 0 has begun.
\<close>

theorem settle_window_exact:
  assumes "0 \<le> dialing"
  shows "((\<forall>jit \<in> {0..<1000000000}. \<forall>stagger \<in> {0..<meshJoinStagger}. joinsAt p jit dialing stagger < runStart p f) \<longleftrightarrow>
      31000000000 - 2 + dialing < fl_startup f) \<and>
    (\<exists>w. 0 < settleWindow w meshJoinStagger \<and>
       (\<exists>jit \<in> {0..<1000000000}. \<exists>stagger \<in> {0..<meshJoinStagger}.
          runStart p (f\<lparr>fl_startup := w\<rparr>) < joinsAt p jit dialing stagger))"
proof
  show "(\<forall>jit \<in> {0..<1000000000}. \<forall>stagger \<in> {0..<meshJoinStagger}. joinsAt p jit dialing stagger < runStart p f) \<longleftrightarrow>
      31000000000 - 2 + dialing < fl_startup f" (is "?all \<longleftrightarrow> _")
  proof
    assume ?all
    then have "joinsAt p (1000000000 - 1) dialing (meshJoinStagger - 1) < runStart p f"
      by (simp add: meshJoinStagger_def)
    then show "31000000000 - 2 + dialing < fl_startup f"
      by (simp add: joinsAt_def dialsAt_def runStart_def meshJoinStagger_def)
  next
    assume "31000000000 - 2 + dialing < fl_startup f"
    then show ?all by (auto simp: joinsAt_def dialsAt_def runStart_def meshJoinStagger_def)
  qed
  have "0 < settleWindow 30000000001 meshJoinStagger"
    "runStart p (f\<lparr>fl_startup := 30000000001\<rparr>) < joinsAt p 999999999 dialing 29999999999"
    "999999999 \<in> {0..<1000000000::int}" "29999999999 \<in> {0..<meshJoinStagger}"
    using assms by (simp_all add: settleWindow_def meshJoinStagger_def runStart_def joinsAt_def dialsAt_def)
  then show "\<exists>w. 0 < settleWindow w meshJoinStagger \<and>
       (\<exists>jit \<in> {0..<1000000000}. \<exists>stagger \<in> {0..<meshJoinStagger}.
          runStart p (f\<lparr>fl_startup := w\<rparr>) < joinsAt p jit dialing stagger)" by blast
qed

theorem settle_window_exact_witness:
  "joinsAt 0 999999999 5000000000 29999999999 < runStart 0 default_flags"
proof -
  have "31000000000 - 2 + 5000000000 < fl_startup default_flags" by (simp add: default_flags_def)
  then have "\<forall>jit \<in> {0..<1000000000}. \<forall>stagger \<in> {0..<meshJoinStagger}. joinsAt 0 jit 5000000000 stagger < runStart 0 default_flags"
    using settle_window_exact [of 5000000000 0 default_flags] by simp
  then show ?thesis by (simp add: meshJoinStagger_def)
qed

end
