(* ===== verification/Delivery.thy ===== *)
theory Delivery
  imports Driver MetricsProps
begin

text \<open>
  From one node's publish to another node's arrival: the emitters of src/driver/runner.go, the wire, the
  receive loop of src/node/node.go, the receiving runner and the recorder of src/metrics/tracer.go, in
  one chain.
\<close>

section \<open>What is on the wire\<close>

fun wire_of :: "effect \<Rightarrow> (string \<times> bytes) list" where
  "wire_of (Publish topic data) = [(topic, data)]"
| "wire_of _ = []"

definition wire :: "effect list \<Rightarrow> (string \<times> bytes) list" where
  "wire es = concat (map wire_of es)"

definition published :: "effect list \<Rightarrow> MsgID list" where
  "published es = concat (map records es)"

lemma wire_simps [simp]: "wire [] = []" "wire (e # es) = wire_of e @ wire es"
  by (simp_all add: wire_def)

lemma published_simps [simp]: "published [] = []" "published (e # es) = records e @ published es"
  by (simp_all add: published_def)

text \<open>The messages as a receiver reads them, at the instants \<open>ts\<close>.\<close>

definition delivered :: "effect list \<Rightarrow> instant list \<Rightarrow> (string \<times> bytes \<times> instant) list" where
  "delivered es ts = map2 (\<lambda>(topic, data) t. (topic, data, t)) (wire es) ts"

text \<open>A recorded sequence is made of pairs, a record and its publish, and of calls that are neither.\<close>

lemma recorded_pairs [consumes 1, case_names Nil Pair Skip]:
  assumes "recorded C n es" and "P []"
    and "\<And>ident v t topic data es. decodes_to C n ident topic data \<Longrightarrow> recorded C n es \<Longrightarrow> P es \<Longrightarrow>
      P (OnPublish ident v t # Publish topic data # es)"
    and "\<And>e es. wire_of e = [] \<Longrightarrow> records e = [] \<Longrightarrow> recorded C n es \<Longrightarrow> P es \<Longrightarrow> P (e # es)"
  shows "P es"
  using assms(1)
proof (induction es rule: length_induct)
  case (1 es)
  show ?case
  proof (cases es)
    case (Cons e es')
    consider (pub) ident v t where "e = OnPublish ident v t" | (skip) "wire_of e = []" "records e = []" "recorded C n es'"
      using "1.prems" Cons by (cases e) simp_all
    then show ?thesis
    proof cases
      case pub
      with "1.prems" Cons obtain topic data rest where "es' = Publish topic data # rest" "decodes_to C n ident topic data"
        "recorded C n rest" by (auto split: list.splits effect.splits)
      then show ?thesis using "1.IH" Cons pub assms(3) by simp
    qed (use "1.IH" Cons assms(4) in simp)
  qed (use assms(2) in simp)
qed

lemma recorded_wire: "recorded C n es \<Longrightarrow> length (wire es) = length (published es)"
  by (induction rule: recorded_pairs) simp_all

lemma Decode_at:
  "Decode C topic data 0 = Inr rec \<Longrightarrow> Decode C topic data t = Inr (rec\<lparr>rec_at := t\<rparr>)"
  by (auto simp: Decode_def split: option.splits sum.splits)

section \<open>One message\<close>

lemma quiet_slot_column: "\<forall>e \<in> set (snd (slot_column r slot now col t ss)). quiet e"
  by (auto simp: slot_column_def tryEarlyEmit_def split_beta Let_def)

lemma onColumnProcessed_quiet: "e \<in> set (snd (onColumnProcessed r now slot col t)) \<Longrightarrow> quiet e"
  using quiet_slot_column by (auto simp: onColumnProcessed_def on_slot_def split_beta Let_def split: option.splits)

lemma on_slot_num [simp]: "r_num (fst (on_slot r slot f)) = r_num r"
  by (simp add: on_slot_def split_beta Let_def split: option.split)

lemma onReceive_num [simp]: "r_num (fst (onReceive r now rec)) = r_num r"
  by (simp add: onReceive_def Let_def split_beta onBlockProcessed_def onColumnProcessed_def onPayloadProcessed_def split: Kind.split)

lemma onReceive_trace:
  "trace (snd (onReceive r now rec)) =
     (if rec_origin rec = r_num r then []
      else [TReceive (r_num r) \<lparr>mid_kind = rec_kind rec, mid_ident = rec_id rec\<rparr> (rec_at rec)])"
proof -
  have "trace (snd (onColumnProcessed r now slot col t)) = []" for slot col t
    by (rule trace_quiet) (rule onColumnProcessed_quiet)
  then show ?thesis
    by (cases "rec_kind rec") (simp_all add: onReceive_def Let_def split_beta trace_Cons trace_marks)
qed

lemma receive_decoded:
  assumes "decodes_to C n ident topic data" and "r_num r \<noteq> n"
  shows "\<exists>r1. r_num r1 = r_num r \<and>
    trace (snd (receive C ((topic, data, t) # ms) r)) = TReceive (r_num r) ident t # trace (snd (receive C ms r1))"
proof -
  obtain rec where rec: "Decode C topic data 0 = Inr rec" "rec_kind rec = mid_kind ident" "rec_id rec = mid_ident ident"
    "rec_origin rec = n" using assms(1) by (auto simp: decodes_to_def)
  let ?rec = "rec\<lparr>rec_at := t\<rparr>" and ?r1 = "fst (onReceive r t (rec\<lparr>rec_at := t\<rparr>))"
  have "trace (snd (onReceive r t ?rec)) = [TReceive (r_num r) ident t]"
    using rec(2-4) assms(2) by (simp add: onReceive_trace)
  then have "trace (snd (receive C ((topic, data, t) # ms) r)) = TReceive (r_num r) ident t # trace (snd (receive C ms ?r1))"
    using Decode_at [OF rec(1), of t] by (simp add: split_beta)
  then show ?thesis by (intro exI [of _ ?r1]) simp
qed

text \<open>Messages the runner already answers for itself leave no trace.\<close>

lemma receive_own:
  assumes "decodes_to C (r_num r) ident topic data"
  shows "receive C ((topic, data, t) # ms) r = receive C ms r"
proof -
  obtain rec where rec: "Decode C topic data 0 = Inr rec" "rec_origin rec = r_num r" using assms by (auto simp: decodes_to_def)
  then show ?thesis using Decode_at [OF rec(1), of t] by (simp add: onReceive_def split_beta)
qed

section \<open>A burst\<close>

lemma receive_burst:
  assumes "recorded C n es" and "r_num r \<noteq> n" and "length ts = length (published es)"
  shows "trace (snd (receive C (delivered es ts) r)) = map2 (TReceive (r_num r)) (published es) ts"
  using assms
proof (induction arbitrary: r ts rule: recorded_pairs)
  case (Pair ident v t topic data es)
  obtain u us where ts: "ts = u # us" "length us = length (published es)" using Pair.prems(2) by (cases ts) auto
  have split: "delivered (OnPublish ident v t # Publish topic data # es) ts = (topic, data, u) # delivered es us"
    by (simp add: delivered_def ts(1))
  obtain r1 where "r_num r1 = r_num r"
    "trace (snd (receive C ((topic, data, u) # delivered es us) r)) = TReceive (r_num r) ident u # trace (snd (receive C (delivered es us) r1))"
    using receive_decoded [OF Pair.hyps(1) Pair.prems(1)] by blast
  then show ?case unfolding split using Pair.IH [of r1 us] Pair.prems(1) ts by simp
qed (auto simp: delivered_def)

section \<open>The record of a burst\<close>

text \<open>An effect that, if it is traced at all, records a publish at the instant \<open>t\<close>.\<close>

fun publishes_at :: "instant \<Rightarrow> effect \<Rightarrow> bool" where
  "publishes_at t (OnPublish _ _ u) \<longleftrightarrow> u = t"
| "publishes_at t (OnReceive _ _ _) \<longleftrightarrow> False"
| "publishes_at t _ \<longleftrightarrow> True"

lemma quiet_publishes_at: "quiet e \<Longrightarrow> publishes_at t e"
  by (cases e) simp_all

lemma burst_publishes_at: "e \<in> set (burst q C vote t ds) \<Longrightarrow> publishes_at t e"
  by (auto simp: burst_def)

lemma emitters_publish_at:
  assumes "es \<in> {emitGated C r joins order slot ss t, emitSyncMessage C r joins slot ss t,
      snd (emitAggregate C r slot ss t), snd (emitSyncContribution C r slot ss t), snd (emitPTCVote C r slot ss t),
      snd (publishBlock C r t msg), snd (publishConsensusBlock C r ep t slot), snd (publishExecutionPayload C r t slot)}"
    and "\<not> r_partial r" and "e \<in> set es"
  shows "publishes_at t e"
proof -
  note quiet = quiet_publishes_at [OF onBlockProcessed_quiet]
  have "\<forall>e \<in> set (emitGated C r joins order slot ss t). publishes_at t e"
    using assms(2) by (auto simp: emitGated_def emitACVote_burst emit_def Let_def intro: burst_publishes_at split: if_splits)
  moreover have "\<forall>e \<in> set (emitSyncMessage C r joins slot ss t). publishes_at t e"
    by (auto simp: emitSyncMessage_def Let_def)
  moreover have "\<forall>e \<in> set (snd (emitAggregate C r slot ss t)) \<union> set (snd (emitSyncContribution C r slot ss t)) \<union>
      set (snd (emitPTCVote C r slot ss t)). publishes_at t e"
    by (auto simp: recorded_bursts intro: burst_publishes_at)
  moreover have "\<forall>e \<in> set (snd (publishBlock C r t msg)). publishes_at t e"
    by (auto simp: publishBlock_def Let_def split_beta quiet_marks burst_columns_burst intro: quiet burst_publishes_at split: if_splits)
  moreover have "\<forall>e \<in> set (snd (publishConsensusBlock C r ep t slot)) \<union> set (snd (publishExecutionPayload C r t slot)). publishes_at t e"
    by (auto simp: publishConsensusBlock_def publishExecutionPayload_def Let_def split_beta quiet_marks burst_columns_burst
        intro: quiet burst_publishes_at)
  ultimately show ?thesis using assms(1,3) by blast
qed

lemma published_trace: "m \<in> set (published es) \<longleftrightarrow> (\<exists>v u. TPublish m v u \<in> set (trace es))"
proof (induction es)
  case (Cons e es)
  then show ?case by (cases e) (auto simp: trace_Cons)
qed simp

lemma publishes_only:
  assumes "\<And>e. e \<in> set es \<Longrightarrow> publishes_at t e" and "x \<in> set (trace es)"
  shows "\<exists>m v. x = TPublish m v t"
  using assms
proof (induction es)
  case (Cons e es)
  have "publishes_at t e" using Cons.prems(1) by simp
  moreover have "\<exists>m v. x = TPublish m v t" if "x \<in> set (trace es)" using Cons.IH [OF _ that] Cons.prems(1) by simp
  ultimately show ?case using Cons.prems(2) by (cases e) (auto simp: trace_Cons)
qed simp

lemma record_publishes_only:
  assumes "\<And>x. x \<in> set T \<Longrightarrow> \<not> is_receive x"
  shows "mr_arrivals (record_all (pre @ T)) = mr_arrivals (record_all pre) \<and> mr_orphans (record_all (pre @ T)) = mr_orphans (record_all pre)"
  using assms
proof (induction T rule: rev_induct)
  case (snoc x T)
  then have "\<not> is_receive x" "mr_arrivals (record_all (pre @ T)) = mr_arrivals (record_all pre)"
    "mr_orphans (record_all (pre @ T)) = mr_orphans (record_all pre)" by simp_all
  then show ?case
    by (cases x) (simp_all add: record_all_snoc Recorder_OnPublish_def flip: append_assoc)
qed simp

definition arrival_at :: "trace_event list \<Rightarrow> int \<Rightarrow> MsgID \<Rightarrow> instant \<Rightarrow> Arrival" where
  "arrival_at T nd m u =
     (let p = the (last_publish m T) in \<lparr>arr_Node = nd, arr_ID = m, arr_Delay = u - pr_at p, arr_VotedBlock = pr_voted p\<rparr>)"

lemma last_publish_receives: "last_publish m (T @ map2 (TReceive nd) ms ts) = last_publish m T"
proof -
  have "last_publish m (map2 (TReceive nd) ms ts) = None" by (auto simp: last_publish_None)
  then show ?thesis by (simp add: last_publish_append)
qed

lemma record_receives:
  assumes "length ms = length ts" and "\<And>m. m \<in> set ms \<Longrightarrow> last_publish m T \<noteq> None"
  shows "mr_arrivals (record_all (T @ map2 (TReceive nd) ms ts)) = mr_arrivals (record_all T) @ map2 (arrival_at T nd) ms ts \<and>
    mr_orphans (record_all (T @ map2 (TReceive nd) ms ts)) = mr_orphans (record_all T)"
  using assms
proof (induction ms arbitrary: ts rule: rev_induct)
  case (snoc m ms)
  obtain us u where ts: "ts = us @ [u]" "length ms = length us" using snoc.prems(1) by (cases ts rule: rev_cases) auto
  let ?T = "T @ map2 (TReceive nd) ms us"
  obtain p where p: "last_publish m T = Some p" using snoc.prems(2) [of m] by auto
  have "map_of (mr_pub (record_all ?T)) m = Some p" by (simp add: record_all_pub last_publish_receives p)
  moreover have "T @ map2 (TReceive nd) (ms @ [m]) ts = ?T @ [TReceive nd m u]" using ts by simp
  moreover have "mr_arrivals (record_all ?T) = mr_arrivals (record_all T) @ map2 (arrival_at T nd) ms us"
    "mr_orphans (record_all ?T) = mr_orphans (record_all T)" using snoc.IH [OF ts(2)] snoc.prems(2) by simp_all
  ultimately show ?case using ts
    by (simp only: record_all_snoc record_event.simps) (simp add: Recorder_OnReceive_def arrival_at_def p)
qed simp

lemma recorded_emitters:
  assumes "codec_roundtrip C" and "slot_in_range r slot ss" and "v_NumColumns (r_view r) \<le> 2 ^ 32" and "\<not> r_partial r"
    and "es \<in> {emitGated C r joins order slot ss t, emitSyncMessage C r joins slot ss t,
      snd (emitAggregate C r slot ss t), snd (emitSyncContribution C r slot ss t), snd (emitPTCVote C r slot ss t),
      snd (publishBlock C r t (MakeBlock C slot (r_num r) bs)), snd (publishConsensusBlock C r ep t slot),
      snd (publishExecutionPayload C r t slot)}"
  shows "recorded C (r_num r) es"
proof -
  have rng: "wire_range slot" "wire_range (r_num r)" using assms(2) by (auto simp: slot_in_range_def)
  have "recorded C (r_num r) (snd (emitAggregate C r slot ss t))" "recorded C (r_num r) (snd (emitSyncContribution C r slot ss t))"
    "recorded C (r_num r) (snd (emitPTCVote C r slot ss t))"
    using assms by (auto simp: recorded_bursts slot_in_range_def pub_defs intro!: recorded_burst)
  moreover note recorded_emitGated [OF assms(1,2,4)] recorded_emitSyncMessage [OF assms(1,2)]
    recorded_publishBlock [OF assms(1) rng assms(3)] recorded_publishConsensusBlock [OF assms(1) rng]
    recorded_publishExecutionPayload [OF assms(1) rng assms(3)]
  ultimately show ?thesis using assms(5) by (elim insertE emptyE) simp_all
qed

text \<open>
  C4: what is published is what arrives.  Whatever the run has recorded before, if another node's
  receive loop reads everything a node's emission of a slot put on the wire, at the instants \<open>ts\<close>, then
  the recorder gains exactly one arrival per published message, in order, at that node, under the
  published identity, with the time from publish to read as its delay, and not one orphan.
\<close>

theorem delivered_is_recorded:
  assumes "codec_roundtrip C" and "slot_in_range r slot ss" and "v_NumColumns (r_view r) \<le> 2 ^ 32" and "\<not> r_partial r"
    and "es \<in> {emitGated C r joins order slot ss t, emitSyncMessage C r joins slot ss t,
      snd (emitAggregate C r slot ss t), snd (emitSyncContribution C r slot ss t), snd (emitPTCVote C r slot ss t),
      snd (publishBlock C r t (MakeBlock C slot (r_num r) bs)), snd (publishConsensusBlock C r ep t slot),
      snd (publishExecutionPayload C r t slot)}"
    and "r_num rcv \<noteq> r_num r" and "length ts = length (wire es)"
  shows "let R = record_all (pre @ trace es @ trace (snd (receive C (delivered es ts) rcv)))
    in \<exists>new. mr_arrivals R = mr_arrivals (record_all pre) @ new \<and> mr_orphans R = mr_orphans (record_all pre) \<and>
    map arr_ID new = published es \<and> (\<forall>a \<in> set new. arr_Node a = r_num rcv) \<and> map arr_Delay new = map (\<lambda>u. u - t) ts"
proof -
  let ?R = "record_all (pre @ trace es @ trace (snd (receive C (delivered es ts) rcv)))"
  have rec: "recorded C (r_num r) es" by (rule recorded_emitters [OF assms(1-5)])
  then have len: "length ts = length (published es)" using recorded_wire assms(7) by simp
  have at: "\<And>e. e \<in> set es \<Longrightarrow> publishes_at t e" using emitters_publish_at [OF assms(5,4)] .
  let ?T = "pre @ trace es"
  have rcvs: "trace (snd (receive C (delivered es ts) rcv)) = map2 (TReceive (r_num rcv)) (published es) ts"
    by (rule receive_burst [OF rec assms(6) len])
  have pub: "\<exists>p. last_publish m ?T = Some p \<and> pr_at p = t" if "m \<in> set (published es)" for m
  proof -
    have "last_publish m (trace es) \<noteq> None" using that by (auto simp: last_publish_None published_trace)
    then obtain p where p: "last_publish m (trace es) = Some p" by blast
    then have "pr_at p = t" using publishes_only [OF at last_publish_Some] by fastforce
    then show ?thesis using p by (simp add: last_publish_append)
  qed
  have "\<not> is_receive x" if "x \<in> set (trace es)" for x using publishes_only [OF at that] by auto
  note base = record_publishes_only [of "trace es", OF this]
  have new: "mr_arrivals ?R = mr_arrivals (record_all ?T) @ map2 (arrival_at ?T (r_num rcv)) (published es) ts"
    "mr_orphans ?R = mr_orphans (record_all ?T)"
    using record_receives [of "published es" ts ?T "r_num rcv"] pub len unfolding rcvs by fastforce+
  let ?new = "map2 (arrival_at ?T (r_num rcv)) (published es) ts"
  have "arr_Delay (arrival_at ?T (r_num rcv) m u) = u - t" if "m \<in> set (published es)" for m u
    using pub [OF that] by (auto simp: arrival_at_def)
  then have "map arr_Delay ?new = map (\<lambda>u. u - t) ts"
    using len by (intro nth_equalityI) simp_all
  moreover have "map arr_ID ?new = published es"
    using len by (intro nth_equalityI) (simp_all add: arrival_at_def Let_def)
  moreover have "\<forall>a \<in> set ?new. arr_Node a = r_num rcv" by (auto simp: arrival_at_def Let_def)
  ultimately show ?thesis using new base [of pre] unfolding Let_def by (intro exI [of _ ?new]) simp
qed

theorem delivered_is_recorded_witness:
  "let es = emitGated fixed_codec ex_runner (\<lambda>_. True) [5] 3 ex_slot 4000;
       R = record_all (trace es @ trace (snd (receive fixed_codec (delivered es [4070]) (ex_runner\<lparr>r_num := 2\<rparr>))))
   in mr_orphans R = 0 \<and> map arr_Delay (mr_arrivals R) = [70]"
proof -
  let ?es = "emitGated fixed_codec ex_runner (\<lambda>_. True) [5] 3 ex_slot 4000"
  have h: "slot_in_range ex_runner 3 ex_slot" "v_NumColumns (r_view ex_runner) \<le> 2 ^ 32" "\<not> r_partial ex_runner"
    by (simp_all add: slot_in_range_def wire_range_def ex_slot_def new_slotState_def ex_runner_def base_runner_def)
  have "length [4070 :: instant] = length (wire ?es)"
    by (simp add: emitGated_def emit_def ex_runner_def base_runner_def ex_slot_def new_slotState_def Let_def)
  moreover have "r_num (ex_runner\<lparr>r_num := 2\<rparr>) \<noteq> r_num ex_runner" by (simp add: ex_runner_def base_runner_def)
  ultimately show ?thesis
    using delivered_is_recorded [OF fixed_codec_roundtrip h insertI1, of "ex_runner\<lparr>r_num := 2\<rparr>" "[4070]" "\<lambda>_. True" "[5]" 4000 "[]"]
    by (auto simp: Let_def record_all_def NewRecorder_def)
qed

end
