(* ===== verification/PartialNode.thy ===== *)
theory PartialNode
  imports PartialProps Resolver DriverProps Emission
begin

text \<open>
  The partial transport on its node: what \<open>Start\<close> in src/node/node.go builds, the node's methods that
  hand the runner's calls on to the manager, and the effects of the runner (src/driver/runner.go) run
  against the manager's state machine.
\<close>

section \<open>Start\<close>

text \<open>
  gossipsub's parameters, the nine fields the code sets; the library's other fields are an extension of
  the record, its defaults an argument.
\<close>

record gossip_params =
  gp_D :: int
  gp_Dlo :: int
  gp_Dhi :: int
  gp_Dout :: int
  gp_Dlazy :: int
  gp_HeartbeatInterval :: dur
  gp_FanoutTTL :: dur
  gp_HistoryLength :: int
  gp_HistoryGossip :: int

datatype 'p pubsub_option =
    WithGossipSubParams 'p | WithMessageIdFn | WithStrictNoSign | WithNoAuthor
  | WithPeerOutboundQueueSize int | WithValidateQueueSize int | WithValidateThrottle int
  | WithMaxMessageSize int | WithRPCLogger | WithPartialMessagesExtension int

definition maxMessageSize :: int where
  "maxMessageSize = 10 * 1024 * 1024"

definition start_params :: "node_cfg \<Rightarrow> 'x gossip_params_scheme \<Rightarrow> 'x gossip_params_scheme" where
  "start_params cfg defaults =
     defaults\<lparr>gp_D := nc_D cfg, gp_Dlo := nc_Dlo cfg, gp_Dhi := nc_Dhi cfg, gp_Dout := 1, gp_Dlazy := 6,
       gp_HeartbeatInterval := 700000000, gp_FanoutTTL := 60000000000, gp_HistoryLength := 6,
       gp_HistoryGossip := 3\<rparr>"

text \<open>\<open>newExtension\<close>: the groups the library keeps expire after ten heartbeats.\<close>

definition newExtension :: "'p pubsub_option" where
  "newExtension = WithPartialMessagesExtension 10"

text \<open>
  \<open>Start\<close>: the manager, if the node has transport options (\<open>None\<close> is the panic of one without a
  resolver), and the options; \<open>ps_ok\<close> is whether the library accepts them, \<open>logger\<close> whether the node has
  a logger for RPCs.
\<close>

definition Start ::
  "('x gossip_params_scheme pubsub_option list \<Rightarrow> bool) \<Rightarrow> 'x gossip_params_scheme \<Rightarrow> bool \<Rightarrow> node_cfg \<Rightarrow> PartialOpts option \<Rightarrow>
     (bring_error + partialManager option \<times> 'x gossip_params_scheme pubsub_option list) option" where
  "Start ps_ok defaults logger cfg opts =
     do {
       pm \<leftarrow> (case opts of None \<Rightarrow> Some None | Some po \<Rightarrow> map_option Some (newPartialManager po (nc_D cfg)));
       let options =
         [WithGossipSubParams (start_params cfg defaults), WithMessageIdFn, WithStrictNoSign, WithNoAuthor,
          WithPeerOutboundQueueSize 20000, WithValidateQueueSize 20000, WithValidateThrottle 50000,
          WithMaxMessageSize maxMessageSize] @
         (if logger then [WithRPCLogger] else []) @ (if pm \<noteq> None then [newExtension] else []);
       Some (if ps_ok options then Inr (pm, options) else Inl (StartFailed (nc_Num cfg)))
     }"

section \<open>The node's methods\<close>

text \<open>The first is called with a manager only: on a classic node it panics.\<close>

definition node_PublishLocalPartial ::
  "PartialResolver \<Rightarrow> string \<Rightarrow> int \<Rightarrow> int \<Rightarrow> bytes \<Rightarrow> bytes \<Rightarrow> partialManager option \<Rightarrow> partialManager option option" where
  "node_PublishLocalPartial R topic grp position sg data pm =
     Option.bind pm (\<lambda>m. map_option Some (publishLocal R m topic grp position sg data))"

definition node_FanoutPartial ::
  "envelope_codec \<Rightarrow> string list \<Rightarrow> (string \<Rightarrow> PublishAction \<Rightarrow> bool) \<Rightarrow> string \<Rightarrow> int \<Rightarrow> int list \<Rightarrow> bytes list \<Rightarrow> bytes \<Rightarrow>
     (string \<times> bytes \<times> (string \<times> PublishAction) list) option" where
  "node_FanoutPartial E peerOrder accepts topic grp positions sigs data =
     map_option (\<lambda>sent. (topic, groupKeyBytes grp, sent)) (fanoutPublish E peerOrder accepts positions sigs data)"

definition node_SealPartial :: "Kind \<Rightarrow> int \<Rightarrow> partialManager option \<Rightarrow> partialManager option" where
  "node_SealPartial kind grp pm = map_option (\<lambda>m. seal m kind grp) pm"

definition node_PrunePartial :: "Kind \<Rightarrow> int \<Rightarrow> partialManager option \<Rightarrow> partialManager option" where
  "node_PrunePartial kind grp pm = map_option (\<lambda>m. prune m kind grp) pm"

definition node_LivePartialGroups :: "partialManager option \<Rightarrow> string list \<Rightarrow> nat" where
  "node_LivePartialGroups pm topics = (case pm of None \<Rightarrow> 0 | Some m \<Rightarrow> liveGroups m topics)"

section \<open>The runner's calls on the manager\<close>

text \<open>The effects in order; the calls that are not about the transport's state change nothing here.\<close>

fun run_partial :: "PartialResolver \<Rightarrow> effect list \<Rightarrow> partialManager option \<Rightarrow> partialManager option option" where
  "run_partial R [] pm = Some pm"
| "run_partial R (e # es) pm =
     Option.bind
       (case e of
          PublishLocalPartial t k pos sg d \<Rightarrow> node_PublishLocalPartial R t k pos sg d pm
        | SealPartial kind k \<Rightarrow> Some (node_SealPartial kind k pm)
        | PrunePartial kind k \<Rightarrow> Some (node_PrunePartial kind k pm)
        | _ \<Rightarrow> Some pm)
       (run_partial R es)"

text \<open>The votes of a bucket, validated or in the verifier.\<close>

definition held :: "partialManager \<Rightarrow> string \<Rightarrow> int \<Rightarrow> bytes \<Rightarrow> int set" where
  "held m t k d = fst (vstate m t k d) \<union> snd (vstate m t k d)"

text \<open>What the manager's state machine expects of an own vote.\<close>

fun acceptable :: "PartialResolver \<Rightarrow> partialManager \<Rightarrow> effect \<Rightarrow> bool" where
  "acceptable R m (PublishLocalPartial t k pos sg d) \<longleftrightarrow>
     (\<exists>kind sub. partialKindFor t = Some (kind, sub) \<and> \<not> below_floor m kind k \<and> 0 \<le> pos \<and> pos < res_CommitteeSize R kind sub k)"
| "acceptable R m (PrunePartial kind k) \<longleftrightarrow> False"
| "acceptable R m _ \<longleftrightarrow> True"

lemma acceptable_floor: "pm_floor m' = pm_floor m \<Longrightarrow> acceptable R m' e = acceptable R m e"
  by (drule below_floor_cong) (cases e; simp)

lemma publishLocal_total:
  assumes "partialKindFor t = Some (kind, sub)" and "0 < res_CommitteeSize R kind sub k"
  shows "\<exists>m'. publishLocal R m t k pos sg d = Some m'"
proof -
  obtain r m1 where r: "getOrCreateGroup R m t k = (r, m1)" by fastforce
  have "\<not> isl (fst (getOrCreateGroup R m t k))"
    using assms unfolding getOrCreateGroup_def Let_def by (cases "pm_group (touch_topic t m) t k") simp_all
  then obtain g where "r = Inr g" using r by (cases r) simp_all
  then show ?thesis using r by (simp add: publishLocal_def)
qed

text \<open>One effect is one step of the state machine, or none.\<close>

lemma acceptable_step:
  assumes "manager_inv R (ps_mgr s)" and "acceptable R (ps_mgr s) e" and "preach B E R m0 s"
  shows "\<exists>m'. (\<forall>es. run_partial R (e # es) (Some (ps_mgr s)) = run_partial R es (Some m')) \<and>
    preach B E R m0 (s\<lparr>ps_mgr := m'\<rparr>) \<and> pm_floor m' = pm_floor (ps_mgr s) \<and>
    (\<forall>t k d. held (ps_mgr s) t k d \<subseteq> held m' t k d) \<and>
    (\<forall>t k pos sg d. e = PublishLocalPartial t k pos sg d \<longrightarrow> pos \<in> held m' t k d)"
proof (cases "\<exists>t k pos sg d. e = PublishLocalPartial t k pos sg d")
  case True
  then obtain t k pos sg d kind sub where e: "e = PublishLocalPartial t k pos sg d" "partialKindFor t = Some (kind, sub)"
    "\<not> below_floor (ps_mgr s) kind k" "0 \<le> pos" "pos < res_CommitteeSize R kind sub k" using assms(2) by auto
  obtain m' where m': "publishLocal R (ps_mgr s) t k pos sg d = Some m'"
    using publishLocal_total [OF e(2)] e(4,5) by fastforce
  note eff = publishLocal_effect [OF assms(1) e(2-5) m']
  have "preach B E R m0 (s\<lparr>ps_mgr := m'\<rparr>)" by (rule preach.step [OF assms(3) pstep.own [OF e(2-5) m']])
  moreover have "run_partial R (e # es) (Some (ps_mgr s)) = run_partial R es (Some m')" for es
    by (simp add: e(1) node_PublishLocalPartial_def m')
  moreover have "held (ps_mgr s) t' k' d' \<subseteq> held m' t' k' d'" for t' k' d' by (auto simp: held_def eff(3))
  moreover have "pos \<in> held m' t k d" by (auto simp: held_def eff(3))
  ultimately show ?thesis using eff(2) e(1) by (intro exI [of _ m']) simp
next
  case False
  show ?thesis
  proof (cases "\<exists>kind k. e = SealPartial kind k")
    case True
    then obtain kind k where e: "e = SealPartial kind k" by blast
    have "preach B E R m0 (s\<lparr>ps_mgr := seal (ps_mgr s) kind k\<rparr>)" by (rule preach.step [OF assms(3) pstep.seals])
    then show ?thesis
      using seal_effect [OF assms(1)] by (intro exI [of _ "seal (ps_mgr s) kind k"]) (simp add: e node_SealPartial_def held_def)
  next
    case no_seal: False
    have "run_partial R (e # es) (Some (ps_mgr s)) = run_partial R es (Some (ps_mgr s))" for es
      using False no_seal assms(2) by (cases e) auto
    moreover have "preach B E R m0 (s\<lparr>ps_mgr := ps_mgr s\<rparr>)" using assms(3) by simp
    ultimately show ?thesis using False by (intro exI [of _ "ps_mgr s"]) simp
  qed
qed

lemma run_acceptable:
  assumes "bitmap_ok B" and "fresh_manager m0" and "preach B E R m0 s" and "\<forall>e \<in> set es. acceptable R (ps_mgr s) e"
  shows "\<exists>m'. run_partial R es (Some (ps_mgr s)) = Some (Some m') \<and> preach B E R m0 (s\<lparr>ps_mgr := m'\<rparr>) \<and>
    (\<forall>t k d. held (ps_mgr s) t k d \<subseteq> held m' t k d) \<and>
    (\<forall>t k pos sg d. PublishLocalPartial t k pos sg d \<in> set es \<longrightarrow> pos \<in> held m' t k d)"
  using assms(3,4)
proof (induction es arbitrary: s)
  case Nil
  then show ?case by (intro exI [of _ "ps_mgr s"]) simp
next
  case (Cons e es)
  have acc: "acceptable R (ps_mgr s) e" using Cons.prems(2) by simp
  obtain m1 where m1: "\<And>es. run_partial R (e # es) (Some (ps_mgr s)) = run_partial R es (Some m1)"
    "preach B E R m0 (s\<lparr>ps_mgr := m1\<rparr>)" "pm_floor m1 = pm_floor (ps_mgr s)"
    "\<And>t k d. held (ps_mgr s) t k d \<subseteq> held m1 t k d"
    "\<And>t k pos sg d. e = PublishLocalPartial t k pos sg d \<Longrightarrow> pos \<in> held m1 t k d"
    using acceptable_step [OF preach_manager_inv [OF assms(1,2) Cons.prems(1)] acc Cons.prems(1)] by blast
  have "\<forall>e \<in> set es. acceptable R (ps_mgr (s\<lparr>ps_mgr := m1\<rparr>)) e"
    using Cons.prems(2) acceptable_floor [OF m1(3)] by simp
  then obtain m' where "run_partial R es (Some m1) = Some (Some m')" "preach B E R m0 (s\<lparr>ps_mgr := m'\<rparr>)"
    "\<And>t k d. held m1 t k d \<subseteq> held m' t k d"
    "\<And>t k pos sg d. PublishLocalPartial t k pos sg d \<in> set es \<Longrightarrow> pos \<in> held m' t k d"
    using Cons.IH [OF m1(2)] by auto
  then show ?case using m1(1,4,5) by (intro exI [of _ m']) (simp, blast)
qed

section \<open>Own votes\<close>

text \<open>A member duty of the runner is acceptable to the manager, if the plan is well-formed.\<close>

lemma Node_attest_duties: "Node a n = Some v \<Longrightarrow> v_AttestDuties v = map (\<lambda>sp. slot_attest_duties sp n) (a_Slots a)"
  by (auto simp: Node_def bind_eq_Some_conv Let_def)

lemma view_attest_duties:
  assumes "Node a n = Some v" and "go_index (v_AttestDuties v) slot = Some ds"
  shows "\<exists>k < length (a_Slots a). slot = int k \<and> ds = slot_attest_duties (a_Slots a ! k) n"
  using Node_attest_duties [OF assms(1)] assms(2)
  by (intro exI [of _ "nat slot"]) (auto simp: go_index_def split: if_splits)

lemma view_finality_duties:
  assumes "Node a n = Some v" and "go_index (v_FinalityVoteDuties v) k = Some ds"
  shows "0 \<le> k \<and> finalityVoteDuties a n k = Some ds"
  using assms(2) Node_finality(1) [OF assms(1), of "nat k"] by (auto simp: go_index_def split: if_splits)

lemma topic_partial:
  "0 \<le> s \<Longrightarrow> s < 2 ^ 63 \<Longrightarrow> partialKindFor (AttestationTopic s) = Some (KindAttestation, s)"
  "0 \<le> s \<Longrightarrow> s < 2 ^ 63 \<Longrightarrow> partialKindFor (FinalityVoteTopic s) = Some (KindFinalityVote, s)"
  using partialKindFor_topicOf [of KindAttestation s] partialKindFor_topicOf [of KindFinalityVote s] by simp_all

lemma emitPartial_acceptable:
  assumes "\<forall>d \<in> set (attestationDuties ss). 0 \<le> ad_Subnet d \<and> ad_Subnet d < 2 ^ 63 \<and> 0 \<le> ad_Position d \<and>
      ad_Position d < res_CommitteeSize R KindAttestation (ad_Subnet d) slot"
    and "\<not> below_floor m KindAttestation slot"
  shows "\<forall>e \<in> set (emitPartial C r order slot ss w v t). acceptable R m e"
  using assms by (auto simp: emitPartial_def Let_def topic_partial)

lemma emitFinalityVotesPartial_acceptable:
  assumes "\<forall>d \<in> set (duties fs). 0 \<le> ad_Subnet d \<and> ad_Subnet d < 2 ^ 63 \<and> 0 \<le> ad_Position d \<and>
      ad_Position d < res_CommitteeSize R KindFinalityVote (ad_Subnet d) n"
    and "\<not> below_floor m KindFinalityVote n"
  shows "\<forall>e \<in> set (emitFinalityVotesPartial C r order n fs t). acceptable R m e"
  using assms by (auto simp: emitFinalityVotesPartial_def Let_def topic_partial)

text \<open>
  C8: the runner gives the transport only votes it can take.  On a node of a well-formed plan, in every
  reachable state of its manager in which the slot is not yet pruned, the whole burst of a slot's
  attestations goes through without a panic, the manager is again in a reachable state, and every vote
  of a subscribed subnet is in the bucket of the voted data at its committee position.
\<close>

theorem own_attestations_accepted:
  assumes "wf_plan a" and "Node a (r_num r) = Some (r_view r)"
    and "bitmap_ok B" and "0 \<le> D" and "newPartialManager opts D = Some m0" and "preach B E (NewPartialResolver a) m0 s"
    and "go_index (v_AttestDuties (r_view r)) slot = Some (attestationDuties ss)"
    and "\<forall>d \<in> set (attestationDuties ss). 0 \<le> ad_Subnet d \<and> ad_Subnet d < 2 ^ 63"
    and "\<not> below_floor (ps_mgr s) KindAttestation slot"
  shows "\<exists>m'. run_partial (NewPartialResolver a) (emitPartial C r order slot ss w v t) (Some (ps_mgr s)) = Some (Some m') \<and>
    preach B E (NewPartialResolver a) m0 (s\<lparr>ps_mgr := m'\<rparr>) \<and>
    (\<forall>d \<in> set (attestationDuties ss). ad_Subnet d \<in> attestationSubnetsSubscribed ss \<longrightarrow>
       ad_Position d \<in> held m' (AttestationTopic (ad_Subnet d)) slot (MakePartialAttData C slot (ad_Subnet d) w (r_attDataSize r)))"
proof -
  let ?R = "NewPartialResolver a" and ?es = "emitPartial C r order slot ss w v t"
  obtain k where k: "k < length (a_Slots a)" "slot = int k" "attestationDuties ss = slot_attest_duties (a_Slots a ! k) (r_num r)"
    using view_attest_duties [OF assms(2,7)] by blast
  have "0 \<le> ad_Position d \<and> ad_Position d < res_CommitteeSize ?R KindAttestation (ad_Subnet d) slot"
    if d: "d \<in> set (attestationDuties ss)" for d
  proof -
    obtain c i where "committee a (ad_Subnet d) slot = Some c" "i < length c" "ad_Position d = int i"
      using attest_duty_committee [OF assms(1) k(1)] d unfolding k(2,3) by metis
    then show ?thesis by (simp add: NewPartialResolver_def resolver_CommitteeSize_def)
  qed
  then have "\<forall>e \<in> set ?es. acceptable ?R (ps_mgr s) e"
    using assms(8,9) by (intro emitPartial_acceptable) simp_all
  from run_acceptable [OF assms(3) newPartialManager_fresh [OF assms(4,5)] assms(6) this]
  obtain m' where m': "run_partial ?R ?es (Some (ps_mgr s)) = Some (Some m')" "preach B E ?R m0 (s\<lparr>ps_mgr := m'\<rparr>)"
    "\<And>t k pos sg d. PublishLocalPartial t k pos sg d \<in> set ?es \<Longrightarrow> pos \<in> held m' t k d" by blast
  have "PublishLocalPartial (AttestationTopic (ad_Subnet d)) slot (ad_Position d) (MakePartialSignature (nat (r_sigSize r)))
      (MakePartialAttData C slot (ad_Subnet d) w (r_attDataSize r)) \<in> set ?es"
    if "d \<in> set (attestationDuties ss)" "ad_Subnet d \<in> attestationSubnetsSubscribed ss" for d
    using that by (force simp: emitPartial_def Let_def)
  then show ?thesis using m' by (intro exI [of _ m']) blast
qed

text \<open>
  The same for finality votes: the burst of a round goes through without a panic, and every vote of
  the node's own finality subnet is in its bucket at the position the validator has in its cell.
\<close>

theorem own_finality_votes_accepted:
  assumes "wf_plan a" and "Node a (r_num r) = Some (r_view r)" and "0 \<le> r_num r" and "r_num r < numNodes a"
    and "bitmap_ok B" and "0 \<le> D" and "newPartialManager opts D = Some m0" and "preach B E (NewPartialResolver a) m0 s"
    and "go_index (v_FinalityVoteDuties (r_view r)) n = Some (duties fs)"
    and "\<forall>d \<in> set (duties fs). 0 \<le> ad_Subnet d \<and> ad_Subnet d < 2 ^ 63"
    and "r_partial r" and "\<not> voteDone fs" and "\<not> below_floor (ps_mgr s) KindFinalityVote n"
  shows "\<exists>m'. run_partial (NewPartialResolver a) (snd (emitFinalityVotes C r order n fs t)) (Some (ps_mgr s)) = Some (Some m') \<and>
    preach B E (NewPartialResolver a) m0 (s\<lparr>ps_mgr := m'\<rparr>) \<and>
    (\<forall>d \<in> set (duties fs). ad_Subnet d = ownSubnet fs \<longrightarrow>
       ad_Position d \<in> held m' (FinalityVoteTopic (ad_Subnet d)) n (MakePartialAttData C n (ad_Subnet d) 0 (r_attDataSize r)))"
proof -
  let ?R = "NewPartialResolver a" and ?es = "emitFinalityVotesPartial C r order n fs t"
  have es: "snd (emitFinalityVotes C r order n fs t) = ?es" using assms(11,12) by (simp add: emitFinalityVotes_def)
  have "0 \<le> ad_Position d \<and> ad_Position d < res_CommitteeSize ?R KindFinalityVote (ad_Subnet d) n"
    if "d \<in> set (duties fs)" for d
    using resolver_recovers_finality_voter [OF assms(1,3,4) _ _ that, of n] view_finality_duties [OF assms(2,9)]
    by (auto simp: NewPartialResolver_def)
  then have "\<forall>e \<in> set ?es. acceptable ?R (ps_mgr s) e"
    using assms(10,13) by (intro emitFinalityVotesPartial_acceptable) simp_all
  from run_acceptable [OF assms(5) newPartialManager_fresh [OF assms(6,7)] assms(8) this]
  obtain m' where m': "run_partial ?R ?es (Some (ps_mgr s)) = Some (Some m')" "preach B E ?R m0 (s\<lparr>ps_mgr := m'\<rparr>)"
    "\<And>t k pos sg d. PublishLocalPartial t k pos sg d \<in> set ?es \<Longrightarrow> pos \<in> held m' t k d" by blast
  have "PublishLocalPartial (FinalityVoteTopic (ad_Subnet d)) n (ad_Position d) (MakePartialSignature (nat (r_sigSize r)))
      (MakePartialAttData C n (ad_Subnet d) 0 (r_attDataSize r)) \<in> set ?es"
    if "d \<in> set (duties fs)" "ad_Subnet d = ownSubnet fs" for d
    using that by (force simp: emitFinalityVotesPartial_def Let_def)
  then show ?thesis using m' unfolding es by (intro exI [of _ m']) blast
qed

section \<open>Ended slots\<close>

lemma pstep_floor:
  assumes "bitmap_ok B" and "manager_inv R (ps_mgr s)" and "pstep B E R s s'" and "below_floor (ps_mgr s) kind k"
  shows "below_floor (ps_mgr s') kind k"
  using assms(3)
proof cases
  case (rpc sender rpc pst e m pst' js)
  then show ?thesis using grows_floor [OF onIncomingRPC_grows [OF assms(1,2) rpc(2)]] assms(4) by simp
next
  case (verified js j js' sink at m promoted recs)
  then show ?thesis using below_floor_cong [OF markValidated_effect(2) [OF assms(2) verified(3)]] assms(4) by simp
next
  case (own t kind sub k pos sg d m)
  then show ?thesis using below_floor_cong [OF publishLocal_effect(2) [OF assms(2) own(2-6)]] assms(4) by simp
next
  case (tick t k ord pst rq acc m pst' out)
  have "grows R (ps_mgr s) m []"
    using publishActions_grows [OF assms(1,2), of E t k ord pst rq acc] tick(2) by auto
  then show ?thesis using tick(1) grows_floor assms(4) by simp
next
  case (seals kind' k')
  then show ?thesis using below_floor_cong [OF seal_frame(1) [of "ps_mgr s" kind' k']] assms(4) by simp
next
  case (prunes kind' k')
  then show ?thesis using assms(4) by (simp add: below_floor_prune)
qed

lemma psteps_floor:
  assumes "rtranclp (pstep B E R) s s'" and "bitmap_ok B" and "fresh_manager m0" and "preach B E R m0 s"
    and "below_floor (ps_mgr s) kind k"
  shows "preach B E R m0 s' \<and> below_floor (ps_mgr s') kind k"
  using assms(1)
proof induction
  case (step s1 s2)
  then show ?case
    using pstep_floor [OF assms(2) preach_manager_inv [OF assms(2,3)]] by (blast intro: preach.step)
qed (use assms(4,5) in simp)

lemma below_floor_no_group:
  assumes "manager_inv R m" and "below_floor m kind k" and "partialKindFor t = Some (kind, sub)"
  shows "pm_group m t k = None"
proof (cases "pm_group m t k")
  case (Some g)
  from manager_inv_group [OF assms(1) this] assms(2,3) show ?thesis by (simp add: group_ok_def)
qed

text \<open>The groups whose time is over when \<open>endSlot\<close> has run for a slot.\<close>

definition ended :: "NodeRunner \<Rightarrow> int \<Rightarrow> Kind \<Rightarrow> int \<Rightarrow> bool" where
  "ended r slot kind k \<longleftrightarrow>
     kind = KindAttestation \<and> r_attest r \<and> 0 \<le> k \<and> k < slot \<or>
     kind = KindFinalityVote \<and> r_decoupled r \<and> (\<exists>key. reap_key r slot = Some (Some key) \<and> k \<le> key)"

text \<open>Effects that only prune, as far as the transport is concerned.\<close>

fun prunes_only :: "effect \<Rightarrow> bool" where
  "prunes_only (PublishLocalPartial _ _ _ _ _) \<longleftrightarrow> False"
| "prunes_only (SealPartial _ _) \<longleftrightarrow> False"
| "prunes_only _ \<longleftrightarrow> True"

lemma run_prunes:
  assumes "\<forall>e \<in> set es. prunes_only e" and "preach B E R m0 s"
  shows "\<exists>m'. run_partial R es (Some (ps_mgr s)) = Some (Some m') \<and> preach B E R m0 (s\<lparr>ps_mgr := m'\<rparr>) \<and>
    (\<forall>kind k. below_floor m' kind k \<longleftrightarrow> below_floor (ps_mgr s) kind k \<or> (\<exists>j. PrunePartial kind j \<in> set es \<and> k \<le> j))"
  using assms
proof (induction es arbitrary: s)
  case Nil
  then show ?case by (intro exI [of _ "ps_mgr s"]) simp
next
  case (Cons e es)
  show ?case
  proof (cases "\<exists>kind j. e = PrunePartial kind j")
    case True
    then obtain kind j where e: "e = PrunePartial kind j" by blast
    let ?s = "s\<lparr>ps_mgr := prune (ps_mgr s) kind j\<rparr>"
    have "preach B E R m0 ?s" by (rule preach.step [OF Cons.prems(2) pstep.prunes])
    then obtain m' where "run_partial R es (Some (ps_mgr ?s)) = Some (Some m')" "preach B E R m0 (?s\<lparr>ps_mgr := m'\<rparr>)"
      "\<forall>kind k. below_floor m' kind k \<longleftrightarrow> below_floor (ps_mgr ?s) kind k \<or> (\<exists>j. PrunePartial kind j \<in> set es \<and> k \<le> j)"
      using Cons.IH [of ?s] Cons.prems(1) by auto
    then show ?thesis by (intro exI [of _ m']) (auto simp: e node_PrunePartial_def below_floor_prune)
  next
    case False
    then have "run_partial R (e # es) (Some (ps_mgr s)) = run_partial R es (Some (ps_mgr s))"
      using Cons.prems(1) by (cases e) simp_all
    moreover have "PrunePartial kind j \<in> set (e # es) \<longleftrightarrow> PrunePartial kind j \<in> set es" for kind j using False by auto
    ultimately show ?thesis using Cons.IH [OF _ Cons.prems(2)] Cons.prems(1) by (simp only: list.set_intros) simp
  qed
qed

lemma endSlot_prunes:
  assumes "endSlot r rounds slot ss = Some (r', ss', es)"
  shows "\<forall>e \<in> set es. prunes_only e"
    and "r_partial r \<Longrightarrow> ended r slot kind k \<Longrightarrow> \<exists>j. PrunePartial kind j \<in> set es \<and> k \<le> j"
proof -
  let ?r = "r\<lparr>r_slots := (r_slots r)(slot := None)\<rparr>"
  have rk: "reap_key ?r slot = reap_key r slot" by (simp add: reap_key_def)
  have dd: "\<forall>e \<in> set (snd (dropDials ss)). prunes_only e" by (simp add: dropDials_def)
  have df: "\<forall>e \<in> set (snd (dropFinality x rounds key fs)). prunes_only e" for x key fs
    by (auto simp: dropFinality_def Let_def)
  have reap: "(\<forall>e \<in> set e'. prunes_only e) \<and>
      (r_partial r \<longrightarrow> reap_key r slot = Some (Some key) \<longrightarrow> PrunePartial KindFinalityVote key \<in> set e')"
    if h: "reapFinality ?r rounds slot = Some (r2, e')" for r2 e' key
  proof -
    obtain ko where ko: "reap_key r slot = Some ko" using h unfolding reapFinality_def rk by auto
    show ?thesis
    proof (cases ko)
      case (Some k)
      then show ?thesis using h ko df unfolding reapFinality_def rk by (cases "r_finals r k") (auto simp: Let_def)
    qed (use h ko in \<open>simp add: reapFinality_def rk\<close>)
  qed
  show "\<forall>e \<in> set es. prunes_only e"
    using assms dd reap by (auto simp: endSlot_def Let_def split_beta split: if_splits)
  assume p: "r_partial r" and e: "ended r slot kind k"
  show "\<exists>j. PrunePartial kind j \<in> set es \<and> k \<le> j"
  proof (cases "kind = KindAttestation")
    case True
    then have "r_attest r" "0 < slot" "k \<le> slot - 1" using e by (auto simp: ended_def)
    then have "PrunePartial KindAttestation (slot - 1) \<in> set es" "k \<le> slot - 1"
      using assms p by (auto simp: endSlot_def Let_def split_beta split: if_splits)
    then show ?thesis using True by blast
  next
    case False
    then obtain key where key: "kind = KindFinalityVote" "r_decoupled r" "reap_key r slot = Some (Some key)" "k \<le> key"
      using e by (auto simp: ended_def)
    then obtain r2 e' where re: "reapFinality ?r rounds slot = Some (r2, e')" and sub: "\<exists>pre. es = pre @ e'"
      using assms by (force simp: endSlot_def Let_def split_beta)
    have "PrunePartial KindFinalityVote key \<in> set e'" using reap [OF re, of key] p key(3) by blast
    then have "PrunePartial KindFinalityVote key \<in> set es" using sub by auto
    then show ?thesis using key(1,4) by blast
  qed
qed


section \<open>Starting\<close>

lemma started_options:
  assumes "Start ps_ok defaults logger cfg opts = Some (Inr (pm, options))"
  shows "pm = Option.bind opts (\<lambda>po. newPartialManager po (nc_D cfg))"
    and "newExtension \<in> set options \<longleftrightarrow> opts \<noteq> None"
    and "WithGossipSubParams q \<in> set options \<longleftrightarrow> q = start_params cfg defaults"
  using assms
  by (auto simp: Start_def newExtension_def Let_def bind_eq_Some_conv split: option.splits if_splits)

text \<open>
  A built node starts with the transport it was built for.  \<open>Start\<close> never panics on a node of the
  driver's fleet; when the library accepts the options, the node has a manager, and the library its
  extension, exactly if the run uses the partial transport; the manager is fresh, reads the run's plan
  and forwards a vote to as many peers as the run says, twice the mesh degree by default.
\<close>

theorem started_nodes_ready:
  assumes "driver_New fLen fPeers nw cfg = Some (Inr nds)" and "i \<in> {0..<fLen nw}" and "0 \<le> cf_D cfg"
    and "\<And>options. ps_ok options"
  shows "\<exists>pm options. Start ps_ok defaults logger (fn_cfg (nds ! nat i)) (fn_partial (nds ! nat i)) = Some (Inr (pm, options)) \<and>
    (newExtension \<in> set options \<longleftrightarrow> cf_Partial cfg \<noteq> None) \<and>
    (case cf_Partial cfg of
       None \<Rightarrow> pm = None
     | Some pp \<Rightarrow> \<exists>m. pm = Some m \<and> fresh_manager m \<and> pm_floor m = Map.empty \<and>
         pm_maxPeers m = (if pp_MaxPeersPerAttestation pp \<le> 0 then 2 * cf_D cfg else pp_MaxPeersPerAttestation pp))"
proof -
  let ?nd = "nds ! nat i"
  obtain view where nd: "fn_cfg ?nd = node_config cfg view i"
    "fn_partial ?nd = map_option (\<lambda>pp. NodeOpts pp (cf_Seed cfg) (Some (plan_resolver_of (cf_Schedule cfg)))) (cf_Partial cfg)"
    by (rule new_node_Inr [OF driver_New_nth(2) [OF assms(1,2)]])
  have D: "nc_D (fn_cfg ?nd) = cf_D cfg" by (simp add: nd node_config_def)
  show ?thesis
  proof (cases "cf_Partial cfg")
    case None
    then show ?thesis using assms(4) by (simp add: Start_def nd newExtension_def Let_def)
  next
    case (Some pp)
    let ?po = "NodeOpts pp (cf_Seed cfg) (Some (plan_resolver_of (cf_Schedule cfg)))"
    obtain m where m: "newPartialManager ?po (cf_D cfg) = Some m" by (simp add: newPartialManager_def NodeOpts_def)
    have "fresh_manager m" by (rule newPartialManager_fresh [OF assms(3) m])
    moreover have "pm_floor m = Map.empty \<and>
        pm_maxPeers m = (if pp_MaxPeersPerAttestation pp \<le> 0 then 2 * cf_D cfg else pp_MaxPeersPerAttestation pp)"
      using m by (auto simp: newPartialManager_def NodeOpts_def)
    moreover have "\<exists>options. Start ps_ok defaults logger (fn_cfg ?nd) (fn_partial ?nd) = Some (Inr (Some m, options)) \<and>
        newExtension \<in> set options"
      using assms(4) Some m by (simp add: Start_def nd(2) D Let_def)
    ultimately show ?thesis using Some by auto
  qed
qed

section \<open>The example run\<close>

definition partial_opts :: PartialOpts where
  "partial_opts = \<lparr>po_PublishInterval = 0, po_MaxPeersPerAttestation = 0, po_MaxIWantPerPosition = 0,
     po_DisableMetadataGossip = False, po_Seed = 1, po_Resolver = Some (NewPartialResolver example_plan)\<rparr>"

lemma partial_opts_new: "newPartialManager partial_opts 8 = Some plan_mgr"
  by (simp add: newPartialManager_def plan_mgr_def partial_opts_def)

definition partial_view :: View where
  "partial_view = the (Node example_plan 1)"

lemma partial_view: "Node example_plan 1 = Some partial_view"
proof -
  have "Node example_plan 1 \<noteq> None" by code_simp
  then show ?thesis by (simp add: partial_view_def)
qed

definition partial_runner :: NodeRunner where
  "partial_runner = ex_runner\<lparr>r_num := 1, r_view := partial_view, r_partial := True, r_attest := True\<rparr>"

lemma partial_runner_simps [simp]:
  "r_num partial_runner = 1" "r_view partial_runner = partial_view" "r_partial partial_runner" "r_attest partial_runner"
  by (simp_all add: partial_runner_def)

lemma plan_start: "preach byte_bitmaps plan_codec (NewPartialResolver example_plan) plan_mgr (pinit plan_mgr)"
  "ps_mgr (pinit plan_mgr) = plan_mgr"
  by (rule preach.start) (simp add: pinit_def)

theorem own_attestations_accepted_witness:
  "\<exists>m'. run_partial (NewPartialResolver example_plan)
      (emitPartial fixed_codec partial_runner [] 0
        (ex_slot\<lparr>attestationDuties := [\<lparr>ad_Subnet = 0, ad_Val = 3, ad_Position = 1\<rparr>], attestationSubnetsSubscribed := {0}\<rparr>)
        (-1) False 4000) (Some plan_mgr) = Some (Some m') \<and>
    1 \<in> held m' (AttestationTopic 0) 0 (MakePartialAttData fixed_codec 0 0 (-1) (r_attDataSize partial_runner))"
proof -
  let ?d = "\<lparr>ad_Subnet = 0, ad_Val = 3, ad_Position = 1\<rparr>"
  have n: "Node example_plan (r_num partial_runner) = Some (r_view partial_runner)" by (simp add: partial_view)
  have d: "go_index (v_AttestDuties (r_view partial_runner)) 0 =
      Some (attestationDuties (ex_slot\<lparr>attestationDuties := [?d], attestationSubnetsSubscribed := {0}\<rparr>))"
    using Node_attest_duties [OF partial_view] by (simp add: go_index_def slot_attest_duties_def example_plan_def)
  have "\<not> below_floor (ps_mgr (pinit plan_mgr)) KindAttestation 0"
    by (simp add: below_floor_def pinit_def plan_mgr_def)
  from own_attestations_accepted [OF example_plan_wf_plan n byte_bitmaps_ok _ partial_opts_new plan_start(1) d _ this,
      where C = fixed_codec and order = "[]" and w = "-1" and v = False and t = 4000]
  show ?thesis unfolding plan_start(2) by auto
qed

theorem own_finality_votes_accepted_witness:
  "\<exists>m'. run_partial (NewPartialResolver example_plan)
      (snd (emitFinalityVotes fixed_codec partial_runner [] 1
        (ex_round []\<lparr>duties := [\<lparr>ad_Subnet = 0, ad_Val = 1, ad_Position = 0\<rparr>, \<lparr>ad_Subnet = 1, ad_Val = 3, ad_Position = 0\<rparr>],
           ownSubnet := 1\<rparr>) 4000)) (Some plan_mgr) = Some (Some m') \<and>
    0 \<in> held m' (FinalityVoteTopic 1) 1 (MakePartialAttData fixed_codec 1 1 0 (r_attDataSize partial_runner))"
proof -
  let ?fs = "ex_round []\<lparr>duties := [\<lparr>ad_Subnet = 0, ad_Val = 1, ad_Position = 0\<rparr>, \<lparr>ad_Subnet = 1, ad_Val = 3, ad_Position = 0\<rparr>],
           ownSubnet := 1\<rparr>"
  have n: "Node example_plan (r_num partial_runner) = Some (r_view partial_runner)" by (simp add: partial_view)
  have num: "0 \<le> r_num partial_runner" "r_num partial_runner < numNodes example_plan"
    by (simp_all add: numNodes_def example_plan_def)
  have "go_index (v_FinalityVoteDuties (the (Node example_plan 1))) 1 =
      Some [\<lparr>ad_Subnet = 0, ad_Val = 1, ad_Position = 0\<rparr>, \<lparr>ad_Subnet = 1, ad_Val = 3, ad_Position = 0\<rparr>]" by code_simp
  then have d: "go_index (v_FinalityVoteDuties (r_view partial_runner)) 1 = Some (duties ?fs)"
    by (simp add: partial_view_def)
  have v: "\<not> voteDone ?fs" by (simp add: ex_round_def)
  have "\<not> below_floor (ps_mgr (pinit plan_mgr)) KindFinalityVote 1"
    by (simp add: below_floor_def pinit_def plan_mgr_def)
  from own_finality_votes_accepted [OF example_plan_wf_plan n num byte_bitmaps_ok _ partial_opts_new plan_start(1) d _ _ v this,
      where C = fixed_codec and order = "[]" and t = 4000]
  show ?thesis unfolding plan_start(2) by auto
qed


definition plain_params :: gossip_params where
  "plain_params = \<lparr>gp_D = 6, gp_Dlo = 5, gp_Dhi = 12, gp_Dout = 2, gp_Dlazy = 6, gp_HeartbeatInterval = 1000000000,
     gp_FanoutTTL = 60000000000, gp_HistoryLength = 5, gp_HistoryGossip = 3\<rparr>"

theorem started_nodes_ready_witness:
  "\<exists>nds m options. driver_New (\<lambda>_. 2) ex_peers () (same_run ex_load ex_flags) = Some (Inr nds) \<and>
     Start (\<lambda>_. True) plain_params False (fn_cfg (nds ! 1)) (fn_partial (nds ! 1)) = Some (Inr (Some m, options)) \<and>
     pm_maxPeers m = 16"
proof -
  obtain nds where nds: "driver_New (\<lambda>_. 2) ex_peers () (same_run ex_load ex_flags) = Some (Inr nds)" using ex_fleet by blast
  have c: "cf_D (same_run ex_load ex_flags) = 8" "cf_Partial (same_run ex_load ex_flags) = Some (main_partial ex_flags)"
    "pp_MaxPeersPerAttestation (main_partial ex_flags) = 0"
    by (simp_all add: same_run_def ex_flags_def default_flags_def main_partial_def)
  from started_nodes_ready [OF nds, of 1 "\<lambda>_. True" plain_params False] show ?thesis using nds by (auto simp: c)
qed

end
