(* ===== verification/Spec2Isabelle.thy ===== *)
theory Spec2Isabelle
  imports Publishing MetricsProps PartialProps Resolver Verifier Coupling VoteProps Emission FinalityProps SlotProps
    TopologyProps DriverProps Delivery PartialNode
begin

text \<open>
  A model of the Go half of the slot simulator (src/): a fleet of simulated beacon nodes exchanges
  blocks, columns, attestations, sync messages and finality votes over gossipsub, and the arrivals
  are recorded.

  \<^bold>\<open>The program.\<close>  A plan (\<open>schedule.json\<close>, package \<open>schedule\<close>) says who proposes, votes and
  aggregates in which slot.  A runner per node (\<open>driver/runner.go\<close>) opens a slot (\<open>setupSlot\<close>), is
  told of every arrival (\<open>onReceive\<close>), decides its votes (\<open>driver/coupling.go\<close>) and publishes through
  its node (\<open>node/node.go\<close>).  The node joins topics, verifies what comes in by sleeping in a queue
  (\<open>node/verifier.go\<close>, \<open>node/column_verifier.go\<close>) and decodes it with the registry of message kinds
  (\<open>node/registry.go\<close>).  With the partial transport (\<open>node/partial.go\<close>) attestations and finality
  votes travel as bitmap batches instead, and \<open>driver/partial.go\<close> turns a position back into the
  identity of a vote.  The tracer (\<open>metrics/tracer.go\<close>) joins publishes and arrivals.

  \<^bold>\<open>The theories\<close>, in the order they build on each other:

  \<^item> \<open>Prelude\<close>: Go's indexing, string cutting, decimal printing and parsing, folds that may fail.
  \<^item> \<open>Topics\<close>, \<open>Registry\<close>, \<open>Wire\<close> (package \<open>validator\<close>, \<open>node/registry.go\<close>, \<open>Decode\<close> of
    \<open>node/node.go\<close>, the identities of \<open>metrics/tracer.go\<close>): topic names, the table of descriptors and
    the panics of \<open>buildLookups\<close>, the message builders and the decode path.  The lemmas show that a
    topic resolves to its own kind only, that an accepted table can be searched in any order, that
    every published message is decoded to the identity recorded for it, and the sizes.
  \<^item> \<open>Schedule\<close>, \<open>PlanView\<close> (package \<open>schedule\<close>): the plan, the finality position space
    (\<open>position.go\<close>), and one node's slice \<open>Assignment.Node\<close>.  The lemmas show that position and
    validator determine each other, that the cells partition the validators, and that the nodes'
    duties share out the plan.
  \<^item> \<open>Bitmap\<close>, \<open>PartialBucket\<close>, \<open>PartialManager\<close>, \<open>PartialSystem\<close>, \<open>PartialProps\<close>
    (\<open>node/partial.go\<close>): the vote buckets, the manager, the manager as a state machine together with
    the verification items in flight, its invariants by induction over the reachable states, and the
    guarantees: a vote is verified and reported at most once, no vote is sent to a peer twice, a
    pruned group stays pruned, a tick never panics.
  \<^item> \<open>Resolver\<close> (\<open>driver/partial.go\<close>): committee widths and identities from the plan; the locale
    \<open>resolver_spec\<close> is what the transport needs of a resolver and \<open>plan\<close> what makes a plan provide it.
  \<^item> \<open>Verifier\<close> (\<open>node/verifier.go\<close>, \<open>node/column_verifier.go\<close>): the queue as a step relation;
    order, delay, progress, and the drain on \<open>stop\<close>, with a measure that decreases.
  \<^item> \<open>RunnerState\<close>, \<open>Coupling\<close>, \<open>VoteClaim\<close>, \<open>VoteProps\<close>, \<open>Emission\<close> (\<open>driver/runner.go\<close>,
    \<open>driver/coupling.go\<close>): construction with every panic of \<open>NewRunner\<close>, the critical sections of the
    arrival handlers and timers in any interleaving, one vote per slot, the vote decision against its
    specification, and every publish directly preceded by the record its receivers decode.
  \<^item> \<open>Randomness\<close>, \<open>Finality\<close>, \<open>FinalityProps\<close>, \<open>Slots\<close>, \<open>SlotProps\<close> (\<open>driver/runner.go\<close>): the
    seeded draws, the finality rounds from pre-join to reaping, the slot lifecycle; dials, teardown,
    deadlines and the absence of panics on a well-formed plan.
  \<^item> \<open>Membership\<close>, \<open>MembershipProps\<close>, \<open>Publishing\<close> (\<open>node/node.go\<close>): the node's tables, their
    invariant under interleaved calls, and the composition of runner and node: a publish never meets
    a topic that was not joined.  The locale \<open>topic_table\<close> is the interface between the two.
  \<^item> \<open>Metrics\<close>, \<open>MetricsProps\<close> (\<open>metrics/tracer.go\<close>): the recorder, the rates, the percentiles, and
    what the headline numbers say about the runners' decisions.
  \<^item> \<open>Topology\<close>, \<open>TopologyProps\<close> (package \<open>netsim\<close>): the peer graph builders, the latency and link
    tables, the supernode draw and the three constructors.  The lemmas show that every member list of
    the plan is connected in its graph, which topologies are accepted and that the network built has
    their links and latencies, and that each link is dialed from one end.
  \<^item> \<open>Driver\<close>, \<open>DriverProps\<close> (\<open>driver/driver.go\<close>, \<open>cmd/slot-sim-node/main.go\<close>, \<open>receive\<close> of
    \<open>node/node.go\<close>): the fleet and the single node from their configuration, every fatal check of the
    binary, the bring-up and the run.  The lemmas show that built nodes are well-formed, that the two
    front ends build the same node, and what the bring-up leaves behind.  The locale \<open>fabric\<close> is what
    the driver needs of a network; \<open>netsim\<close> provides it.
  \<^item> \<open>Delivery\<close>: one node's burst, through the wire and the receive loop, into the recorder.
  \<^item> \<open>PartialNode\<close> (\<open>Start\<close> and the transport methods of \<open>node/node.go\<close>): the runner's calls run
    against the transport's state machine; own votes are legal steps, ended groups stay gone.

  \<^bold>\<open>Conventions.\<close>  A struct is a record, an enumeration a datatype, a map a partial function or, where
  its order of iteration can be seen, an argument that carries the order.  A panic, an index out of
  range and a division by zero are \<open>None\<close> or an error value.  Go's \<open>int\<close>, durations and instants are
  unbounded integers: the program's numbers stay far below 64 bits; the 32-bit conversions of the
  wire format and the 64-bit stream keys are words.  What an operation tells the node, the tracer and
  the clock is the list of its effects, in order; a timer is the effect \<open>At\<close> with its task.  Locked
  sections are atomic steps, and the properties that depend on it quantify over their interleavings.

  \<^bold>\<open>Parameters.\<close>  Code outside the repository is an argument: the protobuf codec (\<open>codec\<close>, with its
  round trip and size laws as the hypotheses \<open>codec_roundtrip\<close> and \<open>codec_sizes\<close>), the bitmap package
  (\<open>bitmap_ops\<close>, \<open>bitmap_spec\<close>, instantiated with a byte implementation), the random generator
  (\<open>rng_lib\<close>, \<open>rng_ok\<close>; for \<open>netsim\<close> \<open>rand_v2\<close> with \<open>draw_ok\<close> and \<open>perm_ok\<close>), and whether a call of
  the pubsub library succeeds (\<open>pubsub_answers\<close>).  Whether a host is built (\<open>host_ok\<close>) or a node starts
  (\<open>start_ok\<close>, \<open>ps_ok\<close>), the address of a host (\<open>ip\<close>), what \<open>schedule.Load\<close> returns (\<open>load\<close>) and the
  two functions of the driver's fabric are arguments.

  \<^bold>\<open>Termination.\<close>  Every operation is a total function.  Loops that scan a list are structural; the
  batch cut, the decimal printer and the dial loops have measures, and the retries of the graph builders are counted down from their bound; the only loop of the code that
  may never end, the host search over a zero stride in \<open>hostedVals\<close>, is \<open>None\<close> there.  No model uses
  fuel.  The verifier's \<open>run\<close> loop and the partial tick loop are step relations, since they are meant
  to run until they are stopped.

  \<^bold>\<open>Not modelled.\<close>  \<open>Load\<close> and \<open>LoadTopology\<close> (reading and parsing), the libp2p hosts and the
  simulated wire behind \<open>netsim\<close>, the Shadow host's UDP plumbing in \<open>main.go\<close> (\<open>newShadowHost\<close>,
  \<open>shadowUDPConn\<close>, \<open>sourceIPSelector\<close>, \<open>quicWithPacketConn\<close>), the RPC log sink, SHA-256, Ed25519 and the
  generator streams behind \<open>MessageIDFunc\<close>, \<open>NodePrivateKey\<close> and \<open>partialJitter\<close>, the generated
  protobuf bindings, log lines, and the Python side of the repository.  The instant an emission reads
  after waiting for its dials is an argument of the emission.  The settle sleeps of the bring-up carry
  no state.  The supernode share is a rational, where the code rounds a float, and \<open>TrimSpace\<close> knows
  the ASCII white space.
\<close>

end
